(* ===== verification/CC_Prelude.thy ===== *)
theory CC_Prelude
  imports Main "HOL-Library.Word" "HOL-Library.Multiset"
begin

text \<open>
  Shared vocabulary of the development: the machine integers and fixed-size hashes the Rust
  sources use, results with errors and panics, the state-and-error operations the mutable
  state objects are modelled with, and the generic facts on lists, maps and words that the
  component theories share.

  A Rust function that returns \<open>Result<T, E>\<close> returns a value of \<open>('e, 'a) result\<close>:
  \<open>Inr v\<close> for \<open>Ok(v)\<close>, \<open>Inl (Err e)\<close> for \<open>Err(e)\<close>, and \<open>Inl (Panic m)\<close> where the
  code would panic (a failed \<open>assert!\<close>, an \<open>expect\<close> on \<open>None\<close>, an index out of range).
  A method on \<open>&mut self\<close> that can fail is an operation \<open>('s, 'e, 'a) sop\<close>: it takes the
  state and returns the result together with the state as it is then left, also on failure,
  because the code does not undo the writes it made before an early return.
\<close>

unbundle bit_operations_syntax

section \<open>Machine integers, hashes and byte strings\<close>

type_synonym u8 = "8 word"
type_synonym u16 = "16 word"
type_synonym u64 = "64 word"
type_synonym u128 = "128 word"
type_synonym bytes = "8 word list"
type_synonym h160 = "160 word"
type_synonym h256 = "256 word"
type_synonym address = "160 word"
type_synonym public = "512 word"
type_synonym signature = "520 word"
type_synonym schnorr_signature = "512 word"
type_synonym shard_id = "16 word"
type_synonym network_id = "16 word"

section \<open>Results\<close>

datatype 'e failure = Err 'e | Panic string

type_synonym ('e, 'a) result = "'e failure + 'a"

abbreviation Ok :: "'a \<Rightarrow> ('e, 'a) result" where
  "Ok v \<equiv> Inr v"

abbreviation Error :: "'e \<Rightarrow> ('e, 'a) result" where
  "Error e \<equiv> Inl (Err e)"

abbreviation Panics :: "string \<Rightarrow> ('e, 'a) result" where
  "Panics m \<equiv> Inl (Panic m)"

definition rbind :: "('e, 'a) result \<Rightarrow> ('a \<Rightarrow> ('e, 'b) result) \<Rightarrow> ('e, 'b) result" where
  "rbind m k = (case m of Inl f \<Rightarrow> Inl f | Inr x \<Rightarrow> k x)"

definition rassert :: "string \<Rightarrow> bool \<Rightarrow> ('e, unit) result" where
  "rassert m b = (if b then Ok () else Panics m)"

definition ok_or :: "'e \<Rightarrow> 'a option \<Rightarrow> ('e, 'a) result" where
  "ok_or e x = (case x of None \<Rightarrow> Error e | Some v \<Rightarrow> Ok v)"

definition expect :: "string \<Rightarrow> 'a option \<Rightarrow> ('e, 'a) result" where
  "expect m x = (case x of None \<Rightarrow> Panics m | Some v \<Rightarrow> Ok v)"

definition usize_sub :: "nat \<Rightarrow> nat \<Rightarrow> ('e, nat) result" where
  "usize_sub a b = (if b \<le> a then Ok (a - b) else Panics ''subtract with overflow'')"

definition map_err :: "('e \<Rightarrow> 'f) \<Rightarrow> ('e, 'a) result \<Rightarrow> ('f, 'a) result" where
  "map_err g m = (case m of
     Inl (Err e) \<Rightarrow> Error (g e) | Inl (Panic p) \<Rightarrow> Panics p | Inr x \<Rightarrow> Ok x)"

fun rfold :: "('a \<Rightarrow> 's \<Rightarrow> ('e, 's) result) \<Rightarrow> 'a list \<Rightarrow> 's \<Rightarrow> ('e, 's) result" where
  "rfold f [] s = Ok s"
| "rfold f (x # xs) s = rbind (f x s) (rfold f xs)"

lemma rbind_simps [simp]:
  "rbind (Inl f) k = Inl f"
  "rbind (Inr x) k = k x"
  by (simp_all add: rbind_def)

lemma rbind_eq_Ok_iff: "rbind m k = Inr y \<longleftrightarrow> (\<exists>x. m = Inr x \<and> k x = Inr y)"
  by (cases m) auto

lemma rbind_eq_Inl_iff: "rbind m k = Inl f \<longleftrightarrow> m = Inl f \<or> (\<exists>x. m = Inr x \<and> k x = Inl f)"
  by (cases m) auto

lemma rbind_cong [fundef_cong]:
  "m = m' \<Longrightarrow> (\<And>x. m' = Inr x \<Longrightarrow> k x = k' x) \<Longrightarrow> rbind m k = rbind m' k'"
  by (cases m') auto

lemma rbind_assoc: "rbind (rbind m k) h = rbind m (\<lambda>x. rbind (k x) h)"
  by (cases m) auto

lemma rassert_eq_Ok [simp]: "rassert m b = Inr u \<longleftrightarrow> b"
  by (simp add: rassert_def)

lemma rassert_True [simp]: "rassert m True = Inr ()"
  by (simp add: rassert_def)

lemma rassert_eq_Inl [simp]: "rassert m b = Inl f \<longleftrightarrow> \<not> b \<and> f = Panic m"
  by (auto simp: rassert_def)

lemma ok_or_eq_Ok [simp]: "ok_or e x = Inr v \<longleftrightarrow> x = Some v"
  by (cases x) (auto simp: ok_or_def)

lemma ok_or_eq_Inl [simp]: "ok_or e x = Inl f \<longleftrightarrow> x = None \<and> f = Err e"
  by (cases x) (auto simp: ok_or_def)

lemma expect_eq_Ok [simp]: "expect m x = Inr v \<longleftrightarrow> x = Some v"
  by (cases x) (auto simp: expect_def)

lemma expect_eq_Inl [simp]: "expect m x = Inl f \<longleftrightarrow> x = None \<and> f = Panic m"
  by (cases x) (auto simp: expect_def)

lemma ok_or_simps [simp]: "ok_or e None = Inl (Err e)" "ok_or e (Some v) = Inr v"
  by (simp_all add: ok_or_def)

lemma expect_simps [simp]: "expect m None = Inl (Panic m)" "expect m (Some v) = Inr v"
  by (simp_all add: expect_def)

lemma usize_sub_eq_Ok [simp]: "usize_sub a b = Inr c \<longleftrightarrow> b \<le> a \<and> c = a - b"
  by (auto simp: usize_sub_def)

lemma usize_sub_le [simp]: "b \<le> a \<Longrightarrow> usize_sub a b = Inr (a - b)"
  by (simp add: usize_sub_def)

lemma map_err_simps [simp]:
  "map_err g (Inl (Err e)) = Inl (Err (g e))"
  "map_err g (Inl (Panic p)) = Inl (Panic p)"
  "map_err g (Inr x) = Inr x"
  by (simp_all add: map_err_def)

lemma map_err_eq_Ok [simp]: "map_err g m = Inr x \<longleftrightarrow> m = Inr x"
  by (auto simp: map_err_def split: sum.splits failure.splits)

lemma map_err_eq_Panic [simp]: "map_err g m = Inl (Panic p) \<longleftrightarrow> m = Inl (Panic p)"
  by (auto simp: map_err_def split: sum.splits failure.splits)

lemma rfold_append: "rfold f (xs @ ys) s = rbind (rfold f xs s) (rfold f ys)"
proof (induction xs arbitrary: s)
  case Nil
  then show ?case by simp
next
  case (Cons x xs)
  then show ?case by (cases "f x s") simp_all
qed

text \<open>An invariant that every step of a fallible fold keeps holds for its result.\<close>

lemma rfold_invariant:
  assumes "rfold f xs s = Inr t"
    and "P s"
    and step: "\<And>x a b. x \<in> set xs \<Longrightarrow> P a \<Longrightarrow> f x a = Inr b \<Longrightarrow> P b"
  shows "P t"
proof -
  have "rfold f ys u = Inr t \<Longrightarrow> P u \<Longrightarrow> set ys \<subseteq> set xs \<Longrightarrow> P t" for ys u
  proof (induction ys arbitrary: u)
    case Nil
    then show ?case by simp
  next
    case (Cons y ys)
    from Cons.prems(1) obtain v where v: "f y u = Inr v" "rfold f ys v = Inr t"
      by (auto simp: rbind_eq_Ok_iff)
    have y: "y \<in> set xs" using Cons.prems(3) by simp
    have "P v" by (rule step [OF y Cons.prems(2) v(1)])
    moreover have "set ys \<subseteq> set xs" using Cons.prems(3) by simp
    ultimately show ?case by (rule Cons.IH [OF v(2)])
  qed
  from this [OF assms(1,2)] show ?thesis by simp
qed

section \<open>Operations on a mutable state\<close>

type_synonym ('s, 'e, 'a) sop = "'s \<Rightarrow> ('e, 'a) result \<times> 's"

definition sreturn :: "'a \<Rightarrow> ('s, 'e, 'a) sop" where
  "sreturn v = (\<lambda>s. (Ok v, s))"

definition sfail :: "'e \<Rightarrow> ('s, 'e, 'a) sop" where
  "sfail e = (\<lambda>s. (Error e, s))"

definition spanic :: "string \<Rightarrow> ('s, 'e, 'a) sop" where
  "spanic m = (\<lambda>s. (Panics m, s))"

definition sbind :: "('s, 'e, 'a) sop \<Rightarrow> ('a \<Rightarrow> ('s, 'e, 'b) sop) \<Rightarrow> ('s, 'e, 'b) sop" where
  "sbind m k = (\<lambda>s. case m s of (Inl f, s') \<Rightarrow> (Inl f, s') | (Inr x, s') \<Rightarrow> k x s')"

definition sget :: "('s \<Rightarrow> 'a) \<Rightarrow> ('s, 'e, 'a) sop" where
  "sget f = (\<lambda>s. (Ok (f s), s))"

definition smodify :: "('s \<Rightarrow> 's) \<Rightarrow> ('s, 'e, unit) sop" where
  "smodify f = (\<lambda>s. (Ok (), f s))"

definition slift :: "('e, 'a) result \<Rightarrow> ('s, 'e, 'a) sop" where
  "slift r = (\<lambda>s. (r, s))"

definition sassert :: "string \<Rightarrow> bool \<Rightarrow> ('s, 'e, unit) sop" where
  "sassert m b = (if b then sreturn () else spanic m)"

fun sforeach :: "'a list \<Rightarrow> ('a \<Rightarrow> ('s, 'e, unit) sop) \<Rightarrow> ('s, 'e, unit) sop" where
  "sforeach [] f = sreturn ()"
| "sforeach (x # xs) f = sbind (f x) (\<lambda>_. sforeach xs f)"

lemma sop_simps [simp]:
  "sreturn v s = (Inr v, s)"
  "sfail e s = (Inl (Err e), s)"
  "spanic m s = (Inl (Panic m), s)"
  "sget f s = (Inr (f s), s)"
  "smodify g s = (Inr (), g s)"
  "slift r s = (r, s)"
  by (simp_all add: sreturn_def sfail_def spanic_def sget_def smodify_def slift_def)

lemma sassert_simps [simp]:
  "sassert m True = sreturn ()" "sassert m False = spanic m"
  by (simp_all add: sassert_def)

lemma sbind_apply: "sbind m k s =
    (case m s of (Inl f, s') \<Rightarrow> (Inl f, s') | (Inr x, s') \<Rightarrow> k x s')"
  by (simp add: sbind_def)

lemma sbind_simps [simp]:
  "sbind (sreturn v) k s = k v s"
  "sbind (sfail e) k s = (Inl (Err e), s)"
  "sbind (spanic p) k s = (Inl (Panic p), s)"
  "sbind (sget f) k s = k (f s) s"
  "sbind (smodify g) h s = h () (g s)"
  "sbind (slift (Inr v)) k s = k v s"
  "sbind (slift (Inl flr)) k s = (Inl flr, s)"
  by (simp_all add: sbind_apply)

lemma sbind_sreturn [simp]: "sbind (sreturn v) k = k v" "sbind (Pair (Inr v)) k = k v"
  by (rule ext, simp add: sbind_apply)+

lemma sbind_eq_Ok_iff:
  "sbind m k s = (Inr y, t) \<longleftrightarrow> (\<exists>x s'. m s = (Inr x, s') \<and> k x s' = (Inr y, t))"
  by (auto simp: sbind_apply split: prod.splits sum.splits)

lemma sbind_OkE:
  assumes "sbind m k s = (Inr y, t)"
  obtains x s' where "m s = (Inr x, s')" and "k x s' = (Inr y, t)"
  using assms by (auto simp: sbind_eq_Ok_iff)

lemma sbind_eq_Err_iff:
  "sbind m k s = (Inl f, t) \<longleftrightarrow> m s = (Inl f, t) \<or> (\<exists>x u. m s = (Inr x, u) \<and> k x u = (Inl f, t))"
  by (cases "m s"; cases "fst (m s)") (auto simp: sbind_apply)

lemma sbind_ErrE:
  assumes "sbind m k s = (Inl f, t)"
  obtains "m s = (Inl f, t)" | x u where "m s = (Inr x, u)" "k x u = (Inl f, t)"
  using assms by (auto simp: sbind_eq_Err_iff)

text \<open>A property of every state an operation can leave, whether it succeeds or fails.\<close>

definition preserves :: "('s \<Rightarrow> bool) \<Rightarrow> ('s, 'e, 'a) sop \<Rightarrow> bool" where
  "preserves P m \<longleftrightarrow> (\<forall>s. P s \<longrightarrow> P (snd (m s)))"

named_theorems preserving

lemma preservesI: "(\<And>s. P s \<Longrightarrow> P (snd (m s))) \<Longrightarrow> preserves P m"
  by (simp add: preserves_def)

lemma preservesD: "preserves P m \<Longrightarrow> P s \<Longrightarrow> m s = (r, t) \<Longrightarrow> P t"
  unfolding preserves_def by (metis snd_conv)

lemma preserves_sreturn [preserving]: "preserves P (sreturn v)"
  by (simp add: preserves_def)

lemma preserves_sfail [preserving]: "preserves P (sfail e)"
  by (simp add: preserves_def)

lemma preserves_spanic [preserving]: "preserves P (spanic m)"
  by (simp add: preserves_def)

lemma preserves_sget [preserving]: "preserves P (sget f)"
  by (simp add: preserves_def)

lemma preserves_slift [preserving]: "preserves P (slift r)"
  by (simp add: preserves_def)

lemma preserves_sassert [preserving]: "preserves P (sassert m b)"
  by (simp add: sassert_def preserving)

lemma preserves_sbind [preserving]:
  assumes "preserves P m" and "\<And>x. preserves P (k x)"
  shows "preserves P (sbind m k)"
proof (rule preservesI)
  fix s
  assume "P s"
  obtain r s' where m: "m s = (r, s')" by force
  with assms(1) \<open>P s\<close> have "P s'" by (rule preservesD)
  then show "P (snd (sbind m k s))"
    using assms(2) m by (cases r) (auto simp: sbind_apply preserves_def)
qed

lemma preserves_smodify: "(\<And>s. P s \<Longrightarrow> P (f s)) \<Longrightarrow> preserves P (smodify f)"
  by (simp add: preserves_def)

lemma preserves_sforeach [preserving]:
  "(\<And>x. preserves P (f x)) \<Longrightarrow> preserves P (sforeach xs f)"
  by (induction xs) (auto intro: preserving)

lemma preserves_if [preserving]:
  "preserves P m \<Longrightarrow> preserves P m' \<Longrightarrow> preserves P (if b then m else m')"
  by simp

text \<open>Operations that keep a property of the state and, on a state with that property,
  never panic.\<close>

definition safe :: "('s \<Rightarrow> bool) \<Rightarrow> ('s, 'e, 'a) sop \<Rightarrow> bool" where
  "safe P m \<longleftrightarrow> (\<forall>s. P s \<longrightarrow> P (snd (m s)) \<and> (\<forall>p. fst (m s) \<noteq> Inl (Panic p)))"

named_theorems safety

lemma safeI:
  assumes "\<And>s. P s \<Longrightarrow> P (snd (m s))" and "\<And>s p. P s \<Longrightarrow> fst (m s) \<noteq> Inl (Panic p)"
  shows "safe P m"
  using assms by (simp add: safe_def)

lemma safe_state: "safe P m \<Longrightarrow> P s \<Longrightarrow> m s = (r, t) \<Longrightarrow> P t"
  unfolding safe_def by (metis snd_conv)

lemma safe_no_panic: "safe P m \<Longrightarrow> P s \<Longrightarrow> m s \<noteq> (Inl (Panic p), t)"
  unfolding safe_def by (metis fst_conv)

lemma safe_sreturn [safety]: "safe P (sreturn v)"
  by (simp add: safe_def)

lemma safe_sfail [safety]: "safe P (sfail e)"
  by (simp add: safe_def)

lemma safe_sget [safety]: "safe P (sget f)"
  by (simp add: safe_def)

lemma safe_slift: "(\<And>p. r \<noteq> Inl (Panic p)) \<Longrightarrow> safe P (slift r)"
  by (simp add: safe_def)

lemma safe_if [safety]: "safe P m \<Longrightarrow> safe P m' \<Longrightarrow> safe P (if b then m else m')"
  by simp

lemma safe_sbind [safety]:
  assumes "safe P m" and "\<And>x. safe P (k x)"
  shows "safe P (sbind m k)"
proof (rule safeI)
  fix s
  assume s: "P s"
  obtain r s' where m: "m s = (r, s')" by force
  with assms(1) s have s': "P s'" by (rule safe_state)
  show "P (snd (sbind m k s))"
    using assms(2) m s' by (cases r) (auto simp: sbind_apply safe_def)
  show "fst (sbind m k s) \<noteq> Inl (Panic p)" for p
    using assms m s s' safe_no_panic [OF assms(1) s, of p s']
    by (cases r) (auto simp: sbind_apply safe_def)
qed

section \<open>Lists, maps and words\<close>

lemma last_butlast_append: "xs \<noteq> [] \<Longrightarrow> butlast xs @ [last xs] = xs"
  by simp

lemma sum_list_butlast:
  fixes f :: "'a \<Rightarrow> nat"
  assumes "xs \<noteq> []"
  shows "sum_list (map f xs) = sum_list (map f (butlast xs)) + f (last xs)"
proof -
  have "sum_list (map f (butlast xs @ [last xs])) = sum_list (map f (butlast xs)) + f (last xs)"
    by simp
  with assms show ?thesis by simp
qed

definition remove_nth :: "nat \<Rightarrow> 'a list \<Rightarrow> 'a list" where
  "remove_nth n xs = take n xs @ drop (Suc n) xs"

lemma remove_nth_mset: "n < length xs \<Longrightarrow> mset xs = add_mset (xs ! n) (mset (remove_nth n xs))"
  by (metis add_mset_add_single append_take_drop_id id_take_nth_drop mset.simps(2) mset_append
      remove_nth_def union_mset_add_mset_right)

lemma length_remove_nth [simp]: "n < length xs \<Longrightarrow> length (remove_nth n xs) = length xs - 1"
  by (simp add: remove_nth_def)

lemma set_remove_nth_subset: "set (remove_nth n xs) \<subseteq> set xs"
  by (auto simp: remove_nth_def dest: in_set_takeD in_set_dropD)

lemma sum_list_map_mset:
  fixes f :: "'a \<Rightarrow> 'b::comm_monoid_add"
  shows "sum_list (map f xs) = (\<Sum>x\<in>#mset xs. f x)"
  by (metis mset_map sum_mset_sum_list)

lemma sum_list_remove_nth:
  fixes f :: "'a \<Rightarrow> 'b::comm_monoid_add"
  assumes "n < length xs"
  shows "sum_list (map f xs) = f (xs ! n) + sum_list (map f (remove_nth n xs))"
  by (simp add: sum_list_map_mset remove_nth_mset [OF assms])

text \<open>The position of the first element that satisfies a predicate, as \<open>Iterator::position\<close>.\<close>

fun position :: "('a \<Rightarrow> bool) \<Rightarrow> 'a list \<Rightarrow> nat option" where
  "position p [] = None"
| "position p (x # xs) = (if p x then Some 0 else map_option Suc (position p xs))"

lemma position_SomeD: "position p xs = Some i \<Longrightarrow> i < length xs \<and> p (xs ! i)"
  by (induction xs arbitrary: i) (auto split: if_splits)

lemma position_None: "position p xs = None \<longleftrightarrow> (\<forall>x\<in>set xs. \<not> p x)"
  by (induction xs) auto

lemma find_as_position: "find p xs = map_option (\<lambda>i. xs ! i) (position p xs)"
  by (induction xs) (auto simp: option.map_comp o_def)

lemma unat_u8_less [simp]: "unat (b :: u8) < 256"
  by (rule unsigned_less [where 'b = 8, simplified])

lemma unat_u64_less: "unat (w :: u64) < 2 ^ 64"
  using unsigned_less [where 'b = 64 and 'a = nat, of w] by simp

lemma word_ge_1 [simp]: "(1 :: 'a::len word) \<le> w \<longleftrightarrow> w \<noteq> 0"
proof -
  have "1 \<le> w \<longleftrightarrow> 1 \<le> unat w" by (simp add: word_le_nat_alt)
  then show ?thesis by (simp add: Suc_le_eq unat_gt_0)
qed

lemma unat_sum_list_le:
  fixes xs :: "'a::len word list"
  assumes "sum_list (map unat xs) < 2 ^ LENGTH('a)"
  shows "unat (sum_list xs) = sum_list (map unat xs)"
  using assms
proof (induction xs)
  case Nil
  then show ?case by simp
next
  case (Cons x xs)
  then have "unat (sum_list xs) = sum_list (map unat xs)" by simp
  with Cons.prems show ?case
    by (simp add: unat_word_ariths)
qed

section \<open>Totals of quantities over all addresses\<close>

definition total :: "('a::finite \<Rightarrow> u64) \<Rightarrow> nat" where
  "total f = (\<Sum>a\<in>UNIV. unat (f a))"

lemma total_remove: "total f = unat (f a) + (\<Sum>x\<in>UNIV - {a}. unat (f x))"
  unfolding total_def by (rule sum.remove) simp_all

lemma total_upd: "total (f(a := v)) + unat (f a) = total f + unat v"
proof -
  have "(\<Sum>x\<in>UNIV - {a}. unat ((f(a := v)) x)) = (\<Sum>x\<in>UNIV - {a}. unat (f x))"
    by (rule sum.cong) auto
  then have "total (f(a := v)) = unat v + (\<Sum>x\<in>UNIV - {a}. unat (f x))"
    using total_remove [of "f(a := v)" a] by simp
  with total_remove [of f a] show ?thesis by simp
qed

lemma total_zero [simp]: "total (\<lambda>_. 0) = 0"
  by (simp add: total_def)

lemma total_single: "total ((\<lambda>_. 0)(a := v)) = unat v"
  using total_upd [of "\<lambda>_. 0" a v] by simp

lemma total_ge: "unat (f a) \<le> total f"
  unfolding total_def by (rule member_le_sum) simp_all

lemma total_add:
  assumes "total f + unat q < 2 ^ 64"
  shows "total (f(a := f a + q)) = total f + unat q"
proof -
  have "unat (f a) + unat q < 2 ^ 64" using assms total_ge [of f a] by linarith
  then have "unat (f a + q) = unat (f a) + unat q" by (simp add: unat_word_ariths)
  with total_upd [of f a "f a + q"] show ?thesis by simp
qed

lemma total_sub:
  assumes "q \<le> f a"
  shows "total (f(a := f a - q)) + unat q = total f"
proof -
  have "unat (f a - q) = unat (f a) - unat q" "unat q \<le> unat (f a)"
    using assms by (simp_all add: unat_sub_if' word_le_nat_alt)
  with total_upd [of f a "f a - q"] show ?thesis by simp
qed

section \<open>Big-endian bytes\<close>

text \<open>\<open>to_vec\<close>/\<open>from_slice\<close> of the fixed-size hashes and \<open>u64::from_be_bytes\<close>.\<close>

definition be_bytes :: "'a::len word \<Rightarrow> bytes" where
  "be_bytes w = map (\<lambda>i. ucast (drop_bit (8 * i) w)) (rev [0..<LENGTH('a) div 8])"

definition of_be_bytes :: "bytes \<Rightarrow> 'a::len word" where
  "of_be_bytes bs = foldl (\<lambda>acc b. push_bit 8 acc OR ucast b) 0 bs"

lemma length_be_bytes [simp]: "length (be_bytes (w :: 'a::len word)) = LENGTH('a) div 8"
  by (simp add: be_bytes_def)

lemma of_be_bytes_snoc:
  "(of_be_bytes (bs @ [b]) :: 'a::len word) = push_bit 8 (of_be_bytes bs) OR ucast b"
  by (simp add: of_be_bytes_def)

lemma bit_of_be_bytes:
  "bit (of_be_bytes bs :: 'a::len word) i \<longleftrightarrow>
     i < LENGTH('a) \<and> i < 8 * length bs \<and> bit (rev bs ! (i div 8)) (i mod 8)"
proof (induction bs arbitrary: i rule: rev_induct)
  case Nil
  then show ?case by (simp add: of_be_bytes_def)
next
  case (snoc b bs)
  show ?case
  proof (cases "i < 8")
    case True
    then show ?thesis by (simp add: of_be_bytes_snoc bit_or_iff bit_push_bit_iff bit_ucast_iff)
  next
    case False
    then have i: "i div 8 = Suc ((i - 8) div 8)" "i mod 8 = (i - 8) mod 8"
      by (simp_all add: le_div_geq le_mod_geq)
    have "\<not> bit b i" using False bit_imp_le_length [of b i] by auto
    with False i show ?thesis
      by (auto simp: of_be_bytes_snoc bit_or_iff bit_push_bit_iff bit_ucast_iff snoc.IH)
  qed
qed

lemma of_be_bytes_be_bytes:
  fixes w :: "'a::len word"
  assumes "8 dvd LENGTH('a)"
  shows "of_be_bytes (be_bytes w) = w"
proof (rule bit_word_eqI)
  fix i
  assume i: "i < LENGTH('a)"
  with assms have "i div 8 < LENGTH('a) div 8" by (auto elim!: dvdE)
  with i assms show "bit (of_be_bytes (be_bytes w) :: 'a word) i = bit w i"
    by (simp add: bit_of_be_bytes be_bytes_def rev_map bit_ucast_iff bit_drop_bit_eq)
qed

lemma of_be_bytes_zeros: "(of_be_bytes (replicate n 0 @ bs) :: 'a::len word) = of_be_bytes bs"
proof -
  have "foldl (\<lambda>acc b. push_bit 8 acc OR ucast b) (0 :: 'a word) (replicate n (0 :: u8)) = 0"
    by (induction n) simp_all
  then show ?thesis by (simp add: of_be_bytes_def)
qed

end
