(* ===== verification/Tx_Types.thy ===== *)
theory Tx_Types
  imports CC_Prelude
begin

text \<open>
  The transaction data of \<open>types/src/transaction/\<close> (out points, inputs, outputs, orders,
  actions, shard transactions), the signing tag of \<open>types/src/util/tag.rs\<close> and the
  functions of \<open>shard.rs\<close> that work on them: which shards a transaction touches, which
  output indices it has, and the partial hashing that signatures are made over.

  Structs are records whose field names carry a prefix for the struct (Isabelle's field
  selectors are global); enums are datatypes with the fields in the order of the source.
  \<open>usize\<close> values are \<open>nat\<close>, \<open>u64\<close> quantities are \<open>64 word\<close>. The hash functions are
  external code: hashing an RLP-encoded transaction or order is a parameter.
\<close>

section \<open>Data\<close>

record asset_out_point =
  op_tracker :: h256
  op_index :: nat
  op_asset_type :: h160
  op_shard_id :: shard_id
  op_quantity :: u64

datatype timelock = Block u64 | BlockAge u64 | Time u64 | TimeAge u64

record asset_transfer_input =
  in_prev_out :: asset_out_point
  in_timelock :: "timelock option"
  in_lock_script :: bytes
  in_unlock_script :: bytes

record asset_transfer_output =
  out_lock_script_hash :: h160
  out_parameters :: "bytes list"
  out_asset_type :: h160
  out_shard_id :: shard_id
  out_quantity :: u64

record asset_mint_output =
  mo_lock_script_hash :: h160
  mo_parameters :: "bytes list"
  mo_supply :: u64

record asset_wrap_ccc_output =
  wo_lock_script_hash :: h160
  wo_parameters :: "bytes list"
  wo_quantity :: u64

record asset_order =
  asset_type_from :: h160
  asset_type_to :: h160
  asset_type_fee :: h160
  shard_id_from :: shard_id
  shard_id_to :: shard_id
  shard_id_fee :: shard_id
  asset_quantity_from :: u64
  asset_quantity_to :: u64
  asset_quantity_fee :: u64
  origin_outputs :: "asset_out_point list"
  order_expiration :: u64
  lock_script_hash_from :: h160
  parameters_from :: "bytes list"
  lock_script_hash_fee :: h160
  parameters_fee :: "bytes list"

record order_on_transfer =
  ot_order :: asset_order
  spent_quantity :: u64
  input_from_indices :: "nat list"
  input_fee_indices :: "nat list"
  output_from_indices :: "nat list"
  output_to_indices :: "nat list"
  output_owned_fee_indices :: "nat list"
  output_transferred_fee_indices :: "nat list"

text \<open>
  The fields of each constructor, in the order of the source:
  \<^item> \<open>MintAsset\<close>: network id, shard id, metadata, approver, registrar, allowed script
    hashes, output, approvals;
  \<^item> \<open>TransferAsset\<close>: network id, burns, inputs, outputs, orders, metadata, approvals,
    expiration;
  \<^item> \<open>ChangeAssetScheme\<close>: network id, shard id, asset type, seq, metadata, approver,
    registrar, allowed script hashes, approvals;
  \<^item> \<open>IncreaseAssetSupply\<close>: network id, shard id, asset type, seq, output, approvals;
  \<^item> \<open>ComposeAsset\<close>: network id, shard id, metadata, approver, registrar, allowed script
    hashes, inputs, output, approvals;
  \<^item> \<open>DecomposeAsset\<close>: network id, input, outputs, approvals;
  \<^item> \<open>UnwrapCCC\<close>: network id, burn, receiver; \<open>Pay\<close>: receiver, quantity;
  \<^item> \<open>WrapCCC\<close>: shard id, lock script hash, parameters, quantity, payer;
  \<^item> \<open>Custom\<close>: handler id, bytes; \<open>Store\<close>: content, certifier, signature;
    \<open>Remove\<close>: hash, signature.
  Strings are kept as their UTF-8 bytes, since the code only measures and stores them.
\<close>

datatype action =
    MintAsset network_id shard_id bytes "address option" "address option" "h160 list"
      asset_mint_output "signature list"
  | TransferAsset network_id "asset_transfer_input list" "asset_transfer_input list"
      "asset_transfer_output list" "order_on_transfer list" bytes "signature list" "u64 option"
  | ChangeAssetScheme network_id shard_id h160 nat bytes "address option" "address option"
      "h160 list" "signature list"
  | IncreaseAssetSupply network_id shard_id h160 nat asset_mint_output "signature list"
  | ComposeAsset network_id shard_id bytes "address option" "address option" "h160 list"
      "asset_transfer_input list" asset_mint_output "signature list"
  | DecomposeAsset network_id asset_transfer_input "asset_transfer_output list" "signature list"
  | UnwrapCCC network_id asset_transfer_input address
  | Pay address u64
  | SetRegularKey public
  | CreateShard "address list"
  | SetShardOwners shard_id "address list"
  | SetShardUsers shard_id "address list"
  | WrapCCC shard_id h160 "bytes list" u64 address
  | Custom u64 bytes
  | Store bytes address signature
  | Remove h256 signature

datatype shard_transaction =
    ShardMintAsset network_id shard_id bytes "address option" "address option" "h160 list"
      asset_mint_output
  | ShardTransferAsset network_id "asset_transfer_input list" "asset_transfer_input list"
      "asset_transfer_output list" "order_on_transfer list"
  | ShardChangeAssetScheme network_id shard_id h160 nat bytes "address option" "address option"
      "h160 list"
  | ShardIncreaseAssetSupply network_id shard_id h160 nat asset_mint_output
  | ShardComposeAsset network_id shard_id bytes "address option" "address option" "h160 list"
      "asset_transfer_input list" asset_mint_output
  | ShardDecomposeAsset network_id asset_transfer_input "asset_transfer_output list"
  | ShardUnwrapCCC network_id asset_transfer_input address
  | ShardWrapCCC network_id shard_id h256 asset_wrap_ccc_output

record transaction =
  tx_seq :: u64
  tx_fee :: u64
  tx_network_id :: network_id
  tx_action :: action

section \<open>From actions to shard transactions\<close>

fun asset_transaction :: "action \<Rightarrow> shard_transaction option" where
  "asset_transaction (MintAsset n sid metadata approver registrar allowed output _) =
     Some (ShardMintAsset n sid metadata approver registrar allowed output)"
| "asset_transaction (TransferAsset n burns inputs outputs orders _ _ _) =
     Some (ShardTransferAsset n burns inputs outputs orders)"
| "asset_transaction (ChangeAssetScheme n sid ty seq metadata approver registrar allowed _) =
     Some (ShardChangeAssetScheme n sid ty seq metadata approver registrar allowed)"
| "asset_transaction (IncreaseAssetSupply n sid ty seq output _) =
     Some (ShardIncreaseAssetSupply n sid ty seq output)"
| "asset_transaction (ComposeAsset n sid metadata approver registrar allowed inputs output _) =
     Some (ShardComposeAsset n sid metadata approver registrar allowed inputs output)"
| "asset_transaction (DecomposeAsset n input outputs _) =
     Some (ShardDecomposeAsset n input outputs)"
| "asset_transaction (UnwrapCCC n burn receiver) = Some (ShardUnwrapCCC n burn receiver)"
| "asset_transaction _ = None"

text \<open>\<open>blake_rlp\<close> stands for \<open>blake256(self.rlp_bytes())\<close>.\<close>

fun shard_tracker :: "(shard_transaction \<Rightarrow> h256) \<Rightarrow> shard_transaction \<Rightarrow> h256" where
  "shard_tracker blake_rlp (ShardWrapCCC _ _ tx_hash _) = tx_hash"
| "shard_tracker blake_rlp t = blake_rlp t"

definition is_master_key_allowed :: "transaction \<Rightarrow> bool" where
  "is_master_key_allowed t = (case tx_action t of SetRegularKey _ \<Rightarrow> True | _ \<Rightarrow> False)"

section \<open>Views of a shard transaction\<close>

fun shard_network_id :: "shard_transaction \<Rightarrow> network_id" where
  "shard_network_id (ShardTransferAsset n _ _ _ _) = n"
| "shard_network_id (ShardMintAsset n _ _ _ _ _ _) = n"
| "shard_network_id (ShardIncreaseAssetSupply n _ _ _ _) = n"
| "shard_network_id (ShardComposeAsset n _ _ _ _ _ _ _) = n"
| "shard_network_id (ShardChangeAssetScheme n _ _ _ _ _ _ _) = n"
| "shard_network_id (ShardDecomposeAsset n _ _) = n"
| "shard_network_id (ShardUnwrapCCC n _ _) = n"
| "shard_network_id (ShardWrapCCC n _ _ _) = n"

abbreviation input_shard :: "asset_transfer_input \<Rightarrow> shard_id" where
  "input_shard i \<equiv> op_shard_id (in_prev_out i)"

text \<open>\<open>sort_unstable\<close> followed by \<open>dedup\<close>: equal shard ids are indistinguishable, so
  the unstable sort is the stable one.\<close>

definition sort_dedup :: "shard_id list \<Rightarrow> shard_id list" where
  "sort_dedup xs = remdups_adj (sort xs)"

fun related_shards :: "shard_transaction \<Rightarrow> shard_id list" where
  "related_shards (ShardTransferAsset _ burns inputs _ _) =
     sort_dedup (map input_shard burns @ map input_shard inputs)"
| "related_shards (ShardMintAsset _ sid _ _ _ _ _) = [sid]"
| "related_shards (ShardIncreaseAssetSupply _ sid _ _ _) = [sid]"
| "related_shards (ShardChangeAssetScheme _ sid _ _ _ _ _ _) = [sid]"
| "related_shards (ShardComposeAsset _ sid _ _ _ _ inputs _) =
     sort_dedup (map input_shard inputs @ [sid])"
| "related_shards (ShardDecomposeAsset _ _ outputs) = sort_dedup (map out_shard_id outputs)"
| "related_shards (ShardUnwrapCCC _ burn _) = [input_shard burn]"
| "related_shards (ShardWrapCCC _ sid _ _) = [sid]"

fun is_valid_output_index :: "shard_transaction \<Rightarrow> nat \<Rightarrow> bool" where
  "is_valid_output_index (ShardMintAsset _ _ _ _ _ _ _) index = (index = 0)"
| "is_valid_output_index (ShardTransferAsset _ _ _ outputs _) index = (index < length outputs)"
| "is_valid_output_index (ShardIncreaseAssetSupply _ _ _ _ _) index = (index = 0)"
| "is_valid_output_index (ShardChangeAssetScheme _ _ _ _ _ _ _ _) index = False"
| "is_valid_output_index (ShardComposeAsset _ _ _ _ _ _ _ _) index = (index = 0)"
| "is_valid_output_index (ShardDecomposeAsset _ _ outputs) index = (index < length outputs)"
| "is_valid_output_index (ShardUnwrapCCC _ _ _) index = False"
| "is_valid_output_index (ShardWrapCCC _ _ _ _) index = (index = 0)"

text \<open>\<open>outputs[index]\<close> panics out of range, and two arms are \<open>unreachable!\<close>.\<close>

definition index_output :: "asset_transfer_output list \<Rightarrow> nat \<Rightarrow> ('e, asset_transfer_output) result" where
  "index_output outputs i =
     (if i < length outputs then Ok (outputs ! i) else Panics ''index out of bounds'')"

fun is_valid_shard_id_index :: "shard_transaction \<Rightarrow> nat \<Rightarrow> shard_id \<Rightarrow> ('e, bool) result" where
  "is_valid_shard_id_index t index sid =
     (if \<not> is_valid_output_index t index then Ok False
      else case t of
        ShardMintAsset _ s _ _ _ _ _ \<Rightarrow> Ok (sid = s)
      | ShardTransferAsset _ _ _ outputs _ \<Rightarrow>
          rbind (index_output outputs index) (\<lambda>out. Ok (sid = out_shard_id out))
      | ShardIncreaseAssetSupply _ s _ _ _ \<Rightarrow> Ok (sid = s)
      | ShardChangeAssetScheme _ _ _ _ _ _ _ _ \<Rightarrow> Panics ''AssetSchemeChange has no valid index''
      | ShardComposeAsset _ s _ _ _ _ _ _ \<Rightarrow> Ok (sid = s)
      | ShardDecomposeAsset _ _ outputs \<Rightarrow>
          rbind (index_output outputs index) (\<lambda>out. Ok (sid = out_shard_id out))
      | ShardUnwrapCCC _ _ _ \<Rightarrow> Panics ''UnwrapCCC has no valid index''
      | ShardWrapCCC _ s _ _ \<Rightarrow> Ok (sid = s))"

section \<open>Signing tags\<close>

datatype hashing_error = InvalidFilter

record tag =
  sign_all_inputs :: bool
  sign_all_outputs :: bool
  filter_len :: nat
  tag_filter :: bytes
  bitvec :: bytes

definition tag_try_new :: "bytes \<Rightarrow> (hashing_error, tag) result" where
  "tag_try_new bv =
     (if bv = [] then Error InvalidFilter
      else let t = last bv; rest = butlast bv; len = unat (drop_bit 2 t) in
        if length rest \<noteq> len then Error InvalidFilter
        else if length rest \<noteq> 0 \<and> rest ! 0 = 0 then Error InvalidFilter
        else Ok \<lparr>sign_all_inputs = (t AND 1 = 1), sign_all_outputs = (drop_bit 1 t AND 1 = 1),
                 filter_len = len, tag_filter = rest, bitvec = bv\<rparr>)"

section \<open>Partial hashing\<close>

text \<open>
  \<open>apply_bitmask_to_output\<close>: the mask is consumed from its last byte, each byte from its
  lowest bit; \<open>bitmask_bits\<close> is the inner loop over one byte (\<open>n\<close> bits left, the next one
  for output \<open>pos\<close>), whose early return is the flag \<open>True\<close>.
\<close>

fun bitmask_bits :: "asset_transfer_output list \<Rightarrow> nat \<Rightarrow> nat \<Rightarrow> u8 \<Rightarrow> asset_transfer_output list \<Rightarrow>
    (hashing_error, bool \<times> asset_transfer_output list) result" where
  "bitmask_bits outputs pos 0 flt res = Ok (False, res)"
| "bitmask_bits outputs pos (Suc n) flt res =
     (if pos = length outputs then Ok (True, res)
      else if flt AND 1 = 1 then
        rbind (index_output outputs pos) (\<lambda>out.
          bitmask_bits outputs (Suc pos) n (drop_bit 1 flt) (res @ [out]))
      else bitmask_bits outputs (Suc pos) n (drop_bit 1 flt) res)"

fun bitmask_bytes :: "bytes \<Rightarrow> asset_transfer_output list \<Rightarrow> nat \<Rightarrow> asset_transfer_output list \<Rightarrow>
    (hashing_error, asset_transfer_output list) result" where
  "bitmask_bytes [] outputs index res = Ok res"
| "bitmask_bytes (e # es) outputs index res =
     rbind (bitmask_bits outputs (8 * index) 8 e res) (\<lambda>(returned, res').
       if returned then Ok res' else bitmask_bytes es outputs (Suc index) res')"

definition apply_bitmask_to_output :: "bytes \<Rightarrow> asset_transfer_output list \<Rightarrow>
    asset_transfer_output list \<Rightarrow> (hashing_error, asset_transfer_output list) result" where
  "apply_bitmask_to_output bitmask outputs res = bitmask_bytes (rev bitmask) outputs 0 res"

definition strip_scripts :: "asset_transfer_input \<Rightarrow> asset_transfer_input" where
  "strip_scripts i = \<lparr>in_prev_out = in_prev_out i, in_timelock = in_timelock i,
     in_lock_script = [], in_unlock_script = []\<rparr>"

definition apply_input_scheme :: "asset_transfer_input list \<Rightarrow> bool \<Rightarrow> bool \<Rightarrow>
    asset_transfer_input \<Rightarrow> asset_transfer_input list" where
  "apply_input_scheme inputs is_sign_all is_sign_single cur =
     (if is_sign_all then map strip_scripts inputs
      else if is_sign_single then [strip_scripts cur] else [])"

text \<open>
  \<open>hash_with_tag t tx\<close> stands for \<open>blake256_with_key(tx.rlp_bytes(), blake128(t))\<close>, the keyed
  hash of the filtered transaction under the tag's bytes.
\<close>

definition shard_hash_partially :: "(bytes \<Rightarrow> shard_transaction \<Rightarrow> h256) \<Rightarrow> shard_transaction \<Rightarrow>
    tag \<Rightarrow> asset_transfer_input \<Rightarrow> bool \<Rightarrow> (hashing_error, h256) result" where
  "shard_hash_partially hash_with_tag t tg cur is_burn = (case t of
     ShardTransferAsset n burns inputs outputs orders \<Rightarrow>
       if orders \<noteq> [] \<and> (\<not> sign_all_inputs tg \<or> \<not> sign_all_outputs tg)
       then Error InvalidFilter
       else rbind (if sign_all_outputs tg then Ok outputs
                   else apply_bitmask_to_output (tag_filter tg) outputs []) (\<lambda>new_outputs.
         Ok (hash_with_tag (bitvec tg)
           (ShardTransferAsset n
             (apply_input_scheme burns (sign_all_inputs tg) is_burn cur)
             (apply_input_scheme inputs (sign_all_inputs tg) (\<not> is_burn) cur)
             new_outputs orders)))
   | ShardComposeAsset n sid metadata approver registrar allowed inputs output \<Rightarrow>
       if filter_len tg \<noteq> 0 then Error InvalidFilter
       else Ok (hash_with_tag (bitvec tg)
         (ShardComposeAsset n sid metadata approver registrar allowed
           (apply_input_scheme inputs (sign_all_inputs tg) (\<not> is_burn) cur)
           (if sign_all_outputs tg then output
            else \<lparr>mo_lock_script_hash = 0, mo_parameters = [], mo_supply = 0\<rparr>)))
   | ShardDecomposeAsset n input outputs \<Rightarrow>
       rbind (if sign_all_outputs tg then Ok outputs
              else apply_bitmask_to_output (tag_filter tg) outputs []) (\<lambda>new_outputs.
         Ok (hash_with_tag (bitvec tg)
           (ShardDecomposeAsset n (strip_scripts input) new_outputs)))
   | ShardUnwrapCCC n burn receiver \<Rightarrow>
       if \<not> sign_all_inputs tg \<or> \<not> sign_all_outputs tg then Error InvalidFilter
       else Ok (hash_with_tag (bitvec tg) (ShardUnwrapCCC n (strip_scripts burn) receiver))
   | _ \<Rightarrow> Panics ''unreachable'')"

definition order_hash_partially :: "(asset_order \<Rightarrow> h256) \<Rightarrow> asset_order \<Rightarrow> tag \<Rightarrow>
    asset_transfer_input \<Rightarrow> bool \<Rightarrow> (hashing_error, h256) result" where
  "order_hash_partially order_hash ord tg cur is_burn =
     rbind (rassert ''tag.sign_all_inputs'' (sign_all_inputs tg)) (\<lambda>_.
     rbind (rassert ''tag.sign_all_outputs'' (sign_all_outputs tg)) (\<lambda>_.
     rbind (rassert ''!is_burn'' (\<not> is_burn)) (\<lambda>_.
     Ok (order_hash ord))))"

section \<open>Properties\<close>

subsection \<open>Output masks\<close>

text \<open>The mask read as one big-endian number: bit \<open>i\<close> selects output \<open>i\<close>.\<close>

definition mask_bit :: "bytes \<Rightarrow> nat \<Rightarrow> bool" where
  "mask_bit bitmask i \<longleftrightarrow> i < 8 * length bitmask \<and> bit (rev bitmask ! (i div 8)) (i mod 8)"

definition selected_outputs :: "bytes \<Rightarrow> asset_transfer_output list \<Rightarrow> asset_transfer_output list" where
  "selected_outputs bitmask outputs =
     map (nth outputs) (filter (mask_bit bitmask) [0..<length outputs])"

lemma bitmask_bits_spec:
  assumes "pos \<le> length outputs" "n \<le> 8"
  shows "bitmask_bits outputs pos n flt res =
    Ok (pos + n > length outputs,
        res @ map (nth outputs)
          (filter (\<lambda>i. bit flt (i - pos)) [pos..<min (pos + n) (length outputs)]))"
  using assms
proof (induction n arbitrary: pos flt res)
  case 0
  then show ?case by simp
next
  case (Suc n)
  show ?case
  proof (cases "pos = length outputs")
    case True
    then show ?thesis by simp
  next
    case False
    with Suc.prems have lt: "pos < length outputs" by simp
    have shift: "filter (\<lambda>i. bit (drop_bit (Suc 0) flt) (i - Suc pos)) [Suc pos..<m]
        = filter (\<lambda>i. bit flt (i - pos)) [Suc pos..<m]" for m
      by (rule filter_cong) (auto simp: bit_drop_bit_eq Suc_diff_Suc)
    have low: "flt AND 1 = 1 \<longleftrightarrow> bit flt 0"
      by (simp add: and_one_eq bit_0 odd_iff_mod_2_eq_one)
    have upt: "[pos..<min (Suc (pos + n)) (length outputs)]
        = pos # [Suc pos..<min (Suc (pos + n)) (length outputs)]"
      using lt by (simp add: upt_conv_Cons)
    show ?thesis
      using Suc.IH [of "Suc pos"] lt Suc.prems
      by (simp add: low index_output_def shift upt del: upt_Suc)
  qed
qed

lemma bitmask_bytes_spec:
  assumes "8 * index \<le> length outputs"
  shows "bitmask_bytes es outputs index res =
    Ok (res @ map (nth outputs)
      (filter (\<lambda>i. bit (es ! (i div 8 - index)) (i mod 8))
        [8 * index..<min (8 * (index + length es)) (length outputs)]))"
  using assms
proof (induction es arbitrary: index res)
  case Nil
  then show ?case by simp
next
  case (Cons e es)
  let ?len = "length outputs"
  let ?P = "\<lambda>i. bit ((e # es) ! (i div 8 - index)) (i mod 8)"
  have here: "filter (\<lambda>i. bit e (i - 8 * index)) [8 * index..<min (8 * index + 8) ?len]
      = filter ?P [8 * index..<min (8 * index + 8) ?len]"
  proof (rule filter_cong [OF refl])
    fix i
    assume "i \<in> set [8 * index..<min (8 * index + 8) ?len]"
    then have "i div 8 = index" by auto
    moreover from this have "i mod 8 = i - 8 * index"
      by (simp add: minus_div_mult_eq_mod [symmetric] mult.commute)
    ultimately show "bit e (i - 8 * index) = ?P i" by simp
  qed
  show ?case
  proof (cases "8 * index + 8 > ?len")
    case True
    then have "min (8 * (index + length (e # es))) ?len = min (8 * index + 8) ?len" by simp
    with True Cons.prems here show ?thesis by (simp add: bitmask_bits_spec)
  next
    case False
    let ?m = "min (8 * (Suc index + length es)) ?len"
    have rest: "filter (\<lambda>i. bit (es ! (i div 8 - Suc index)) (i mod 8)) [8 * Suc index..<?m]
        = filter ?P [8 * Suc index..<?m]"
    proof (rule filter_cong [OF refl])
      fix i
      assume "i \<in> set [8 * Suc index..<?m]"
      then have "Suc index \<le> i div 8" by auto
      then have "i div 8 - index = Suc (i div 8 - Suc index)" by simp
      then show "bit (es ! (i div 8 - Suc index)) (i mod 8) = ?P i" by simp
    qed
    have split: "[8 * index..<?m] = [8 * index..<8 * index + 8] @ [8 * Suc index..<?m]"
      using False upt_add_eq_append [of "8 * index" "8 * index + 8" "?m - (8 * index + 8)"]
      by (simp add: add.commute)
    have "bitmask_bytes (e # es) outputs index res =
        bitmask_bytes es outputs (Suc index) (res @ map (nth outputs)
          (filter ?P [8 * index..<8 * index + 8]))"
      using False here Cons.prems by (simp add: bitmask_bits_spec min_absorb1)
    also have "\<dots> = Ok (res @ map (nth outputs) (filter ?P [8 * index..<?m]))"
      using Cons.IH [of "Suc index"] False by (simp only: rest split) simp
    finally show ?thesis by simp
  qed
qed

lemma filter_upt_bound: "filter (\<lambda>i. i < b \<and> P i) [0..<n] = filter P [0..<min b n]"
proof (cases "b \<le> n")
  case True
  then have "[0..<n] = [0..<b] @ [b..<n]" by (metis le_add_diff_inverse upt_add_eq_append zero_le)
  moreover have "filter (\<lambda>i. i < b \<and> P i) [b..<n] = []" by (auto simp: filter_empty_conv)
  moreover have "filter (\<lambda>i. i < b \<and> P i) [0..<b] = filter P [0..<b]" by (rule filter_cong) auto
  ultimately show ?thesis using True by (simp add: min_absorb1)
next
  case False
  then show ?thesis by (auto intro!: filter_cong simp: min_absorb2)
qed

lemma apply_bitmask_spec:
  "apply_bitmask_to_output bitmask outputs res = Ok (res @ selected_outputs bitmask outputs)"
  unfolding apply_bitmask_to_output_def selected_outputs_def mask_bit_def
  by (simp add: bitmask_bytes_spec filter_upt_bound [where b = "8 * length bitmask"])

subsection \<open>Related shards\<close>

lemma set_sort_dedup [simp]: "set (sort_dedup xs) = set xs"
  by (simp add: sort_dedup_def)

lemma sorted_sort_dedup [simp]: "sorted (sort_dedup xs)"
  by (simp add: sort_dedup_def sorted_remdups_adj)

lemma sorted_distinct_remdups_adj: "sorted xs \<Longrightarrow> distinct (remdups_adj xs)"
  by (induction xs rule: remdups_adj.induct) auto

lemma distinct_sort_dedup [simp]: "distinct (sort_dedup xs)"
  by (simp add: sort_dedup_def sorted_distinct_remdups_adj)

lemma related_shards_distinct: "distinct (related_shards t) \<and> sorted (related_shards t)"
  by (cases t) simp_all

subsection \<open>Output indices\<close>

lemma is_valid_shard_id_index_no_panic: "is_valid_shard_id_index t index sid \<noteq> Panics m"
  by (cases t) (auto simp: index_output_def)

subsection \<open>Tags\<close>

lemma tag_try_new_bitvec: "tag_try_new bv = Ok tg \<Longrightarrow> bitvec tg = bv"
  by (auto simp: tag_try_new_def Let_def split: if_splits)

lemma tag_try_new_no_panic [simp]: "tag_try_new bv \<noteq> Panics m"
  by (auto simp: tag_try_new_def Let_def)

text \<open>A transaction that spends assets is never hashed into the \<open>unreachable!\<close> arm.\<close>

fun spends_assets :: "shard_transaction \<Rightarrow> bool" where
  "spends_assets (ShardTransferAsset _ _ _ _ _) = True"
| "spends_assets (ShardComposeAsset _ _ _ _ _ _ _ _) = True"
| "spends_assets (ShardDecomposeAsset _ _ _) = True"
| "spends_assets (ShardUnwrapCCC _ _ _) = True"
| "spends_assets _ = False"

lemma shard_hash_partially_no_panic:
  "spends_assets t \<Longrightarrow> shard_hash_partially h t tg cur is_burn \<noteq> Panics m"
  by (cases t) (auto simp: shard_hash_partially_def apply_bitmask_spec)

end
