(* ===== verification/Script_Code.thy ===== *)
theory Script_Code
  imports CC_Prelude
begin

text \<open>
  The instruction set of the asset lock scripts (\<open>vm/src/instruction.rs\<close>,
  \<open>vm/src/opcode.rs\<close>) and its decoder (\<open>vm/src/decoder.rs\<close>), with a reference encoder
  against which the decoder is shown to be exact: it accepts precisely the byte strings of
  well-formed instruction lists, and each of them has one reading.
  Constructors whose names clash with other constants of the model carry the suffix \<open>I\<close>.
\<close>

section \<open>Instructions\<close>

datatype instruction =
    Nop | Burn | Success | FailI | NotI | EqI
  | Jmp u8 | Jnz u8 | Jz u8
  | Push u8 | Pop | PushB bytes | Dup | Swap | CopyI u8 | DropI u8
  | ChkSig | ChkMultiSig
  | Blake256 | Sha256 | Ripemd160 | Keccak256 | Blake160
  | ChkTimelock u8

fun is_push :: "instruction \<Rightarrow> bool" where
  "is_push (Push _) = True"
| "is_push (PushB _) = True"
| "is_push _ = False"

definition is_valid_unlock_script :: "instruction list \<Rightarrow> bool" where
  "is_valid_unlock_script instrs = list_all is_push instrs"

definition has_expensive_opcodes :: "instruction list \<Rightarrow> bool" where
  "has_expensive_opcodes instrs =
     (length (filter (\<lambda>i. i = ChkSig \<or> i = ChkMultiSig) instrs) \<ge> 6)"

section \<open>Decoder\<close>

datatype decoder_error = ScriptTooShort | InvalidOpCode u8 | InvalidImmediateValue u8

text \<open>\<open>iter.next().ok_or(ScriptTooShort)?\<close>: the next byte and the rest of the iterator.\<close>

definition next_byte :: "bytes \<Rightarrow> (decoder_error, u8 \<times> bytes) result" where
  "next_byte bs = (case bs of [] \<Rightarrow> Error ScriptTooShort | b # rest \<Rightarrow> Ok (b, rest))"

fun read_blob :: "nat \<Rightarrow> bytes \<Rightarrow> bytes \<Rightarrow> (decoder_error, bytes \<times> bytes) result" where
  "read_blob 0 blob bs = Ok (blob, bs)"
| "read_blob (Suc n) blob bs =
     rbind (next_byte bs) (\<lambda>(b, rest). read_blob n (blob @ [b]) rest)"

text \<open>An instruction with one immediate byte.\<close>

definition with_immediate :: "(u8 \<Rightarrow> instruction) \<Rightarrow> bytes \<Rightarrow> (decoder_error, instruction \<times> bytes) result" where
  "with_immediate c bs = rbind (next_byte bs) (\<lambda>(val, rest). Ok (c val, rest))"

text \<open>The arms of the \<open>match\<close> in \<open>decode\<close>, by opcode.\<close>

definition decode_one :: "u8 \<Rightarrow> bytes \<Rightarrow> (decoder_error, instruction \<times> bytes) result" where
  "decode_one b rest =
    (if b = 0x00 then Ok (Nop, rest)
     else if b = 0x01 then Ok (Burn, rest)
     else if b = 0x02 then Ok (Success, rest)
     else if b = 0x03 then Ok (FailI, rest)
     else if b = 0x10 then Ok (NotI, rest)
     else if b = 0x11 then Ok (EqI, rest)
     else if b = 0x20 then with_immediate Jmp rest
     else if b = 0x21 then with_immediate Jnz rest
     else if b = 0x22 then with_immediate Jz rest
     else if b = 0x30 then with_immediate Push rest
     else if b = 0x31 then Ok (Pop, rest)
     else if b = 0x32 then
       rbind (next_byte rest) (\<lambda>(len, rest').
       rbind (read_blob (unat len) [] rest') (\<lambda>(blob, rest''). Ok (PushB blob, rest'')))
     else if b = 0x33 then Ok (Dup, rest)
     else if b = 0x34 then Ok (Swap, rest)
     else if b = 0x35 then with_immediate CopyI rest
     else if b = 0x36 then with_immediate DropI rest
     else if b = 0x80 then Ok (ChkSig, rest)
     else if b = 0x81 then Ok (ChkMultiSig, rest)
     else if b = 0x90 then Ok (Blake256, rest)
     else if b = 0x91 then Ok (Sha256, rest)
     else if b = 0x92 then Ok (Ripemd160, rest)
     else if b = 0x93 then Ok (Keccak256, rest)
     else if b = 0x94 then Ok (Blake160, rest)
     else if b = 0xb0 then
       rbind (next_byte rest) (\<lambda>(val, rest').
         if val < 1 \<or> val > 4 then Error (InvalidImmediateValue val)
         else Ok (ChkTimelock val, rest'))
     else Error (InvalidOpCode b))"

lemma next_byte_eq_Ok [simp]: "next_byte bs = Ok (b, rest) \<longleftrightarrow> bs = b # rest"
  by (auto simp: next_byte_def split: list.splits)

lemma next_byte_Cons [simp]: "next_byte (b # rest) = Ok (b, rest)"
  by (simp add: next_byte_def)

lemma read_blob_eq_Ok:
  "read_blob n blob bs = Ok (blob', rest) \<longleftrightarrow>
     (\<exists>xs. length xs = n \<and> blob' = blob @ xs \<and> bs = xs @ rest)"
proof (induction n arbitrary: blob bs)
  case 0
  then show ?case by auto
next
  case (Suc n)
  show ?case
  proof (cases bs)
    case Nil
    then show ?thesis by (auto simp: next_byte_def)
  next
    case (Cons b rest')
    then show ?thesis by (auto simp: Suc.IH length_Suc_conv)
  qed
qed

lemma with_immediate_eq_Ok:
  "with_immediate c bs = Ok (i, rest) \<longleftrightarrow> (\<exists>v. bs = v # rest \<and> i = c v)"
  by (auto simp: with_immediate_def rbind_eq_Ok_iff)

section \<open>The reference encoder\<close>

fun wf_instr :: "instruction \<Rightarrow> bool" where
  "wf_instr (PushB blob) = (length blob < 256)"
| "wf_instr (ChkTimelock v) = (1 \<le> v \<and> v \<le> 4)"
| "wf_instr _ = True"

fun encode_instr :: "instruction \<Rightarrow> bytes" where
  "encode_instr Nop = [0x00]"
| "encode_instr Burn = [0x01]"
| "encode_instr Success = [0x02]"
| "encode_instr FailI = [0x03]"
| "encode_instr NotI = [0x10]"
| "encode_instr EqI = [0x11]"
| "encode_instr (Jmp v) = [0x20, v]"
| "encode_instr (Jnz v) = [0x21, v]"
| "encode_instr (Jz v) = [0x22, v]"
| "encode_instr (Push v) = [0x30, v]"
| "encode_instr Pop = [0x31]"
| "encode_instr (PushB blob) = [0x32, of_nat (length blob)] @ blob"
| "encode_instr Dup = [0x33]"
| "encode_instr Swap = [0x34]"
| "encode_instr (CopyI v) = [0x35, v]"
| "encode_instr (DropI v) = [0x36, v]"
| "encode_instr ChkSig = [0x80]"
| "encode_instr ChkMultiSig = [0x81]"
| "encode_instr Blake256 = [0x90]"
| "encode_instr Sha256 = [0x91]"
| "encode_instr Ripemd160 = [0x92]"
| "encode_instr Keccak256 = [0x93]"
| "encode_instr Blake160 = [0x94]"
| "encode_instr (ChkTimelock v) = [0xb0, v]"

definition encode :: "instruction list \<Rightarrow> bytes" where
  "encode instrs = concat (map encode_instr instrs)"

lemma encode_simps [simp]:
  "encode [] = []" "encode (i # is) = encode_instr i @ encode is"
  by (simp_all add: encode_def)

lemma unat_of_length: "length (xs :: bytes) < 256 \<Longrightarrow> unat (of_nat (length xs) :: u8) = length xs"
  by (simp add: unat_of_nat)

lemma decode_one_sound:
  assumes "decode_one b bs = Ok (i, rest)"
  shows "b # bs = encode_instr i @ rest \<and> wf_instr i"
  using assms unfolding decode_one_def
  by (auto simp: with_immediate_eq_Ok rbind_eq_Ok_iff read_blob_eq_Ok not_less split: if_splits)

lemma decode_one_complete:
  "wf_instr i \<Longrightarrow> decode_one (hd (encode_instr i)) (tl (encode_instr i) @ rest) = Ok (i, rest)"
  by (cases i)
    (auto simp: decode_one_def with_immediate_eq_Ok rbind_eq_Ok_iff read_blob_eq_Ok unat_of_length)

function decode_loop :: "bytes \<Rightarrow> instruction list \<Rightarrow> (decoder_error, instruction list) result" where
  "decode_loop [] res = Ok res"
| "decode_loop (b # bs) res =
     rbind (decode_one b bs) (\<lambda>(i, rest). decode_loop rest (res @ [i]))"
  by pat_completeness auto
termination
proof (relation "measure (length \<circ> fst)")
  fix b bs res x i rest
  assume "decode_one b bs = Ok x" "(i, rest) = x"
  then have "decode_one b bs = Ok (i, rest)" by simp
  then have "b # bs = encode_instr i @ rest" by (simp add: decode_one_sound)
  moreover have "encode_instr i \<noteq> []" by (cases i) simp_all
  ultimately have "length rest < length (b # bs)" by simp
  then show "((rest, res @ [i]), (b # bs, res)) \<in> measure (length \<circ> fst)" by simp
qed simp

definition decode :: "bytes \<Rightarrow> (decoder_error, instruction list) result" where
  "decode bs = decode_loop bs []"

lemma decode_loop_encode:
  "list_all wf_instr is \<Longrightarrow> decode_loop (encode is) res = Ok (res @ is)"
proof (induction "is" arbitrary: res)
  case Nil
  then show ?case by simp
next
  case (Cons i "is")
  have "encode_instr i = hd (encode_instr i) # tl (encode_instr i)" by (cases i) simp_all
  then have eq: "encode (i # is) = hd (encode_instr i) # (tl (encode_instr i) @ encode is)"
    by (metis append_Cons encode_simps(2))
  show ?case
    using Cons decode_one_complete [of i "encode is"]
    by (simp only: eq decode_loop.simps) simp
qed

lemma decode_loop_sound:
  "decode_loop bs res = Ok is \<Longrightarrow>
     \<exists>new. is = res @ new \<and> encode new = bs \<and> list_all wf_instr new"
proof (induction bs res rule: decode_loop.induct)
  case (1 res)
  then show ?case by simp
next
  case (2 b bs res)
  then obtain i rest where one: "decode_one b bs = Ok (i, rest)"
    and loop: "decode_loop rest (res @ [i]) = Ok is"
    by (auto simp: rbind_eq_Ok_iff)
  from 2(1) [OF one refl loop] obtain new where
    "is = res @ i # new" "encode new = rest" "list_all wf_instr new" by auto
  with decode_one_sound [OF one] show ?case by (intro exI [of _ "i # new"]) simp
qed

text \<open>C5: the decoder is the exact inverse of the encoder. It accepts a byte string with
  result \<open>is\<close> precisely when the string is the encoding of \<open>is\<close> and \<open>is\<close> is well formed
  (blobs of at most 255 bytes, timelock kinds 1 to 4): nothing is misread, nothing well
  formed is refused, and no two byte strings decode to the same instructions.\<close>

theorem decode_exact: "decode bs = Ok is \<longleftrightarrow> encode is = bs \<and> list_all wf_instr is"
  unfolding decode_def
  using decode_loop_encode [of "is" "[]"] decode_loop_sound [of bs "[]" "is"] by auto

end
