(* ===== verification/Script_VM.thy ===== *)
theory Script_VM
  imports Script_Code Tx_Types "HOL-Library.Sublist"
begin

text \<open>
  The script executor of \<open>vm/src/executor.rs\<close>: the bounded stack, one step per instruction,
  and \<open>execute\<close> on the concatenation of unlock script, parameters and lock script.

  The stack keeps the order of the Rust \<open>Vec\<close>: the last element is the top. The hash
  functions, \<open>verify\<close>, the transaction being hashed and the chain's time information are the
  parameters collected in \<open>vm_env\<close>; \<open>verify\<close> returns \<open>None\<close> for an error of the signature
  library. \<open>exec_instr\<close> is the body of the loop for one instruction, \<open>exec_loop\<close> the loop
  itself, a total function because the program counter only grows.
\<close>

section \<open>Items and the stack\<close>

datatype script_result = ScriptFail | Unlocked | Burnt

datatype runtime_error =
    OutOfMemory | IndexOutOfBound | StackUnderflow | TypeMismatch | InvalidFilterE
  | InvalidSigCount | InvalidTimelockType

fun from_hashing_error :: "hashing_error \<Rightarrow> runtime_error" where
  "from_hashing_error InvalidFilter = InvalidFilterE"

type_synonym item = bytes

definition assert_len :: "item \<Rightarrow> nat \<Rightarrow> (runtime_error, item) result" where
  "assert_len it n = (if length it = n then Ok it else Error TypeMismatch)"

definition item_of_bool :: "bool \<Rightarrow> item" where
  "item_of_bool v = (if v then [1] else [])"

definition bool_of_item :: "item \<Rightarrow> bool" where
  "bool_of_item it = list_ex (\<lambda>b. b \<noteq> 0) it"

record vm_stack =
  stk :: "item list"
  memory_usage :: nat
  max_memory :: nat

definition new_stack :: "nat \<Rightarrow> vm_stack" where
  "new_stack mx = \<lparr>stk = [], memory_usage = 0, max_memory = mx\<rparr>"

definition default_max_memory :: nat where
  "default_max_memory = 1024"

definition push :: "item \<Rightarrow> (vm_stack, runtime_error, unit) sop" where
  "push val s =
     (if memory_usage s + length val > max_memory s then (Error OutOfMemory, s)
      else (Ok (), s\<lparr>memory_usage := memory_usage s + length val, stk := stk s @ [val]\<rparr>))"

definition pop :: "(vm_stack, runtime_error, item) sop" where
  "pop s =
     (if stk s = [] then (Error StackUnderflow, s)
      else case usize_sub (memory_usage s) (length (last (stk s))) of
          Inl f \<Rightarrow> (Inl f, s\<lparr>stk := butlast (stk s)\<rparr>)
        | Inr m \<Rightarrow> (Ok (last (stk s)), s\<lparr>stk := butlast (stk s), memory_usage := m\<rparr>))"

definition stack_get :: "nat \<Rightarrow> (vm_stack, runtime_error, item) sop" where
  "stack_get index s =
     (if index < length (stk s) then (Ok (stk s ! index), s) else (Error IndexOutOfBound, s))"

definition stack_remove :: "nat \<Rightarrow> (vm_stack, runtime_error, item) sop" where
  "stack_remove index s =
     (if index < length (stk s) then
        case usize_sub (memory_usage s) (length (stk s ! index)) of
          Inl f \<Rightarrow> (Inl f, s\<lparr>stk := remove_nth index (stk s)\<rparr>)
        | Inr m \<Rightarrow> (Ok (stk s ! index), s\<lparr>stk := remove_nth index (stk s), memory_usage := m\<rparr>)
      else (Error IndexOutOfBound, s))"

section \<open>Signature and integer helpers\<close>

record vm_env =
  env_blake256 :: "bytes \<Rightarrow> h256"
  env_sha256 :: "bytes \<Rightarrow> h256"
  env_ripemd160 :: "bytes \<Rightarrow> h160"
  env_keccak256 :: "bytes \<Rightarrow> h256"
  env_blake160 :: "bytes \<Rightarrow> h160"
  env_verify :: "public \<Rightarrow> signature \<Rightarrow> h256 \<Rightarrow> bool option"
  env_hash_partially :: "tag \<Rightarrow> asset_transfer_input \<Rightarrow> bool \<Rightarrow> (hashing_error, h256) result"
  env_transaction_block_age :: "h256 \<Rightarrow> u64 \<Rightarrow> u64 option"
  env_transaction_time_age :: "h256 \<Rightarrow> u64 \<Rightarrow> u64 option"
  env_cur :: asset_transfer_input
  env_burn :: bool
  env_parent_block_number :: u64
  env_parent_block_timestamp :: u64

definition read_u64 :: "item \<Rightarrow> (runtime_error, u64) result" where
  "read_u64 it =
     (if length it > 8 then Error TypeMismatch
      else Ok (of_be_bytes (replicate (8 - length it) (0 :: u8) @ it)))"

text \<open>The inner \<open>loop\<close> of \<open>check_multi_sig\<close>: pop keys until one verifies; \<open>None\<close> when the
  keys run out. Keys and signatures are popped from the end, so the lists are reversed.\<close>

fun pop_matching_key :: "(public \<Rightarrow> bool) \<Rightarrow> public list \<Rightarrow> public list option" where
  "pop_matching_key ok [] = None"
| "pop_matching_key ok (p # ps) = (if ok p then Some ps else pop_matching_key ok ps)"

fun multi_sig_loop :: "(public \<Rightarrow> signature \<Rightarrow> bool) \<Rightarrow> public list \<Rightarrow> signature list \<Rightarrow> bool" where
  "multi_sig_loop ok ps [] = True"
| "multi_sig_loop ok ps (s # ss) = (case pop_matching_key (\<lambda>p. ok p s) ps of
     None \<Rightarrow> False
   | Some ps' \<Rightarrow> multi_sig_loop ok ps' ss)"

definition check_multi_sig :: "(public \<Rightarrow> signature \<Rightarrow> h256 \<Rightarrow> bool option) \<Rightarrow> h256 \<Rightarrow>
    public list \<Rightarrow> signature list \<Rightarrow> bool" where
  "check_multi_sig vrf tx_hash pubkey signatures =
     multi_sig_loop (\<lambda>p s. vrf p s tx_hash = Some True) (rev pubkey) (rev signatures)"

section \<open>One instruction\<close>

text \<open>What the body of the loop does next: return from \<open>execute\<close>, or go on after adding the
  offset of a taken jump (zero for every other instruction) to the program counter.\<close>

datatype flow = Return script_result | Continue nat

type_synonym 'a vm_op = "(vm_stack, runtime_error, 'a) sop"

abbreviation continue :: "flow vm_op" where
  "continue \<equiv> sreturn (Continue 0)"

definition push_continue :: "item \<Rightarrow> flow vm_op" where
  "push_continue it = sbind (push it) (\<lambda>_. continue)"

text \<open>Pops \<open>n\<close> items of the given length, in the order they are popped.\<close>

fun pop_many :: "nat \<Rightarrow> nat \<Rightarrow> item list \<Rightarrow> item list vm_op" where
  "pop_many len 0 acc = sreturn acc"
| "pop_many len (Suc n) acc =
     sbind pop (\<lambda>it. sbind (slift (assert_len it len)) (\<lambda>it'. pop_many len n (acc @ [it'])))"

text \<open>\<open>Tag::try_new(...)?\<close> and \<open>tx.hash_partially(tag, cur, burn)?\<close>.\<close>

definition hash_for_tag :: "vm_env \<Rightarrow> item \<Rightarrow> h256 vm_op" where
  "hash_for_tag env it =
     slift (map_err from_hashing_error (rbind (tag_try_new it)
       (\<lambda>tg. env_hash_partially env tg (env_cur env) (env_burn env))))"

definition exec_chksig :: "vm_env \<Rightarrow> flow vm_op" where
  "exec_chksig env =
     sbind pop (\<lambda>pk. sbind (slift (assert_len pk 64)) (\<lambda>pk'.
     sbind pop (\<lambda>tg. sbind (hash_for_tag env tg) (\<lambda>tx_hash.
     sbind pop (\<lambda>sig. sbind (slift (assert_len sig 65)) (\<lambda>sig'.
     push_continue
       [if env_verify env (of_be_bytes pk') (of_be_bytes sig') tx_hash = Some True
        then 1 else 0]))))))"

definition exec_chkmultisig :: "vm_env \<Rightarrow> flow vm_op" where
  "exec_chkmultisig env =
     sbind pop (\<lambda>n_it. sbind (slift (assert_len n_it 1)) (\<lambda>n_it'.
     sbind (pop_many 64 (unat (n_it' ! 0)) []) (\<lambda>pubkey.
     sbind pop (\<lambda>m_it. sbind (slift (assert_len m_it 1)) (\<lambda>m_it'.
     let n = unat (n_it' ! 0); m = unat (m_it' ! 0) in
     if m > n \<or> m = 0 \<or> m > 6 then sfail InvalidSigCount
     else sbind (pop_many 65 m []) (\<lambda>signatures.
     sbind pop (\<lambda>tg. sbind (hash_for_tag env tg) (\<lambda>tx_hash.
     push_continue
       [if check_multi_sig (env_verify env) tx_hash (map of_be_bytes pubkey)
             (map of_be_bytes signatures) then 1 else 0]))))))))"

definition exec_timelock :: "vm_env \<Rightarrow> u8 \<Rightarrow> flow vm_op" where
  "exec_timelock env timelock_type =
     sbind pop (\<lambda>it. sbind (slift (read_u64 it)) (\<lambda>value.
     let tracker = op_tracker (in_prev_out (env_cur env)) in
     if timelock_type = 1 then
       push_continue (item_of_bool (env_parent_block_number env \<ge> value))
     else if timelock_type = 2 then
       push_continue (item_of_bool
         (case env_transaction_block_age env tracker (env_parent_block_number env) of
            None \<Rightarrow> False | Some age \<Rightarrow> age \<ge> value))
     else if timelock_type = 3 then
       push_continue (item_of_bool (env_parent_block_timestamp env \<ge> value))
     else if timelock_type = 4 then
       push_continue (item_of_bool
         (case env_transaction_time_age env tracker (env_parent_block_timestamp env) of
            None \<Rightarrow> False | Some age \<Rightarrow> age \<ge> value))
     else sfail InvalidTimelockType))"

definition exec_hash :: "(bytes \<Rightarrow> 'a::len word) \<Rightarrow> flow vm_op" where
  "exec_hash h = sbind pop (\<lambda>value. push_continue (be_bytes (h value)))"

fun exec_instr :: "vm_env \<Rightarrow> instruction \<Rightarrow> flow vm_op" where
  "exec_instr env Nop = continue"
| "exec_instr env Burn = sreturn (Return Burnt)"
| "exec_instr env Success = sreturn (Return Unlocked)"
| "exec_instr env FailI = sreturn (Return ScriptFail)"
| "exec_instr env NotI =
     sbind pop (\<lambda>value. push_continue (item_of_bool (\<not> bool_of_item value)))"
| "exec_instr env EqI =
     sbind pop (\<lambda>first. sbind pop (\<lambda>second. push_continue (item_of_bool (first = second))))"
| "exec_instr env (Jmp val) = sreturn (Continue (unat val))"
| "exec_instr env (Jnz val) =
     sbind pop (\<lambda>it. if bool_of_item it then sreturn (Continue (unat val)) else continue)"
| "exec_instr env (Jz val) =
     sbind pop (\<lambda>it. if \<not> bool_of_item it then sreturn (Continue (unat val)) else continue)"
| "exec_instr env (Push val) = push_continue [val]"
| "exec_instr env Pop = sbind pop (\<lambda>_. continue)"
| "exec_instr env (PushB blob) = push_continue blob"
| "exec_instr env Dup = sbind pop (\<lambda>top. sbind (push top) (\<lambda>_. push_continue top))"
| "exec_instr env Swap =
     sbind pop (\<lambda>first. sbind pop (\<lambda>second. sbind (push first) (\<lambda>_. push_continue second)))"
| "exec_instr env (CopyI index) =
     sbind (sget (\<lambda>s. length (stk s))) (\<lambda>len.
       if len \<le> unat index then sfail StackUnderflow
       else sbind (stack_get ((len - 1) - unat index)) push_continue)"
| "exec_instr env (DropI index) = sbind (stack_remove (unat index)) (\<lambda>_. continue)"
| "exec_instr env ChkSig = exec_chksig env"
| "exec_instr env ChkMultiSig = exec_chkmultisig env"
| "exec_instr env Blake256 = exec_hash (env_blake256 env)"
| "exec_instr env Sha256 = exec_hash (env_sha256 env)"
| "exec_instr env Ripemd160 = exec_hash (env_ripemd160 env)"
| "exec_instr env Keccak256 = exec_hash (env_keccak256 env)"
| "exec_instr env Blake160 = exec_hash (env_blake160 env)"
| "exec_instr env (ChkTimelock t) = exec_timelock env t"

section \<open>The loop\<close>

text \<open>After the last instruction the script unlocks when exactly one, true item is left.\<close>

definition finish :: "vm_stack \<Rightarrow> (runtime_error, script_result) result" where
  "finish s = (case pop s of
     (Inl f, _) \<Rightarrow> Inl f
   | (Inr it, s') \<Rightarrow> Ok (if bool_of_item it \<and> stk s' = [] then Unlocked else ScriptFail))"

function exec_loop :: "vm_env \<Rightarrow> instruction list \<Rightarrow> nat \<Rightarrow> vm_stack \<Rightarrow>
    (runtime_error, script_result) result" where
  "exec_loop env script pc s =
     (if pc < length script then
        (case exec_instr env (script ! pc) s of
           (Inl f, _) \<Rightarrow> Inl f
         | (Inr (Return r), _) \<Rightarrow> Ok r
         | (Inr (Continue off), s') \<Rightarrow> exec_loop env script (pc + off + 1) s')
      else finish s)"
  by pat_completeness auto
termination
  by (relation "measure (\<lambda>(env, script, pc, s). length script - pc)") auto

declare exec_loop.simps [simp del]

definition execute :: "vm_env \<Rightarrow> nat \<Rightarrow> instruction list \<Rightarrow> bytes list \<Rightarrow> instruction list \<Rightarrow>
    (runtime_error, script_result) result" where
  "execute env mx unlock params lock =
     (if \<not> is_valid_unlock_script unlock then Ok ScriptFail
      else if has_expensive_opcodes unlock then Ok ScriptFail
      else exec_loop env (unlock @ rev (map PushB params) @ lock) 0 (new_stack mx))"

section \<open>The memory invariant\<close>

definition vm_inv :: "nat \<Rightarrow> vm_stack \<Rightarrow> bool" where
  "vm_inv mx s \<longleftrightarrow> memory_usage s = sum_list (map length (stk s)) \<and> memory_usage s \<le> mx \<and>
     max_memory s = mx"

lemma vm_inv_new [simp]: "vm_inv mx (new_stack mx)"
  by (simp add: vm_inv_def new_stack_def)

lemma safe_push [safety]: "safe (vm_inv mx) (push it)"
  by (rule safeI) (auto simp: push_def vm_inv_def)

lemma pop_memory_le: "vm_inv mx s \<Longrightarrow> stk s \<noteq> [] \<Longrightarrow> length (last (stk s)) \<le> memory_usage s"
  by (auto simp: vm_inv_def sum_list_butlast [of "stk s" length])

lemma safe_pop [safety]: "safe (vm_inv mx) pop"
proof (rule safeI)
  fix s
  assume s: "vm_inv mx s"
  show "vm_inv mx (snd (pop s))"
    using s pop_memory_le [OF s]
    by (auto simp: pop_def vm_inv_def sum_list_butlast [of "stk s" length])
  show "fst (pop s) \<noteq> Inl (Panic p)" for p
    using pop_memory_le [OF s] by (auto simp: pop_def)
qed

lemma safe_stack_get [safety]: "safe (vm_inv mx) (stack_get i)"
  by (rule safeI) (auto simp: stack_get_def)

lemma safe_stack_remove [safety]: "safe (vm_inv mx) (stack_remove i)"
proof (rule safeI)
  fix s
  assume s: "vm_inv mx s"
  have le: "i < length (stk s) \<Longrightarrow> length (stk s ! i) \<le> memory_usage s"
    using s by (auto simp: vm_inv_def sum_list_remove_nth [of i "stk s" length])
  show "vm_inv mx (snd (stack_remove i s))"
    using s le
    by (auto simp: stack_remove_def vm_inv_def sum_list_remove_nth [of i "stk s" length])
  show "fst (stack_remove i s) \<noteq> Inl (Panic p)" for p
    using le by (auto simp: stack_remove_def)
qed

lemma safe_push_continue [safety]: "safe (vm_inv mx) (push_continue it)"
  unfolding push_continue_def by (intro safety)

lemma safe_assert_len [safety]: "safe (vm_inv mx) (slift (assert_len it n))"
  by (rule safe_slift) (simp add: assert_len_def)

lemma safe_read_u64 [safety]: "safe (vm_inv mx) (slift (read_u64 it))"
  by (rule safe_slift) (simp add: read_u64_def)

lemma safe_pop_many [safety]: "safe (vm_inv mx) (pop_many len n acc)"
  by (induction n arbitrary: acc) (auto intro!: safety)

text \<open>The one parameter of the executor that could panic is the transaction's hashing.\<close>

definition hashing_total :: "vm_env \<Rightarrow> bool" where
  "hashing_total env \<longleftrightarrow>
     (\<forall>tg p. env_hash_partially env tg (env_cur env) (env_burn env) \<noteq> Panics p)"

lemma safe_hash_for_tag [safety]:
  "hashing_total env \<Longrightarrow> safe (vm_inv mx) (hash_for_tag env it)"
  unfolding hash_for_tag_def
  by (rule safe_slift) (auto simp: hashing_total_def rbind_eq_Inl_iff)

lemma safe_exec_instr:
  assumes "hashing_total env"
  shows "safe (vm_inv mx) (exec_instr env i)"
  using assms
  by (cases i) (auto simp: exec_hash_def exec_chksig_def exec_chkmultisig_def exec_timelock_def Let_def
      intro!: safety)

section \<open>Reachable machine states\<close>

text \<open>The loop as a step relation on program counter and stack, counting the steps.\<close>

inductive vm_reach :: "vm_env \<Rightarrow> instruction list \<Rightarrow> vm_stack \<Rightarrow> nat \<Rightarrow> nat \<Rightarrow> vm_stack \<Rightarrow> bool"
  for env script s0 where
  vm_start: "vm_reach env script s0 0 0 s0"
| vm_step: "vm_reach env script s0 n pc s \<Longrightarrow> pc < length script \<Longrightarrow>
    exec_instr env (script ! pc) s = (Ok (Continue off), s') \<Longrightarrow>
    vm_reach env script s0 (Suc n) (pc + off + 1) s'"

inductive_cases vm_reach_SucE: "vm_reach env script s0 (Suc n) pc s"

lemma exec_instr_inv:
  assumes "hashing_total env" "vm_inv mx s" "exec_instr env i s = (r, s')"
  shows "vm_inv mx s'"
  using safe_state [OF safe_exec_instr [OF assms(1)] assms(2,3)] .

lemma vm_reach_steps: "vm_reach env script s0 n pc s \<Longrightarrow> n \<le> pc"
  by (induction rule: vm_reach.induct) auto

lemma vm_reach_inv:
  assumes "vm_reach env script s0 n pc s" "hashing_total env" "vm_inv mx s0"
  shows "vm_inv mx s"
  using assms by (induction rule: vm_reach.induct) (auto dest: exec_instr_inv)

text \<open>The loop continued from a reachable state gives the result of the whole run.\<close>

lemma vm_reach_result:
  "vm_reach env script s0 n pc s \<Longrightarrow> exec_loop env script pc s = exec_loop env script 0 s0"
proof (induction rule: vm_reach.induct)
  case vm_start
  then show ?case by simp
next
  case (vm_step n pc s off s')
  then show ?case by (simp add: exec_loop.simps [of env script pc s])
qed

lemma exec_loop_no_panic:
  assumes "hashing_total env" "vm_inv mx s"
  shows "exec_loop env script pc s \<noteq> Panics p"
  using assms
proof (induction env script pc s rule: exec_loop.induct)
  case (1 env script pc s)
  show ?case
  proof (cases "pc < length script")
    case True
    obtain r s' where step: "exec_instr env (script ! pc) s = (r, s')" by force
    have inv: "vm_inv mx s'" by (rule exec_instr_inv [OF "1.prems" step])
    have "r \<noteq> Panics p"
      using safe_no_panic [OF safe_exec_instr [OF "1.prems"(1)] "1.prems"(2)] step by auto
    moreover have "exec_loop env script (pc + off + 1) s' \<noteq> Panics p" if "r = Ok (Continue off)" for off
      using "1.IH" [OF True step [symmetric] that refl "1.prems"(1) inv] .
    ultimately show ?thesis
      using True step by (auto simp: exec_loop.simps [of env script pc s] split: sum.splits flow.splits)
  next
    case False
    have "fst (pop s) \<noteq> Panics p"
      using safe_pop "1.prems"(2) by (simp add: safe_def)
    with False show ?thesis
      by (auto simp: exec_loop.simps [of env script pc s] finish_def split: prod.splits sum.splits)
  qed
qed

text \<open>
  C3: while \<open>execute\<close> runs, the stack's \<open>memory_usage\<close> counter is exactly the total number
  of bytes on the stack and never exceeds the configured limit, whatever scripts the input
  carries, and no more steps are made than the program counter has advanced, so a script
  runs at most as many instructions as it has. Hashing the spending transaction must not
  panic, which is shown for every shard transaction that spends assets.
\<close>

theorem vm_memory_bounded:
  assumes "spends_assets t" "env_hash_partially env = shard_hash_partially h t"
    and "vm_reach env (unlock @ rev (map PushB params) @ lock) (new_stack mx) n pc s"
  shows "memory_usage s = sum_list (map length (stk s)) \<and> memory_usage s \<le> mx \<and> n \<le> pc"
proof -
  have total: "hashing_total env"
    using assms(1,2) by (simp add: hashing_total_def shard_hash_partially_no_panic)
  from vm_reach_inv [OF assms(3) total vm_inv_new] vm_reach_steps [OF assms(3)] show ?thesis
    by (simp add: vm_inv_def)
qed

text \<open>A concrete spending transaction and environment, on which the hypotheses hold.\<close>

definition sample_input :: asset_transfer_input where
  "sample_input = \<lparr>in_prev_out = \<lparr>op_tracker = 1, op_index = 0, op_asset_type = 0, op_shard_id = 0,
     op_quantity = 10\<rparr>, in_timelock = None, in_lock_script = [], in_unlock_script = []\<rparr>"

definition sample_tx :: shard_transaction where
  "sample_tx = ShardUnwrapCCC 17 sample_input 5"

definition sample_env :: vm_env where
  "sample_env = \<lparr>env_blake256 = of_be_bytes, env_sha256 = of_be_bytes, env_ripemd160 = of_be_bytes,
     env_keccak256 = of_be_bytes, env_blake160 = of_be_bytes,
     env_verify = (\<lambda>pk sig h. Some (ucast pk = sig)),
     env_hash_partially = shard_hash_partially (\<lambda>tg t. 3) sample_tx,
     env_transaction_block_age = (\<lambda>_ _. None), env_transaction_time_age = (\<lambda>_ _. None),
     env_cur = sample_input, env_burn = True, env_parent_block_number = 8,
     env_parent_block_timestamp = 9\<rparr>"

theorem vm_memory_bounded_witness:
  "vm_reach sample_env ([Push 7] @ rev (map PushB [[1, 2]]) @ [Dup]) (new_stack 4) 2 2
     \<lparr>stk = [[7], [1, 2]], memory_usage = 3, max_memory = 4\<rparr> \<and> (3::nat) \<le> 4"
proof -
  let ?script = "[Push 7] @ rev (map PushB [[1, 2]]) @ [Dup]"
  have 0: "vm_reach sample_env ?script (new_stack 4) 0 0 (new_stack 4)" by (rule vm_start)
  have 1: "vm_reach sample_env ?script (new_stack 4) 1 1
      \<lparr>stk = [[7]], memory_usage = 1, max_memory = 4\<rparr>"
    using vm_step [OF 0, of 0] by (simp add: push_continue_def sbind_apply push_def new_stack_def)
  have 2: "vm_reach sample_env ?script (new_stack 4) 2 2
      \<lparr>stk = [[7], [1, 2]], memory_usage = 3, max_memory = 4\<rparr>"
    using vm_step [OF 1, of 0] by (simp add: push_continue_def sbind_apply push_def eval_nat_numeral)
  have "spends_assets sample_tx" by (simp add: sample_tx_def)
  moreover have "env_hash_partially sample_env = shard_hash_partially (\<lambda>tg t. 3) sample_tx"
    by (simp add: sample_env_def)
  ultimately show ?thesis using vm_memory_bounded [OF _ _ 2] 2 by simp
qed

text \<open>
  C4: \<open>execute\<close> returns a result or one of its errors on every input: no script, parameter
  list or memory limit makes the node panic, when the transaction spends assets.
\<close>

theorem execute_no_panic:
  assumes "spends_assets t" "env_hash_partially env = shard_hash_partially h t"
  shows "execute env mx unlock params lock \<noteq> Panics p"
proof -
  have "hashing_total env"
    using assms by (simp add: hashing_total_def shard_hash_partially_no_panic)
  from exec_loop_no_panic [OF this vm_inv_new] show ?thesis
    by (simp add: execute_def)
qed

theorem execute_no_panic_witness:
  "\<forall>p. execute sample_env 1024 [PushB [1]] [[2]] [EqI] \<noteq> Panics p"
proof
  fix p
  show "execute sample_env 1024 [PushB [1]] [[2]] [EqI] \<noteq> Panics p"
    by (rule execute_no_panic [of sample_tx _ "\<lambda>tg t. 3"]) (simp_all add: sample_tx_def sample_env_def)
qed

section \<open>The loop as a structural recursion\<close>

text \<open>Jumps only go forward, so the loop is a recursion on the rest of the script.\<close>

function run :: "vm_env \<Rightarrow> instruction list \<Rightarrow> vm_stack \<Rightarrow> (runtime_error, script_result) result" where
  "run env [] s = finish s"
| "run env (i # rest) s =
     (case exec_instr env i s of
        (Inl f, _) \<Rightarrow> Inl f
      | (Inr (Return r), _) \<Rightarrow> Ok r
      | (Inr (Continue off), s') \<Rightarrow> run env (drop off rest) s')"
  by pat_completeness auto
termination
  by (relation "measure (\<lambda>(env, rest, s). length rest)") auto

lemma exec_loop_eq_run: "exec_loop env script pc s = run env (drop pc script) s"
proof (induction env script pc s rule: exec_loop.induct)
  case (1 env script pc s)
  show ?case
  proof (cases "pc < length script")
    case True
    obtain r s' where step: "exec_instr env (script ! pc) s = (r, s')" by force
    have next_: "exec_loop env script (pc + off + 1) s' = run env (drop (pc + off + 1) script) s'"
      if "r = Ok (Continue off)" for off
      using 1 [OF True step [symmetric] that refl] .
    have "drop pc script = script ! pc # drop (Suc pc) script"
      using True by (simp add: Cons_nth_drop_Suc)
    then show ?thesis
      using True step next_
      by (auto simp: exec_loop.simps [of env script pc s] add.commute add.left_commute
          split: sum.splits flow.splits)
  next
    case False
    then show ?thesis by (simp add: exec_loop.simps [of env script pc s])
  qed
qed

text \<open>A stack that satisfies the invariant, and the stack operations on it.\<close>

definition stack_of :: "nat \<Rightarrow> item list \<Rightarrow> vm_stack" where
  "stack_of mx xs = \<lparr>stk = xs, memory_usage = sum_list (map length xs), max_memory = mx\<rparr>"

lemma stk_stack_of [simp]: "stk (stack_of mx xs) = xs"
  by (simp add: stack_of_def)

lemma new_stack_eq: "new_stack mx = stack_of mx []"
  by (simp add: new_stack_def stack_of_def)

lemma push_stack_of [simp]:
  "push v (stack_of mx xs) = (if sum_list (map length xs) + length v \<le> mx
     then (Ok (), stack_of mx (xs @ [v])) else (Error OutOfMemory, stack_of mx xs))"
  by (auto simp: push_def stack_of_def)

lemma pop_stack_of [simp]:
  "pop (stack_of mx []) = (Error StackUnderflow, stack_of mx [])"
  "pop (stack_of mx (xs @ [x])) = (Ok x, stack_of mx xs)"
  by (simp_all add: pop_def stack_of_def)

lemma push_continue_stack_of [simp]:
  "push_continue v (stack_of mx xs) = (if sum_list (map length xs) + length v \<le> mx
     then (Ok (Continue 0), stack_of mx (xs @ [v])) else (Error OutOfMemory, stack_of mx xs))"
  by (simp add: push_continue_def sbind_apply)

fun pushed :: "instruction \<Rightarrow> item" where
  "pushed (Push v) = [v]"
| "pushed (PushB blob) = blob"
| "pushed _ = []"

lemma run_push:
  "is_push i \<Longrightarrow> run env (i # rest) (stack_of mx xs) =
     (if sum_list (map length xs) + length (pushed i) \<le> mx
      then run env rest (stack_of mx (xs @ [pushed i])) else Error OutOfMemory)"
  by (cases i) simp_all

lemma run_pushes:
  assumes "list_all is_push is" "sum_list (map length xs) \<le> mx"
  shows "run env (is @ rest) (stack_of mx xs) =
     (if sum_list (map length (xs @ map pushed is)) \<le> mx
      then run env rest (stack_of mx (xs @ map pushed is)) else Error OutOfMemory)"
  using assms
proof (induction "is" arbitrary: xs)
  case Nil
  then show ?case by simp
next
  case (Cons i "is")
  then show ?case using Cons.IH [of "xs @ [pushed i]"] by (simp add: run_push add.assoc del: run.simps)
qed

lemma unlock_not_expensive: "is_valid_unlock_script is \<Longrightarrow> \<not> has_expensive_opcodes is"
proof -
  assume "is_valid_unlock_script is"
  then have "filter (\<lambda>i. i = ChkSig \<or> i = ChkMultiSig) is = []"
    by (auto simp: is_valid_unlock_script_def list_all_iff filter_empty_conv)
  then show ?thesis by (simp add: has_expensive_opcodes_def)
qed

lemma execute_eq_run:
  assumes "is_valid_unlock_script unlock"
  shows "execute env mx unlock params lock =
    (let xs = map pushed unlock @ rev params in
     if sum_list (map length xs) \<le> mx then run env lock (stack_of mx xs) else Error OutOfMemory)"
proof -
  have "list_all is_push (unlock @ rev (map PushB params))"
    using assms by (auto simp: is_valid_unlock_script_def list_all_iff)
  from run_pushes [OF this, of "[]" mx env lock] show ?thesis
    using assms unlock_not_expensive [OF assms]
    by (simp add: execute_def exec_loop_eq_run new_stack_eq rev_map o_def)
qed

section \<open>Multi-signatures\<close>

lemma pop_matching_key_SomeD:
  "pop_matching_key ok ps = Some ps' \<Longrightarrow>
     \<exists>pre p. ps = pre @ p # ps' \<and> ok p \<and> (\<forall>q\<in>set pre. \<not> ok q)"
proof (induction ps)
  case Nil
  then show ?case by simp
next
  case (Cons q ps)
  show ?case
  proof (cases "ok q")
    case True
    with Cons.prems show ?thesis by (intro exI [of _ "[]"]) simp
  next
    case False
    with Cons obtain pre p where "ps = pre @ p # ps'" "ok p" "\<forall>q\<in>set pre. \<not> ok q" by auto
    with False show ?thesis by (intro exI [of _ "q # pre"]) simp
  qed
qed

lemma pop_matching_key_None: "pop_matching_key ok ps = None \<longleftrightarrow> (\<forall>p\<in>set ps. \<not> ok p)"
  by (induction ps) auto

lemma subseq_revI: "subseq xs ys \<Longrightarrow> subseq (rev xs) (rev ys)"
proof (induction rule: list_emb.induct)
  case (list_emb_Nil ys)
  then show ?case by simp
next
  case (list_emb_Cons xs ys y)
  then show ?case by (simp add: subseq_rev_drop_many)
next
  case (list_emb_Cons2 x y xs ys)
  then show ?case by (simp add: list_emb_append_mono)
qed

text \<open>The first matching key is the best choice: whatever else a later signature may use
  comes after it.\<close>

lemma pop_matching_key_greedy:
  assumes "pop_matching_key ok ps = Some ps'" "subseq (q # qs) ps" "ok q"
  shows "subseq qs ps'"
proof -
  obtain pre p where ps: "ps = pre @ p # ps'" and pre: "\<forall>q\<in>set pre. \<not> ok q"
    using pop_matching_key_SomeD [OF assms(1)] by auto
  from assms(2) have "subseq (q # qs) (pre @ p # ps')" by (simp add: ps)
  moreover have "q \<notin> set pre" using pre assms(3) by auto
  ultimately have "subseq (q # qs) (p # ps')"
    by (induction pre) (simp_all add: subseq_Cons2_iff)
  then show ?thesis by (metis subseq_Cons' subseq_Cons2_iff)
qed

lemma multi_sig_loop_iff:
  "multi_sig_loop ok ps ss \<longleftrightarrow> (\<exists>qs. subseq qs ps \<and> list_all2 ok qs ss)"
proof (induction ss arbitrary: ps)
  case Nil
  then show ?case by auto
next
  case (Cons s ss)
  show ?case
  proof (cases "pop_matching_key (\<lambda>p. ok p s) ps")
    case None
    then have "\<forall>p\<in>set ps. \<not> ok p s" by (simp add: pop_matching_key_None)
    moreover have "q \<in> set ps" if "subseq (q # qs) ps" for q qs
      using list_emb_set [OF that, of q] by auto
    ultimately show ?thesis
      using None by (fastforce simp: list_all2_Cons2)
  next
    case (Some ps')
    have "(\<exists>qs. subseq qs ps' \<and> list_all2 ok qs ss) \<longleftrightarrow>
        (\<exists>qs. subseq qs ps \<and> list_all2 ok qs (s # ss))" (is "?l \<longleftrightarrow> ?r")
    proof
      assume ?l
      then obtain qs where qs: "subseq qs ps'" "list_all2 ok qs ss" by auto
      obtain pre p where "ps = pre @ p # ps'" "ok p s"
        using pop_matching_key_SomeD [OF Some] by auto
      with qs have "subseq (p # qs) ps \<and> list_all2 ok (p # qs) (s # ss)"
        by (simp add: list_emb_append2 subseq_Cons2)
      then show ?r by blast
    next
      assume ?r
      then obtain q qs where "subseq (q # qs) ps" "ok q s" "list_all2 ok qs ss"
        by (auto simp: list_all2_Cons2)
      with pop_matching_key_greedy [OF Some] show ?l by blast
    qed
    with Some show ?thesis by (simp add: Cons.IH)
  qed
qed

text \<open>
  C2: \<open>check_multi_sig\<close> accepts exactly when the signatures can be matched, in order, with a
  subsequence of the public keys that verify them: the single pass that consumes both lists
  from the end finds a matching whenever there is one, and never counts a key twice.
\<close>

theorem check_multi_sig_iff:
  "check_multi_sig vrf tx_hash pubkey signatures \<longleftrightarrow>
     (\<exists>keys. subseq keys pubkey \<and>
        list_all2 (\<lambda>key sig. vrf key sig tx_hash = Some True) keys signatures)"
proof -
  have "(\<exists>qs. subseq qs (rev pubkey) \<and> list_all2 ok qs (rev signatures)) \<longleftrightarrow>
      (\<exists>keys. subseq keys pubkey \<and> list_all2 ok keys signatures)" for ok
    by (metis list_all2_rev1 rev_rev_ident subseq_revI)
  then show ?thesis by (simp add: check_multi_sig_def multi_sig_loop_iff)
qed

section \<open>Timelock values\<close>

lemma read_u64_eq: "read_u64 it = (if length it > 8 then Error TypeMismatch else Ok (of_be_bytes it))"
  by (simp add: read_u64_def of_be_bytes_zeros)

lemma read_u64_be_bytes [simp]: "read_u64 (be_bytes (v :: u64)) = Ok v"
  by (simp add: read_u64_eq of_be_bytes_be_bytes)

end
