(* ===== verification/Script_Standard.thy ===== *)
theory Script_Standard
  imports Script_VM
begin

text \<open>
  What the executor makes of the standard pay-to-public-key-hash lock script, the script
  whose hash \<open>5f5960a7bca6ceeeb0c97bc717562914e7a1de04\<close> is fixed in
  \<open>spec/CodeChain-Address.md\<close> and whose bytes \<open>[53,1,148,17,34,255,128]\<close> appear in
  \<open>spec/JSON-RPC.md\<close>: the exact set of unlock scripts it accepts.
\<close>

definition p2pkh_lock :: "instruction list" where
  "p2pkh_lock = [CopyI 1, Blake160, EqI, Jz 0xff, ChkSig]"

lemma p2pkh_lock_bytes: "decode [53, 1, 148, 17, 34, 255, 128] = Ok p2pkh_lock"
  using decode_loop_encode [of p2pkh_lock "[]"] by (simp add: p2pkh_lock_def decode_def)

text \<open>A signature over the spending transaction, filtered by the tag, by the given key.\<close>

definition signed_by :: "vm_env \<Rightarrow> item \<Rightarrow> item \<Rightarrow> item \<Rightarrow> bool" where
  "signed_by env pk tg sig \<longleftrightarrow> length pk = 64 \<and> length sig = 65 \<and>
     (\<exists>h. rbind (tag_try_new tg) (\<lambda>t. env_hash_partially env t (env_cur env) (env_burn env)) = Ok h \<and>
          env_verify env (of_be_bytes pk) (of_be_bytes sig) h = Some True)"

lemma pop_pair [simp]: "pop (stack_of mx [x]) = (Ok x, stack_of mx [])"
  "pop (stack_of mx [x, y]) = (Ok y, stack_of mx [x])"
  using pop_stack_of(2) [of mx "[]" x] pop_stack_of(2) [of mx "[x]" y] by simp_all

lemma bool_of_item_simps [simp]:
  "bool_of_item []  = False" "bool_of_item [b] = (b \<noteq> 0)"
  by (simp_all add: bool_of_item_def)

lemma finish_snoc:
  "finish (stack_of mx (xs @ [x])) = Ok (if bool_of_item x \<and> xs = [] then Unlocked else ScriptFail)"
  by (simp add: finish_def)

text \<open>CHKSIG as the last instruction: it succeeds exactly on a signature and nothing else.\<close>

lemma run_chksig:
  assumes "sum_list (map length (xs @ [pk])) \<le> mx"
  shows "run env [ChkSig] (stack_of mx (xs @ [pk])) = Ok Unlocked \<longleftrightarrow>
    (\<exists>sig tg. xs = [sig, tg] \<and> signed_by env pk tg sig)"
proof (cases xs rule: rev_cases)
  case Nil
  then show ?thesis by (simp add: exec_chksig_def sbind_apply assert_len_def)
next
  case (snoc ys tg)
  show ?thesis
  proof (cases ys rule: rev_cases)
    case Nil
    with snoc show ?thesis
      by (auto simp: exec_chksig_def sbind_apply assert_len_def hash_for_tag_def
          split: sum.splits prod.splits)
  next
    case (snoc zs sig)
    then show ?thesis
      using assms \<open>xs = ys @ [tg]\<close>
      by (auto simp: exec_chksig_def sbind_apply assert_len_def hash_for_tag_def finish_snoc
          signed_by_def pop_stack_of(2) [of _ "zs @ [sig]", simplified]
          pop_stack_of(2) [of _ "zs @ [sig, tg]", simplified] split: sum.splits prod.splits if_splits)
  qed
qed

text \<open>The peak memory of the lock script on unlock items \<open>us\<close>: the last of them is copied,
  then replaced by its 20-byte hash.\<close>

definition p2pkh_fits :: "nat \<Rightarrow> item list \<Rightarrow> item \<Rightarrow> bool" where
  "p2pkh_fits mx us pkh \<longleftrightarrow>
     sum_list (map length us) + length pkh + max (length (last us)) 20 \<le> mx"

lemma stack_get_copy:
  "stack_get (length us) (stack_of mx (us @ [pk, pkh])) = (Ok pk, stack_of mx (us @ [pk, pkh]))"
  by (simp add: stack_get_def nth_append)

lemma pop_two:
  "pop (stack_of mx (us @ [x, y])) = (Ok y, stack_of mx (us @ [x]))"
  "pop (stack_of mx (us @ [x, y, z])) = (Ok z, stack_of mx (us @ [x, y]))"
  using pop_stack_of(2) [of mx "us @ [x]" y] pop_stack_of(2) [of mx "us @ [x, y]" z] by simp_all

lemma run_p2pkh:
  assumes "sum_list (map length (us @ [pk, pkh])) \<le> mx"
  shows "run env p2pkh_lock (stack_of mx (us @ [pk, pkh])) =
    (if p2pkh_fits mx (us @ [pk]) pkh then
       if be_bytes (env_blake160 env pk) = pkh then run env [ChkSig] (stack_of mx (us @ [pk]))
       else finish (stack_of mx (us @ [pk]))
     else Error OutOfMemory)"
  using assms
  by (auto simp: p2pkh_lock_def stack_get_copy exec_hash_def sbind_apply pop_two p2pkh_fits_def
      item_of_bool_def simp del: run.simps(2) simp: run.simps(2) [of _ "CopyI _"]
      run.simps(2) [of _ Blake160] run.simps(2) [of _ EqI] run.simps(2) [of _ "Jz _"])

text \<open>
  C1: which unlock scripts open an output locked to a public key hash. Besides the intended
  one (a signature, a tag and a key with that hash, nothing else), there is a second way in:
  one single item that is not all zero and does NOT hash to the expected value. The script's
  JZ 0xff then jumps past the end with that item alone on the stack, which counts as
  unlocked.
\<close>

theorem p2pkh_unlocked_iff:
  "execute env mx unlock [pkh] p2pkh_lock = Ok Unlocked \<longleftrightarrow>
     is_valid_unlock_script unlock \<and> p2pkh_fits mx (map pushed unlock) pkh \<and>
     ((\<exists>sig tg pk. map pushed unlock = [sig, tg, pk] \<and>
         be_bytes (env_blake160 env pk) = pkh \<and> signed_by env pk tg sig) \<or>
      (\<exists>x. map pushed unlock = [x] \<and> bool_of_item x \<and> be_bytes (env_blake160 env x) \<noteq> pkh))"
proof (cases "is_valid_unlock_script unlock")
  case False
  then show ?thesis by (simp add: execute_def)
next
  case valid: True
  show ?thesis
  proof (cases "map pushed unlock" rule: rev_cases)
    case Nil
    then show ?thesis
      using valid by (simp add: execute_eq_run p2pkh_lock_def)
  next
    case (snoc us pk)
    have fits: "p2pkh_fits mx (us @ [pk]) pkh \<Longrightarrow> sum_list (map length (us @ [pk, pkh])) \<le> mx"
      by (simp add: p2pkh_fits_def)
    have "execute env mx unlock [pkh] p2pkh_lock = Ok Unlocked \<longleftrightarrow>
        p2pkh_fits mx (us @ [pk]) pkh \<and>
        (if be_bytes (env_blake160 env pk) = pkh
         then run env [ChkSig] (stack_of mx (us @ [pk])) = Ok Unlocked
         else finish (stack_of mx (us @ [pk])) = Ok Unlocked)"
      using valid snoc run_p2pkh [of us pk pkh mx env] fits
      by (auto simp: execute_eq_run simp del: run.simps)
    moreover have "p2pkh_fits mx (us @ [pk]) pkh \<Longrightarrow>
        run env [ChkSig] (stack_of mx (us @ [pk])) = Ok Unlocked \<longleftrightarrow>
        (\<exists>sig tg. us = [sig, tg] \<and> signed_by env pk tg sig)"
      using fits by (intro run_chksig) simp
    ultimately show ?thesis
      using snoc valid by (auto simp: finish_snoc simp del: run.simps)
  qed
qed

end
