(* ===== verification/Write_Back.thy ===== *)
theory Write_Back
  imports CC_Prelude
begin

text \<open>
  The write-back cache with nested checkpoints that every kind of state item lives in
  (\<open>state/src/cache/write_back.rs\<close>), and the two caches built from it
  (\<open>shard_cache.rs\<close>, \<open>top_cache.rs\<close>).

  The database under a cache is its content, a map from addresses to decoded items; errors
  of the trie (a missing or corrupt node) are not modelled. \<open>TOUCHED_COUNT\<close>, a counter
  shared by all caches of the process, is a field of the cache here: only the order it gives
  to the entries of one cache is used. The vector of checkpoints is a list with the newest
  checkpoint first.

  The cache is shown to refine a map with a stack of snapshots: \<open>checkpointed\<close> is that
  interface, and the caches are its instances.
\<close>

section \<open>Entries and caches\<close>

record 'v entry =
  e_item :: "'v option"
  is_dirty :: bool
  touched :: nat

record ('k, 'v) write_back =
  cache :: "'k \<Rightarrow> 'v entry option"
  checkpoints :: "('k \<Rightarrow> 'v entry option option) list"
  touched_count :: nat

definition new_dirty :: "nat \<Rightarrow> 'v option \<Rightarrow> 'v entry" where
  "new_dirty t it = \<lparr>e_item = it, is_dirty = True, touched = t\<rparr>"

definition new_clean :: "nat \<Rightarrow> 'v option \<Rightarrow> 'v entry" where
  "new_clean t it = \<lparr>e_item = it, is_dirty = False, touched = t\<rparr>"

definition wb_new :: "nat \<Rightarrow> ('k, 'v) write_back" where
  "wb_new t = \<lparr>cache = Map.empty, checkpoints = [], touched_count = t\<rparr>"

text \<open>\<open>entry(k).or_insert(v)\<close> on the newest checkpoint.\<close>

definition note_checkpoint :: "'k \<Rightarrow> 'v entry option \<Rightarrow> ('k \<Rightarrow> 'v entry option option) list \<Rightarrow>
    ('k \<Rightarrow> 'v entry option option) list" where
  "note_checkpoint a old cps = (case cps of
     [] \<Rightarrow> []
   | c # cs \<Rightarrow> (case c a of None \<Rightarrow> c(a \<mapsto> old) # cs | Some _ \<Rightarrow> c # cs))"

definition wb_insert :: "'k \<Rightarrow> 'v entry \<Rightarrow> ('k, 'v) write_back \<Rightarrow> ('k, 'v) write_back" where
  "wb_insert a e wb =
     (let old_value = cache wb a; wb' = wb\<lparr>cache := (cache wb)(a \<mapsto> e)\<rparr> in
      if \<not> is_dirty e then wb'
      else wb'\<lparr>checkpoints := note_checkpoint a old_value (checkpoints wb)\<rparr>)"

text \<open>\<open>touched_count()\<close> returns the counter and increments it.\<close>

definition tick :: "('k, 'v) write_back \<Rightarrow> ('k, 'v) write_back" where
  "tick wb = wb\<lparr>touched_count := touched_count wb + 1\<rparr>"

fun insert_enumerated :: "nat \<Rightarrow> ('k \<times> 'v) list \<Rightarrow> ('k, 'v) write_back \<Rightarrow> ('k, 'v) write_back" where
  "insert_enumerated t [] wb = wb"
| "insert_enumerated t ((addr, it) # items) wb =
     insert_enumerated (Suc t) items (wb_insert addr (new_clean t (Some it)) wb)"

definition new_with_iter :: "nat \<Rightarrow> ('k \<times> 'v) list \<Rightarrow> ('k, 'v) write_back" where
  "new_with_iter t items = insert_enumerated 0 items (wb_new t)"

definition wb_checkpoint :: "('k, 'v) write_back \<Rightarrow> ('k, 'v) write_back" where
  "wb_checkpoint wb = wb\<lparr>checkpoints := Map.empty # checkpoints wb\<rparr>"

text \<open>Merging \<open>checkpoint\<close> into \<open>prev\<close> with \<open>or_insert\<close> keeps what \<open>prev\<close> has; for an
  empty \<open>prev\<close>, which the code replaces outright, that is \<open>checkpoint\<close> itself.\<close>

definition wb_discard_checkpoint :: "('k, 'v) write_back \<Rightarrow> ('k, 'v) write_back" where
  "wb_discard_checkpoint wb = (case checkpoints wb of
     [] \<Rightarrow> wb
   | [checkpoint] \<Rightarrow> wb\<lparr>checkpoints := []\<rparr>
   | checkpoint # prev # cs \<Rightarrow> wb\<lparr>checkpoints := (checkpoint ++ prev) # cs\<rparr>)"

definition wb_revert_to_checkpoint :: "('k, 'v) write_back \<Rightarrow> ('k, 'v) write_back" where
  "wb_revert_to_checkpoint wb = (case checkpoints wb of
     [] \<Rightarrow> wb
   | checkpoint # cs \<Rightarrow> wb\<lparr>
       cache := (\<lambda>k. case checkpoint k of
           None \<Rightarrow> cache wb k
         | Some (Some v) \<Rightarrow> Some v
         | Some None \<Rightarrow> (case cache wb k of
             Some e \<Rightarrow> if is_dirty e then None else Some e
           | None \<Rightarrow> None)),
       checkpoints := cs\<rparr>)"

definition wb_remove :: "'k \<Rightarrow> ('k, 'v) write_back \<Rightarrow> ('k, 'v) write_back" where
  "wb_remove a wb = wb_insert a (new_dirty (touched_count wb) None) (tick wb)"

definition wb_note :: "'k \<Rightarrow> ('k, 'v) write_back \<Rightarrow> ('k, 'v) write_back" where
  "wb_note a wb = wb\<lparr>checkpoints := note_checkpoint a (cache wb a) (checkpoints wb)\<rparr>"

definition wb_get :: "('k \<rightharpoonup> 'v) \<Rightarrow> 'k \<Rightarrow> ('k, 'v) write_back \<Rightarrow> 'v option \<times> ('k, 'v) write_back" where
  "wb_get db a wb = (case cache wb a of
     Some cached \<Rightarrow>
       (e_item cached, tick (wb\<lparr>cache := (cache wb)(a \<mapsto> cached\<lparr>touched := touched_count wb\<rparr>)\<rparr>))
   | None \<Rightarrow> (db a, wb_insert a (new_clean (touched_count wb) (db a)) (tick wb)))"

text \<open>\<open>get_mut\<close> returns a mutable reference; what the caller writes through it is \<open>f\<close>.\<close>

definition wb_get_mut :: "('k \<rightharpoonup> 'v) \<Rightarrow> 'v \<Rightarrow> 'k \<Rightarrow> ('v \<Rightarrow> 'v) \<Rightarrow> ('k, 'v) write_back \<Rightarrow>
    ('e, ('k, 'v) write_back) result" where
  "wb_get_mut db dflt a f wb =
     (let wb1 = (if cache wb a = None
                 then wb_insert a (new_clean (touched_count wb) (db a)) (tick wb) else wb);
          wb2 = wb_note a wb1 in
      rbind (expect ''entry known to exist in the cache; qed'' (cache wb2 a)) (\<lambda>e.
        let it = (case e_item e of Some i \<Rightarrow> i | None \<Rightarrow> dflt);
            e' = \<lparr>e_item = Some (f it), is_dirty = True, touched = touched_count wb2\<rparr> in
        Ok (tick (wb2\<lparr>cache := (cache wb2)(a \<mapsto> e')\<rparr>))))"

definition wb_create :: "'k \<Rightarrow> 'v \<Rightarrow> ('k, 'v) write_back \<Rightarrow> ('e, ('k, 'v) write_back) result" where
  "wb_create a it wb =
     rbind (case cache wb a of
              Some cached \<Rightarrow> rassert ''cached.item.is_none()'' (e_item cached = None)
            | None \<Rightarrow> Ok ()) (\<lambda>_.
     Ok (wb_insert a (new_dirty (touched_count wb) (Some it)) (tick wb)))"

text \<open>Each dirty entry is written to the trie and becomes clean; the entries are at
  distinct addresses, so their order does not matter.\<close>

definition wb_commit :: "('k \<rightharpoonup> 'v) \<Rightarrow> ('k, 'v) write_back \<Rightarrow> ('k \<rightharpoonup> 'v) \<times> ('k, 'v) write_back" where
  "wb_commit trie wb =
     ((\<lambda>k. case cache wb k of
         Some a \<Rightarrow> if is_dirty a then e_item a else trie k
       | None \<Rightarrow> trie k),
      wb\<lparr>cache := (\<lambda>k. map_option (\<lambda>a. if is_dirty a then a\<lparr>is_dirty := False\<rparr> else a) (cache wb k))\<rparr>)"

text \<open>One call of \<open>items()\<close>, on the entry at one address.\<close>

definition wb_item :: "'k \<Rightarrow> ('k, 'v) write_back \<Rightarrow> ('e, (nat \<times> 'k \<times> 'v option) option) result" where
  "wb_item addr wb = (case cache wb addr of
     None \<Rightarrow> Ok None
   | Some e \<Rightarrow>
       if is_dirty e then Panics ''The cache must be committed before called items''
       else Ok (Some (touched e, addr, e_item e)))"

definition wb_clone :: "('k, 'v) write_back \<Rightarrow> ('e, ('k, 'v) write_back) result" where
  "wb_clone wb = rbind (rassert ''checkpoints.len() == 0'' (length (checkpoints wb) = 0))
     (\<lambda>_. Ok wb)"

section \<open>What a cache stands for\<close>

definition wb_view :: "('k \<rightharpoonup> 'v) \<Rightarrow> ('k, 'v) write_back \<Rightarrow> 'k \<rightharpoonup> 'v" where
  "wb_view db wb k = (case cache wb k of Some e \<Rightarrow> e_item e | None \<Rightarrow> db k)"

text \<open>The view at the time a checkpoint was made, from the view after it.\<close>

definition undo :: "('k \<rightharpoonup> 'v) \<Rightarrow> ('k \<Rightarrow> 'v entry option option) \<Rightarrow> ('k \<rightharpoonup> 'v) \<Rightarrow> 'k \<rightharpoonup> 'v" where
  "undo db c v k = (case c k of
     None \<Rightarrow> v k
   | Some (Some e) \<Rightarrow> e_item e
   | Some None \<Rightarrow> db k)"

fun undo_all :: "('k \<rightharpoonup> 'v) \<Rightarrow> ('k \<Rightarrow> 'v entry option option) list \<Rightarrow> ('k \<rightharpoonup> 'v) \<Rightarrow> ('k \<rightharpoonup> 'v) list" where
  "undo_all db [] v = []"
| "undo_all db (c # cs) v = undo db c v # undo_all db cs (undo db c v)"

definition wb_snaps :: "('k \<rightharpoonup> 'v) \<Rightarrow> ('k, 'v) write_back \<Rightarrow> ('k \<rightharpoonup> 'v) list" where
  "wb_snaps db wb = undo_all db (checkpoints wb) (wb_view db wb)"

text \<open>
  The invariant: a clean entry, in the cache or saved in a checkpoint, is what the database
  has. With it, leaving a clean entry in place when reverting is the same as dropping it.
\<close>

definition clean_ok :: "('k \<rightharpoonup> 'v) \<Rightarrow> 'k \<Rightarrow> 'v entry \<Rightarrow> bool" where
  "clean_ok db k e \<longleftrightarrow> (\<not> is_dirty e \<longrightarrow> e_item e = db k)"

definition wb_inv :: "('k \<rightharpoonup> 'v) \<Rightarrow> ('k, 'v) write_back \<Rightarrow> bool" where
  "wb_inv db wb \<longleftrightarrow>
     (\<forall>k e. cache wb k = Some e \<longrightarrow> clean_ok db k e) \<and>
     (\<forall>c\<in>set (checkpoints wb). \<forall>k e. c k = Some (Some e) \<longrightarrow> clean_ok db k e)"

section \<open>Single operations\<close>

lemma write_back_eqs [simp]:
  "cache (tick wb) = cache wb" "checkpoints (tick wb) = checkpoints wb"
  by (simp_all add: tick_def)

lemma undo_upd_noted: "c a = Some x \<Longrightarrow> undo db c (v(a := y)) = undo db c v"
  by (rule ext) (auto simp: undo_def split: option.split)

lemma undo_note:
  assumes "c a = None" "v a = (case old of Some e \<Rightarrow> e_item e | None \<Rightarrow> db a)"
  shows "undo db (c(a \<mapsto> old)) (v(a := y)) = undo db c v"
  using assms by (intro ext) (simp add: undo_def split: option.splits)

lemma undo_all_note:
  assumes "v a = (case old of Some e \<Rightarrow> e_item e | None \<Rightarrow> db a)"
  shows "undo_all db (note_checkpoint a old cps) (v(a := y)) = undo_all db cps v"
proof (cases cps)
  case Nil
  then show ?thesis by (simp add: note_checkpoint_def)
next
  case (Cons c cs)
  show ?thesis
  proof (cases "c a")
    case None
    with undo_note [of c a v db old y] assms show ?thesis
      by (simp add: Cons note_checkpoint_def)
  next
    case (Some x)
    with undo_upd_noted [of c a x db v y] show ?thesis
      by (simp add: Cons note_checkpoint_def)
  qed
qed

lemma undo_merge: "undo db (c ++ prev) v = undo db prev (undo db c v)"
  by (rule ext) (simp add: undo_def map_add_def split: option.split)

lemma note_checkpoint_entries:
  assumes "c' \<in> set (note_checkpoint a old cps)" "c' k = Some (Some e)"
  shows "(k = a \<and> old = Some e) \<or> (\<exists>c\<in>set cps. c k = Some (Some e))"
  using assms
  by (auto simp: note_checkpoint_def split: list.splits option.splits if_splits)

lemma note_checkpoint_inv:
  assumes "\<forall>c\<in>set cps. \<forall>k e. c k = Some (Some e) \<longrightarrow> clean_ok db k e"
    and "\<And>e. old = Some e \<Longrightarrow> clean_ok db a e"
  shows "\<forall>c\<in>set (note_checkpoint a old cps). \<forall>k e. c k = Some (Some e) \<longrightarrow> clean_ok db k e"
  using assms by (blast dest: note_checkpoint_entries)

lemma wb_insert_dirty:
  assumes "wb_inv db wb" "is_dirty e"
  shows "wb_inv db (wb_insert a e wb)"
    and "wb_view db (wb_insert a e wb) = (wb_view db wb)(a := e_item e)"
    and "wb_snaps db (wb_insert a e wb) = wb_snaps db wb"
proof -
  show "wb_inv db (wb_insert a e wb)"
    using assms note_checkpoint_inv [of "checkpoints wb" db "cache wb a" a]
    by (auto simp: wb_inv_def wb_insert_def Let_def clean_ok_def)
  show view: "wb_view db (wb_insert a e wb) = (wb_view db wb)(a := e_item e)"
    using assms by (auto simp: wb_view_def wb_insert_def Let_def)
  have "wb_view db wb a = (case cache wb a of Some e \<Rightarrow> e_item e | None \<Rightarrow> db a)"
    by (simp add: wb_view_def)
  with assms show "wb_snaps db (wb_insert a e wb) = wb_snaps db wb"
    unfolding wb_snaps_def view by (simp add: wb_insert_def Let_def undo_all_note)
qed

lemma wb_insert_clean:
  assumes "wb_inv db wb" "\<not> is_dirty e" "cache wb a = None" "e_item e = db a"
  shows "wb_inv db (wb_insert a e wb)"
    and "wb_view db (wb_insert a e wb) = wb_view db wb"
    and "wb_snaps db (wb_insert a e wb) = wb_snaps db wb"
proof -
  show "wb_inv db (wb_insert a e wb)"
    using assms by (auto simp: wb_inv_def wb_insert_def Let_def clean_ok_def)
  show view: "wb_view db (wb_insert a e wb) = wb_view db wb"
    using assms by (auto simp: wb_view_def wb_insert_def Let_def)
  with assms show "wb_snaps db (wb_insert a e wb) = wb_snaps db wb"
    by (simp add: wb_snaps_def) (simp add: wb_insert_def Let_def)
qed

lemma wb_tick [simp]:
  "wb_inv db (tick wb) = wb_inv db wb"
  "wb_view db (tick wb) = wb_view db wb"
  "wb_snaps db (tick wb) = wb_snaps db wb"
proof -
  show "wb_inv db (tick wb) = wb_inv db wb" by (simp add: wb_inv_def)
  show view: "wb_view db (tick wb) = wb_view db wb" by (rule ext) (simp add: wb_view_def)
  show "wb_snaps db (tick wb) = wb_snaps db wb" by (simp add: wb_snaps_def view)
qed

lemma wb_get_spec:
  assumes "wb_inv db wb" "wb_get db a wb = (r, wb')"
  shows "r = wb_view db wb a \<and> wb_inv db wb' \<and> wb_view db wb' = wb_view db wb \<and>
    wb_snaps db wb' = wb_snaps db wb"
proof (cases "cache wb a")
  case None
  with assms wb_insert_clean [of db "tick wb" "new_clean (touched_count wb) (db a)" a]
  show ?thesis by (auto simp: wb_get_def new_clean_def wb_view_def)
next
  case (Some e)
  let ?wb = "wb\<lparr>cache := (cache wb)(a \<mapsto> e\<lparr>touched := touched_count wb\<rparr>)\<rparr>"
  from Some assms(2) have wb': "wb' = tick ?wb" "r = e_item e" by (auto simp: wb_get_def)
  have view: "wb_view db ?wb = wb_view db wb" using Some by (auto simp: wb_view_def)
  moreover have "wb_snaps db ?wb = wb_snaps db wb" using view by (simp add: wb_snaps_def)
  moreover have "wb_inv db ?wb" using assms(1) Some by (auto simp: wb_inv_def clean_ok_def)
  ultimately show ?thesis using Some by (simp add: wb') (simp add: wb_view_def)
qed

lemma wb_remove_spec:
  assumes "wb_inv db wb"
  shows "wb_inv db (wb_remove a wb) \<and> wb_view db (wb_remove a wb) = (wb_view db wb)(a := None) \<and>
    wb_snaps db (wb_remove a wb) = wb_snaps db wb"
  using wb_insert_dirty [of db "tick wb" "new_dirty (touched_count wb) None" a] assms
  by (simp add: wb_remove_def new_dirty_def)

lemma wb_create_spec:
  assumes "wb_inv db wb" "wb_view db wb a = None"
  shows "\<exists>wb'. wb_create a it wb = Ok wb' \<and> wb_inv db wb' \<and>
    wb_view db wb' = (wb_view db wb)(a \<mapsto> it) \<and> wb_snaps db wb' = wb_snaps db wb"
  using wb_insert_dirty [of db "tick wb" "new_dirty (touched_count wb) (Some it)" a] assms
  by (simp add: wb_create_def new_dirty_def wb_view_def split: option.splits)

text \<open>Writing through \<open>get_mut\<close>: the item, or the default where there is none, is updated.\<close>

lemma wb_note_mut:
  assumes "wb_inv db wb"
    and wb'_def: "wb' = (wb_note a wb)\<lparr>cache := (cache wb)(a \<mapsto> \<lparr>e_item = it, is_dirty = True, touched = t\<rparr>)\<rparr>"
  shows "wb_inv db wb' \<and> wb_view db wb' = (wb_view db wb)(a := it) \<and> wb_snaps db wb' = wb_snaps db wb"
proof -
  have "wb' = wb_insert a \<lparr>e_item = it, is_dirty = True, touched = t\<rparr> wb"
    by (simp add: wb'_def wb_note_def wb_insert_def Let_def)
  with wb_insert_dirty [OF assms(1), of "\<lparr>e_item = it, is_dirty = True, touched = t\<rparr>" a]
  show ?thesis by simp
qed

lemma wb_get_mut_spec:
  assumes "wb_inv db wb"
  shows "\<exists>wb'. wb_get_mut db dflt a f wb = Ok wb' \<and> wb_inv db wb' \<and>
    wb_view db wb' = (wb_view db wb)(a \<mapsto> f (case wb_view db wb a of Some i \<Rightarrow> i | None \<Rightarrow> dflt)) \<and>
    wb_snaps db wb' = wb_snaps db wb"
proof -
  define wb1 where "wb1 = (if cache wb a = None
    then wb_insert a (new_clean (touched_count wb) (db a)) (tick wb) else wb)"
  have wb1: "wb_inv db wb1" "wb_view db wb1 = wb_view db wb" "wb_snaps db wb1 = wb_snaps db wb"
    using assms wb_insert_clean [of db "tick wb" "new_clean (touched_count wb) (db a)" a]
    by (auto simp: wb1_def new_clean_def)
  obtain e where e: "cache wb1 a = Some e"
    by (cases "cache wb a") (auto simp: wb1_def wb_insert_def new_clean_def Let_def)
  then have item: "e_item e = wb_view db wb a" using wb1(2) by (metis option.simps(5) wb_view_def)
  have noted: "cache (wb_note a wb1) = cache wb1" by (simp add: wb_note_def)
  show ?thesis
    using wb_note_mut [OF wb1(1) refl] wb1
    by (simp add: wb_get_mut_def wb1_def [symmetric] noted e item) (simp add: Let_def)
qed

section \<open>The interface: a state with a stack of snapshots\<close>

locale checkpointed =
  fixes invar :: "'s \<Rightarrow> bool"
    and view :: "'s \<Rightarrow> 'a"
    and snaps :: "'s \<Rightarrow> 'a list"
    and cp :: "'s \<Rightarrow> 's"
    and discard :: "'s \<Rightarrow> 's"
    and revert :: "'s \<Rightarrow> 's"
  assumes cp_spec: "invar s \<Longrightarrow> invar (cp s) \<and> view (cp s) = view s \<and> snaps (cp s) = view s # snaps s"
    and discard_spec: "invar s \<Longrightarrow> snaps s = v # vs \<Longrightarrow>
      invar (discard s) \<and> view (discard s) = view s \<and> snaps (discard s) = vs"
    and revert_spec: "invar s \<Longrightarrow> snaps s = v # vs \<Longrightarrow>
      invar (revert s) \<and> view (revert s) = v \<and> snaps (revert s) = vs"
begin

text \<open>The pattern of the state objects: work under a checkpoint, which is discarded when
  the work succeeds and reverted to when it fails.\<close>

definition transact :: "('s, 'e, 'r) sop \<Rightarrow> ('s, 'e, 'r) sop" where
  "transact f s = (case f (cp s) of
     (Inr x, t) \<Rightarrow> (Inr x, discard t)
   | (Inl e, t) \<Rightarrow> (Inl e, revert t))"

definition balanced :: "('s, 'e, 'r) sop \<Rightarrow> bool" where
  "balanced f \<longleftrightarrow> (\<forall>s. invar s \<longrightarrow> invar (snd (f s)) \<and> snaps (snd (f s)) = snaps s)"

lemma balancedD: "balanced f \<Longrightarrow> invar s \<Longrightarrow> f s = (r, t) \<Longrightarrow> invar t \<and> snaps t = snaps s"
  unfolding balanced_def by (metis snd_conv)

lemma transact_error:
  assumes "balanced f" "invar s" "transact f s = (Inl e, t)"
  shows "invar t \<and> view t = view s \<and> snaps t = snaps s"
proof -
  obtain r u where u: "f (cp s) = (r, u)" by force
  have "invar u \<and> snaps u = view s # snaps s"
    using balancedD [OF assms(1) _ u] cp_spec [OF assms(2)] by simp
  moreover have "t = revert u" using assms(3) u by (cases r) (simp_all add: transact_def)
  ultimately show ?thesis using revert_spec by blast
qed

lemma transact_ok:
  assumes "balanced f" "invar s" "transact f s = (Inr x, t)"
  obtains u where "f (cp s) = (Inr x, u)" "invar t" "view t = view u" "snaps t = snaps s"
proof -
  obtain r u where u: "f (cp s) = (r, u)" by force
  have "invar u \<and> snaps u = view s # snaps s"
    using balancedD [OF assms(1) _ u] cp_spec [OF assms(2)] by simp
  moreover have "t = discard u" "r = Inr x"
    using assms(3) u by (cases r; simp add: transact_def)+
  ultimately show ?thesis using that u discard_spec by blast
qed

lemma transact_balanced:
  assumes "balanced f"
  shows "balanced (transact f)"
  unfolding balanced_def
proof (intro allI impI)
  fix s
  assume s: "invar s"
  obtain r t where t: "transact f s = (r, t)" by force
  show "invar (snd (transact f s)) \<and> snaps (snd (transact f s)) = snaps s"
  proof (cases r)
    case (Inl e)
    then show ?thesis using transact_error [OF assms s] t by simp
  next
    case (Inr x)
    then show ?thesis using transact_ok [OF assms s] t by (metis snd_conv)
  qed
qed

end

lemma wb_checkpoint_spec:
  assumes "wb_inv db wb"
  shows "wb_inv db (wb_checkpoint wb) \<and> wb_view db (wb_checkpoint wb) = wb_view db wb \<and>
    wb_snaps db (wb_checkpoint wb) = wb_view db wb # wb_snaps db wb"
proof -
  have view: "wb_view db (wb_checkpoint wb) = wb_view db wb"
    by (rule ext) (simp add: wb_view_def wb_checkpoint_def)
  have "undo db Map.empty v = v" for v :: "'a \<rightharpoonup> 'b" by (rule ext) (simp add: undo_def)
  then show ?thesis
    using assms view by (auto simp: wb_snaps_def wb_inv_def wb_checkpoint_def)
qed

lemma wb_discard_spec:
  assumes "wb_inv db wb" "wb_snaps db wb = v # vs"
  shows "wb_inv db (wb_discard_checkpoint wb) \<and>
    wb_view db (wb_discard_checkpoint wb) = wb_view db wb \<and>
    wb_snaps db (wb_discard_checkpoint wb) = vs"
proof -
  have cache: "cache (wb_discard_checkpoint wb) = cache wb"
    by (simp add: wb_discard_checkpoint_def split: list.split)
  then have view: "wb_view db (wb_discard_checkpoint wb) = wb_view db wb"
    by (intro ext) (simp add: wb_view_def)
  obtain c cs where c: "checkpoints wb = c # cs"
    using assms(2) by (cases "checkpoints wb") (auto simp: wb_snaps_def)
  have "wb_snaps db (wb_discard_checkpoint wb) = vs"
    using assms(2) c view
    by (cases cs) (auto simp: wb_snaps_def wb_discard_checkpoint_def undo_merge)
  moreover have "wb_inv db (wb_discard_checkpoint wb)"
    using assms(1) c cache
    by (cases cs) (auto simp: wb_inv_def wb_discard_checkpoint_def map_add_Some_iff)
  ultimately show ?thesis using view by simp
qed

lemma wb_revert_spec:
  assumes "wb_inv db wb" "wb_snaps db wb = v # vs"
  shows "wb_inv db (wb_revert_to_checkpoint wb) \<and>
    wb_view db (wb_revert_to_checkpoint wb) = v \<and>
    wb_snaps db (wb_revert_to_checkpoint wb) = vs"
proof -
  obtain c cs where c: "checkpoints wb = c # cs"
    using assms(2) by (cases "checkpoints wb") (auto simp: wb_snaps_def)
  have v: "v = undo db c (wb_view db wb)" "vs = undo_all db cs v"
    using assms(2) c by (auto simp: wb_snaps_def)
  have cps: "checkpoints (wb_revert_to_checkpoint wb) = cs"
    by (simp add: wb_revert_to_checkpoint_def c)
  have "wb_view db (wb_revert_to_checkpoint wb) k = v k" for k
    using assms(1) c v(1)
    by (auto simp: wb_view_def wb_revert_to_checkpoint_def undo_def wb_inv_def clean_ok_def
        split: option.split)
  then have view: "wb_view db (wb_revert_to_checkpoint wb) = v" by (rule ext)
  moreover have "wb_inv db (wb_revert_to_checkpoint wb)"
    using assms(1) c
    by (fastforce simp: wb_inv_def wb_revert_to_checkpoint_def split: option.splits if_splits)
  ultimately show ?thesis using v cps by (simp add: wb_snaps_def)
qed

interpretation wb: checkpointed "wb_inv db" "wb_view db" "wb_snaps db"
    wb_checkpoint wb_discard_checkpoint wb_revert_to_checkpoint for db
  by unfold_locales
    (erule wb_checkpoint_spec, erule (1) wb_discard_spec, erule (1) wb_revert_spec)

section \<open>Commit\<close>

lemma committed_clean [simp]: "\<not> is_dirty (if is_dirty e then e\<lparr>is_dirty := False\<rparr> else e)"
  by simp

lemma wb_commit_spec:
  assumes "wb_inv db wb" "checkpoints wb = []" "wb_commit db wb = (db', wb')"
  shows "db' = wb_view db wb \<and> wb_inv db' wb' \<and> wb_view db' wb' = wb_view db wb \<and>
    (\<forall>k e. cache wb' k = Some e \<longrightarrow> \<not> is_dirty e)"
proof -
  have "fst (wb_commit db wb) k = wb_view db wb k" for k
    using assms(1) by (auto simp: wb_commit_def wb_view_def wb_inv_def clean_ok_def
        split: option.split)
  then have db': "db' = wb_view db wb" using assms(3) by auto
  moreover have "wb_view db' wb' = wb_view db wb"
    using assms(3) db' by (auto simp: wb_commit_def wb_view_def fun_eq_iff split: option.split)
  moreover have "wb_inv db' wb'"
    using assms(2,3) db' by (auto simp: wb_commit_def wb_view_def wb_inv_def clean_ok_def)
  moreover have "\<forall>k e. cache wb' k = Some e \<longrightarrow> \<not> is_dirty e"
    using assms(3) committed_clean by (fastforce simp: wb_commit_def)
  ultimately show ?thesis by simp
qed

lemma wb_new_spec: "wb_inv db (wb_new t) \<and> wb_view db (wb_new t) = db \<and> wb_snaps db (wb_new t) = []"
  by (auto simp: wb_inv_def wb_new_def wb_view_def wb_snaps_def)

lemma insert_enumerated_spec:
  assumes "wb_inv db wb" "wb_view db wb = db" "checkpoints wb = []"
    and "\<forall>(a, it)\<in>set items. db a = Some it"
  shows "wb_inv db (insert_enumerated t items wb) \<and> wb_view db (insert_enumerated t items wb) = db \<and>
    checkpoints (insert_enumerated t items wb) = []"
  using assms
proof (induction t items wb rule: insert_enumerated.induct)
  case (1 t wb)
  then show ?case by simp
next
  case (2 t addr it items wb)
  let ?wb = "wb_insert addr (new_clean t (Some it)) wb"
  have "db addr = Some it" using 2(5) by simp
  then have "wb_inv db ?wb" "wb_view db ?wb = db" "checkpoints ?wb = []"
    using 2(2-4) by (auto simp: wb_inv_def wb_insert_def new_clean_def clean_ok_def wb_view_def Let_def
        fun_eq_iff)
  with 2(1) 2(5) show ?case by simp
qed

section \<open>Sequences of operations\<close>

datatype ('k, 'v) wb_op =
    OpGet 'k | OpModify 'k "'v \<Rightarrow> 'v" | OpCreate 'k 'v | OpRemove 'k
  | OpCheckpoint | OpDiscard | OpRevert

text \<open>The operations on the cache; what a read returns is recorded.\<close>

fun wb_step :: "('k \<rightharpoonup> 'v) \<Rightarrow> 'v \<Rightarrow> ('k, 'v) wb_op \<Rightarrow> ('k, 'v) write_back \<times> 'v option list \<Rightarrow>
    ('e, ('k, 'v) write_back \<times> 'v option list) result" where
  "wb_step db dflt (OpGet a) (wb, out) = (let (r, wb') = wb_get db a wb in Ok (wb', out @ [r]))"
| "wb_step db dflt (OpModify a f) (wb, out) =
     rbind (wb_get_mut db dflt a f wb) (\<lambda>wb'. Ok (wb', out))"
| "wb_step db dflt (OpCreate a it) (wb, out) = rbind (wb_create a it wb) (\<lambda>wb'. Ok (wb', out))"
| "wb_step db dflt (OpRemove a) (wb, out) = Ok (wb_remove a wb, out)"
| "wb_step db dflt OpCheckpoint (wb, out) = Ok (wb_checkpoint wb, out)"
| "wb_step db dflt OpDiscard (wb, out) = Ok (wb_discard_checkpoint wb, out)"
| "wb_step db dflt OpRevert (wb, out) = Ok (wb_revert_to_checkpoint wb, out)"

text \<open>The same operations on a plain map with a stack of snapshots; creating an item that
  exists is excluded.\<close>

fun spec_step :: "'v \<Rightarrow> ('k, 'v) wb_op \<Rightarrow> ('k \<rightharpoonup> 'v) \<times> ('k \<rightharpoonup> 'v) list \<times> 'v option list \<Rightarrow>
    (('k \<rightharpoonup> 'v) \<times> ('k \<rightharpoonup> 'v) list \<times> 'v option list) option" where
  "spec_step dflt (OpGet a) (m, ss, out) = Some (m, ss, out @ [m a])"
| "spec_step dflt (OpModify a f) (m, ss, out) =
     Some (m(a \<mapsto> f (case m a of Some i \<Rightarrow> i | None \<Rightarrow> dflt)), ss, out)"
| "spec_step dflt (OpCreate a it) (m, ss, out) =
     (if m a = None then Some (m(a \<mapsto> it), ss, out) else None)"
| "spec_step dflt (OpRemove a) (m, ss, out) = Some (m(a := None), ss, out)"
| "spec_step dflt OpCheckpoint (m, ss, out) = Some (m, m # ss, out)"
| "spec_step dflt OpDiscard (m, ss, out) = Some (m, tl ss, out)"
| "spec_step dflt OpRevert (m, ss, out) = Some (case ss of [] \<Rightarrow> m | s # _ \<Rightarrow> s, tl ss, out)"

fun spec_run :: "'v \<Rightarrow> ('k, 'v) wb_op list \<Rightarrow> ('k \<rightharpoonup> 'v) \<times> ('k \<rightharpoonup> 'v) list \<times> 'v option list \<Rightarrow>
    (('k \<rightharpoonup> 'v) \<times> ('k \<rightharpoonup> 'v) list \<times> 'v option list) option" where
  "spec_run dflt [] s = Some s"
| "spec_run dflt (op # ops) s = (case spec_step dflt op s of None \<Rightarrow> None | Some t \<Rightarrow> spec_run dflt ops t)"

lemma wb_snaps_Nil: "wb_snaps db wb = [] \<longleftrightarrow> checkpoints wb = []"
  by (cases "checkpoints wb") (auto simp: wb_snaps_def)

lemma wb_step_refines:
  assumes "wb_inv db wb" "spec_step dflt op (wb_view db wb, wb_snaps db wb, out) = Some (m, ss, out')"
  shows "\<exists>wb'. (wb_step db dflt op (wb, out) :: ('e, _) result) = Ok (wb', out') \<and> wb_inv db wb' \<and>
    wb_view db wb' = m \<and> wb_snaps db wb' = ss"
proof (cases op)
  case (OpGet a)
  then show ?thesis
    using assms wb_get_spec [OF assms(1)] by (cases "wb_get db a wb") auto
next
  case (OpModify a f)
  obtain wb' where "(wb_get_mut db dflt a f wb :: ('e, _) result) = Ok wb'" "wb_inv db wb'"
    "wb_view db wb' = m" "wb_snaps db wb' = ss" "out' = out"
    using OpModify assms(2) wb_get_mut_spec [OF assms(1), of dflt a f] by auto
  with OpModify show ?thesis by simp
next
  case (OpCreate a it)
  obtain wb' where "(wb_create a it wb :: ('e, _) result) = Ok wb'" "wb_inv db wb'"
    "wb_view db wb' = m" "wb_snaps db wb' = ss" "out' = out"
    using OpCreate assms(2) wb_create_spec [OF assms(1), of a it] by (auto split: if_splits)
  with OpCreate show ?thesis by simp
next
  case (OpRemove a)
  then show ?thesis using assms wb_remove_spec [OF assms(1)] by auto
next
  case OpCheckpoint
  then show ?thesis using assms wb_checkpoint_spec [OF assms(1)] by auto
next
  case OpDiscard
  show ?thesis
  proof (cases "wb_snaps db wb")
    case Nil
    moreover from this have "checkpoints wb = []" by (simp add: wb_snaps_Nil)
    ultimately show ?thesis using OpDiscard assms by (simp add: wb_discard_checkpoint_def)
  next
    case (Cons v vs)
    then show ?thesis using OpDiscard assms wb_discard_spec [OF assms(1) Cons] by auto
  qed
next
  case OpRevert
  show ?thesis
  proof (cases "wb_snaps db wb")
    case Nil
    moreover from this have "checkpoints wb = []" by (simp add: wb_snaps_Nil)
    ultimately show ?thesis using OpRevert assms by (simp add: wb_revert_to_checkpoint_def)
  next
    case (Cons v vs)
    then show ?thesis using OpRevert assms wb_revert_spec [OF assms(1) Cons] by auto
  qed
qed

lemma wb_run_refines:
  assumes "wb_inv db wb" "spec_run dflt ops (wb_view db wb, wb_snaps db wb, out) = Some (m, ss, out')"
  shows "\<exists>wb'. (rfold (wb_step db dflt) ops (wb, out) :: ('e, _) result) = Ok (wb', out') \<and>
    wb_inv db wb' \<and> wb_view db wb' = m \<and> wb_snaps db wb' = ss"
  using assms
proof (induction ops arbitrary: wb out)
  case Nil
  then show ?case by simp
next
  case (Cons op ops)
  obtain m1 ss1 out1 where one:
    "spec_step dflt op (wb_view db wb, wb_snaps db wb, out) = Some (m1, ss1, out1)"
    and rest: "spec_run dflt ops (m1, ss1, out1) = Some (m, ss, out')"
    using Cons.prems(2) by (auto split: option.splits)
  obtain wb1 where wb1: "(wb_step db dflt op (wb, out) :: ('e, _) result) = Ok (wb1, out1)"
    "wb_inv db wb1" "wb_view db wb1 = m1" "wb_snaps db wb1 = ss1"
    using wb_step_refines [OF Cons.prems(1) one] by blast
  from Cons.IH [of wb1 out1] wb1 rest show ?case by simp
qed

text \<open>
  C6: a write-back cache over a database behaves, under any interleaving of reads, writes,
  creations, removals and nested checkpoints, like one plain map with a stack of snapshots:
  no operation panics, every read returns what the map has, and at the end the cache shows
  the map and its checkpoints the snapshots. Creating an item that already exists is the
  one excluded use.
\<close>

theorem write_back_refines_map:
  assumes "spec_run dflt ops (db, [], []) = Some (m, ss, out)"
  shows "\<exists>wb. (rfold (wb_step db dflt) ops (wb_new t, []) :: ('e, _) result) = Ok (wb, out) \<and>
    wb_inv db wb \<and> wb_view db wb = m \<and> wb_snaps db wb = ss"
  using wb_run_refines [of db "wb_new t" dflt ops "[]"] wb_new_spec [of db t] assms by simp

theorem write_back_refines_map_witness:
  "\<exists>wb. (rfold (wb_step [1 \<mapsto> 10] 0)
       [OpCheckpoint, OpModify 1 (\<lambda>v. v + 5), OpCreate 2 7, OpGet 1, OpRevert, OpGet 1, OpGet 2]
       (wb_new 0, []) :: (unit, _) result) = Ok (wb, [Some (15::nat), Some 10, None]) \<and>
     wb_inv [1 \<mapsto> 10] wb \<and> wb_view [1 \<mapsto> 10] wb = [(1::nat) \<mapsto> 10] \<and> wb_snaps [1 \<mapsto> 10] wb = []"
  by (rule write_back_refines_map) simp

text \<open>
  Committing a cache without open checkpoints writes exactly its view to the database and
  leaves the cache with the same view over the new database and no dirty entry, so listing
  its items cannot hit the \<open>unreachable!\<close> of \<open>items\<close>.
\<close>

theorem write_back_commit:
  assumes "wb_inv db wb" "checkpoints wb = []" "wb_commit db wb = (db', wb')"
  shows "db' = wb_view db wb \<and> wb_inv db' wb' \<and> wb_view db' wb' = wb_view db wb \<and>
    wb_item k wb' \<noteq> Panics p"
  using wb_commit_spec [OF assms] by (auto simp: wb_item_def split: option.split)

theorem write_back_commit_witness:
  "fst (wb_commit [1 \<mapsto> 10] (wb_remove 1 (wb_new 0 :: (nat, nat) write_back))) = Map.empty"
proof -
  let ?db = "[1 \<mapsto> 10] :: nat \<rightharpoonup> nat"
  let ?wb = "wb_remove 1 (wb_new 0 :: (nat, nat) write_back)"
  have inv: "wb_inv ?db ?wb" and view: "wb_view ?db ?wb = Map.empty"
    using wb_remove_spec [of ?db "wb_new 0" 1] wb_new_spec [of ?db 0] by auto
  have cps: "checkpoints ?wb = []"
    by (simp add: wb_remove_def wb_new_def wb_insert_def new_dirty_def note_checkpoint_def Let_def)
  have "fst (wb_commit ?db ?wb) = wb_view ?db ?wb"
    by (rule write_back_commit [OF inv cps, THEN conjunct1]) (rule surjective_pairing)
  from this view show ?thesis by (rule trans)
qed

section \<open>Several caches under common checkpoints\<close>

text \<open>Two states whose checkpoints are made and undone together are again such a state.\<close>

locale checkpointed_pair =
  A: checkpointed invarA viewA snapsA cpA discardA revertA +
  B: checkpointed invarB viewB snapsB cpB discardB revertB
  for invarA :: "'s \<Rightarrow> bool" and viewA :: "'s \<Rightarrow> 'a" and snapsA cpA discardA revertA
    and invarB :: "'t \<Rightarrow> bool" and viewB :: "'t \<Rightarrow> 'b" and snapsB cpB discardB revertB
begin

definition pair_invar :: "'s \<times> 't \<Rightarrow> bool" where
  "pair_invar = (\<lambda>(s, t). invarA s \<and> invarB t \<and> length (snapsA s) = length (snapsB t))"

definition pair_snaps :: "'s \<times> 't \<Rightarrow> ('a \<times> 'b) list" where
  "pair_snaps = (\<lambda>(s, t). zip (snapsA s) (snapsB t))"

lemma pair_snaps_Cons:
  assumes "pair_invar st" "pair_snaps st = v # vs"
  obtains s t a as b bs where "st = (s, t)" "snapsA s = a # as" "snapsB t = b # bs"
    "v = (a, b)" "vs = zip as bs" "length as = length bs" "invarA s" "invarB t"
proof -
  obtain s t where st: "st = (s, t)" by (cases st)
  from assms show ?thesis
    by (cases "snapsA s"; cases "snapsB t") (auto simp: pair_invar_def pair_snaps_def st intro: that)
qed

sublocale pair: checkpointed pair_invar "map_prod viewA viewB" pair_snaps
    "map_prod cpA cpB" "map_prod discardA discardB" "map_prod revertA revertB"
proof
  fix st
  assume "pair_invar st"
  then show "pair_invar (map_prod cpA cpB st) \<and>
      map_prod viewA viewB (map_prod cpA cpB st) = map_prod viewA viewB st \<and>
      pair_snaps (map_prod cpA cpB st) = map_prod viewA viewB st # pair_snaps st"
    using A.cp_spec B.cp_spec by (cases st) (simp add: pair_invar_def pair_snaps_def)
next
  fix st v vs
  assume *: "pair_invar st" "pair_snaps st = v # vs"
  then show "pair_invar (map_prod discardA discardB st) \<and>
      map_prod viewA viewB (map_prod discardA discardB st) = map_prod viewA viewB st \<and>
      pair_snaps (map_prod discardA discardB st) = vs"
    by (elim pair_snaps_Cons)
      (use * A.discard_spec B.discard_spec in \<open>auto simp: pair_invar_def pair_snaps_def\<close>)
  show "pair_invar (map_prod revertA revertB st) \<and>
      map_prod viewA viewB (map_prod revertA revertB st) = v \<and>
      pair_snaps (map_prod revertA revertB st) = vs"
    using * by (elim pair_snaps_Cons)
      (use * A.revert_spec B.revert_spec in \<open>auto simp: pair_invar_def pair_snaps_def\<close>)
qed

end

text \<open>The cache of a shard: its asset schemes and its assets.\<close>

type_synonym ('sk, 'sv, 'ak, 'av) shard_cache = "('sk, 'sv) write_back \<times> ('ak, 'av) write_back"

definition shard_cache_checkpoint :: "('sk, 'sv, 'ak, 'av) shard_cache \<Rightarrow> ('sk, 'sv, 'ak, 'av) shard_cache" where
  "shard_cache_checkpoint = map_prod wb_checkpoint wb_checkpoint"

definition shard_cache_discard :: "('sk, 'sv, 'ak, 'av) shard_cache \<Rightarrow> ('sk, 'sv, 'ak, 'av) shard_cache" where
  "shard_cache_discard = map_prod wb_discard_checkpoint wb_discard_checkpoint"

definition shard_cache_revert :: "('sk, 'sv, 'ak, 'av) shard_cache \<Rightarrow> ('sk, 'sv, 'ak, 'av) shard_cache" where
  "shard_cache_revert = map_prod wb_revert_to_checkpoint wb_revert_to_checkpoint"

interpretation sc: checkpointed_pair
    "wb_inv dbs" "wb_view dbs" "wb_snaps dbs" wb_checkpoint wb_discard_checkpoint wb_revert_to_checkpoint
    "wb_inv dba" "wb_view dba" "wb_snaps dba" wb_checkpoint wb_discard_checkpoint wb_revert_to_checkpoint
  for dbs dba
  by unfold_locales

definition cache_pair_view :: "('sk \<rightharpoonup> 'sv) \<Rightarrow> ('ak \<rightharpoonup> 'av) \<Rightarrow> ('sk, 'sv, 'ak, 'av) shard_cache \<Rightarrow>
    ('sk \<rightharpoonup> 'sv) \<times> ('ak \<rightharpoonup> 'av)" where
  "cache_pair_view dbs dba = map_prod (wb_view dbs) (wb_view dba)"

definition shard_cache_inv :: "('sk \<rightharpoonup> 'sv) \<Rightarrow> ('ak \<rightharpoonup> 'av) \<Rightarrow> ('sk, 'sv, 'ak, 'av) shard_cache \<Rightarrow> bool" where
  "shard_cache_inv dbs dba c \<longleftrightarrow> wb_inv dbs (fst c) \<and> wb_inv dba (snd c) \<and>
     length (wb_snaps dbs (fst c)) = length (wb_snaps dba (snd c))"

definition shard_cache_snaps :: "('sk \<rightharpoonup> 'sv) \<Rightarrow> ('ak \<rightharpoonup> 'av) \<Rightarrow> ('sk, 'sv, 'ak, 'av) shard_cache \<Rightarrow>
    (('sk \<rightharpoonup> 'sv) \<times> ('ak \<rightharpoonup> 'av)) list" where
  "shard_cache_snaps dbs dba c = zip (wb_snaps dbs (fst c)) (wb_snaps dba (snd c))"

lemma shard_cache_unfold:
  "shard_cache_inv dbs dba = sc.pair_invar dbs dba"
  "shard_cache_snaps dbs dba = sc.pair_snaps dbs dba"
  by (auto simp: fun_eq_iff shard_cache_inv_def shard_cache_snaps_def sc.pair_invar_def
      sc.pair_snaps_def)

interpretation shard_cache: checkpointed "shard_cache_inv dbs dba" "cache_pair_view dbs dba"
    "shard_cache_snaps dbs dba" shard_cache_checkpoint shard_cache_discard shard_cache_revert
  for dbs dba
  unfolding shard_cache_unfold cache_pair_view_def shard_cache_checkpoint_def
    shard_cache_discard_def shard_cache_revert_def
  by (rule sc.pair.checkpointed_axioms)

end
