(* ===== verification/BTree_Collections.thy ===== *)
theory BTree_Collections
  imports CC_Prelude
begin

text \<open>
  \<open>BTreeMap\<close> and \<open>BTreeSet\<close> of the Rust standard library, as the strictly increasing lists
  their iterators yield. \<open>ordered_map\<close> is the interface the stake components use them
  through, with the fact that carries their accounting: updating one entry of a map of
  quantities changes the total by the change of that entry.
\<close>

section \<open>Maps\<close>

type_synonym ('k, 'v) btree_map = "('k \<times> 'v) list"

definition bmap_inv :: "('k::linorder, 'v) btree_map \<Rightarrow> bool" where
  "bmap_inv m \<longleftrightarrow> sorted_wrt (<) (map fst m)"

definition bmap_get :: "('k, 'v) btree_map \<Rightarrow> 'k \<rightharpoonup> 'v" where
  "bmap_get m = map_of m"

fun bmap_insert :: "'k::linorder \<Rightarrow> 'v \<Rightarrow> ('k, 'v) btree_map \<Rightarrow> ('k, 'v) btree_map" where
  "bmap_insert k v [] = [(k, v)]"
| "bmap_insert k v ((k', v') # m) =
     (if k < k' then (k, v) # (k', v') # m
      else if k = k' then (k, v) # m
      else (k', v') # bmap_insert k v m)"

fun bmap_remove :: "'k \<Rightarrow> ('k, 'v) btree_map \<Rightarrow> ('k, 'v) btree_map" where
  "bmap_remove k [] = []"
| "bmap_remove k ((k', v') # m) = (if k = k' then m else (k', v') # bmap_remove k m)"

definition bmap_of_list :: "('k::linorder \<times> 'v) list \<Rightarrow> ('k, 'v) btree_map" where
  "bmap_of_list kvs = foldl (\<lambda>m (k, v). bmap_insert k v m) [] kvs"

lemma bmap_inv_Nil [simp]: "bmap_inv []"
  by (simp add: bmap_inv_def)

lemma bmap_get_Nil [simp]: "bmap_get [] = Map.empty"
  by (simp add: bmap_get_def)

lemma bmap_inv_Cons: "bmap_inv ((k, v) # m) \<longleftrightarrow> (\<forall>k'\<in>fst ` set m. k < k') \<and> bmap_inv m"
  by (auto simp: bmap_inv_def)

lemma keys_bmap_insert: "fst ` set (bmap_insert k v m) = insert k (fst ` set m)"
  by (induction k v m rule: bmap_insert.induct) auto

lemma keys_bmap_remove: "fst ` set (bmap_remove k m) \<subseteq> fst ` set m"
  by (induction k m rule: bmap_remove.induct) auto

lemma bmap_insert_inv [simp]: "bmap_inv m \<Longrightarrow> bmap_inv (bmap_insert k v m)"
  by (induction k v m rule: bmap_insert.induct) (auto simp: bmap_inv_Cons keys_bmap_insert)

lemma bmap_remove_inv [simp]: "bmap_inv m \<Longrightarrow> bmap_inv (bmap_remove k m)"
  by (induction k m rule: bmap_remove.induct)
    (use keys_bmap_remove in \<open>fastforce simp: bmap_inv_Cons\<close>)+

lemma bmap_get_fresh: "k \<notin> fst ` set m \<Longrightarrow> bmap_get m k = None"
  by (force simp: bmap_get_def map_of_eq_None_iff)

lemma bmap_get_insert [simp]: "bmap_inv m \<Longrightarrow> bmap_get (bmap_insert k v m) = (bmap_get m)(k \<mapsto> v)"
  by (induction k v m rule: bmap_insert.induct) (auto simp: bmap_get_def bmap_inv_Cons)

lemma bmap_get_remove [simp]: "bmap_inv m \<Longrightarrow> bmap_get (bmap_remove k m) = (bmap_get m)(k := None)"
proof (induction k m rule: bmap_remove.induct)
  case (1 k)
  then show ?case by simp
next
  case (2 k k' v' m)
  then have "bmap_get m k' = None" by (intro bmap_get_fresh) (auto simp: bmap_inv_Cons)
  with 2 show ?case by (auto simp: bmap_get_def bmap_inv_Cons)
qed

lemma bmap_get_in: "bmap_inv m \<Longrightarrow> (k, v) \<in> set m \<longleftrightarrow> bmap_get m k = Some v"
proof -
  assume "bmap_inv m"
  then have "distinct (map fst m)" unfolding bmap_inv_def
    by (metis strict_sorted_iff)
  then show ?thesis by (simp add: bmap_get_def)
qed

lemma bmap_by_keys:
  assumes "bmap_inv m"
  shows "m = map (\<lambda>k. (k, the (bmap_get m k))) (map fst m)"
proof -
  have "(fst kv, the (bmap_get m (fst kv))) = kv" if "kv \<in> set m" for kv
    using bmap_get_in [OF assms, of "fst kv" "snd kv"] that by simp
  then show ?thesis by (simp add: map_idI)
qed

lemma bmap_keys: "set (map fst m) = dom (bmap_get m)"
  by (simp add: bmap_get_def dom_map_of_conv_image_fst)

lemma bmap_ext:
  assumes "bmap_inv m" "bmap_inv m'" "bmap_get m = bmap_get m'"
  shows "m = m'"
proof -
  have "map fst m = map fst m'"
    using assms bmap_keys [of m] bmap_keys [of m'] strict_sorted_equal
    unfolding bmap_inv_def by metis
  then show ?thesis using bmap_by_keys [OF assms(1)] bmap_by_keys [OF assms(2)] assms(3) by metis
qed

section \<open>The interface of an ordered map of quantities\<close>

locale ordered_map =
  fixes invar :: "'m \<Rightarrow> bool"
    and get :: "'m \<Rightarrow> 'k \<Rightarrow> u64 option"
    and put :: "'k \<Rightarrow> u64 \<Rightarrow> 'm \<Rightarrow> 'm"
    and del :: "'k \<Rightarrow> 'm \<Rightarrow> 'm"
    and total :: "'m \<Rightarrow> nat"
  assumes put_invar: "invar m \<Longrightarrow> invar (put k v m)"
    and del_invar: "invar m \<Longrightarrow> invar (del k m)"
    and get_put: "invar m \<Longrightarrow> get (put k v m) = (get m)(k \<mapsto> v)"
    and get_del: "invar m \<Longrightarrow> get (del k m) = (get m)(k := None)"
    and total_put: "invar m \<Longrightarrow>
      total (put k v m) + (case get m k of None \<Rightarrow> 0 | Some w \<Rightarrow> unat w) = total m + unat v"
    and total_del: "invar m \<Longrightarrow>
      total (del k m) + (case get m k of None \<Rightarrow> 0 | Some w \<Rightarrow> unat w) = total m"
begin

text \<open>\<open>*entry(k).or_insert(0) += q\<close> where nothing overflows.\<close>

lemma total_add_entry:
  assumes "invar m" "total m + unat q < 2 ^ 64"
  shows "total (put k ((case get m k of None \<Rightarrow> 0 | Some w \<Rightarrow> w) + q) m) = total m + unat q"
proof -
  let ?old = "case get m k of None \<Rightarrow> 0 | Some w \<Rightarrow> w"
  have old: "(case get m k of None \<Rightarrow> 0 | Some w \<Rightarrow> unat w) = unat ?old"
    by (simp split: option.split)
  have "unat ?old \<le> total m" using total_del [OF assms(1), of k] by (simp add: old)
  then have "unat (?old + q) = unat ?old + unat q"
    using assms(2) by (simp add: unat_word_ariths)
  with total_put [OF assms(1), of k "?old + q"] show ?thesis by (simp add: old)
qed

text \<open>Taking \<open>q\<close> out of an entry that has at least that much.\<close>

lemma total_sub_entry:
  assumes "invar m" "get m k = Some w" "q \<le> w"
  shows "total (put k (w - q) m) + unat q = total m"
proof -
  have "unat (w - q) = unat w - unat q" "unat q \<le> unat w"
    using assms(3) by (simp_all add: unat_sub_if' word_le_nat_alt)
  with total_put [OF assms(1), of k "w - q"] assms(2) show ?thesis by simp
qed

lemma total_del_entry:
  assumes "invar m" "get m k = Some w"
  shows "total (del k m) + unat w = total m"
  using total_del [OF assms(1), of k] assms(2) by simp

lemma get_le_total:
  assumes "invar m" "get m k = Some w"
  shows "unat w \<le> total m"
  using total_del_entry [OF assms] by simp

end

definition bmap_total :: "('k, u64) btree_map \<Rightarrow> nat" where
  "bmap_total m = sum_list (map (unat \<circ> snd) m)"

text \<open>\<open>values().sum()\<close> on \<open>u64\<close>.\<close>

definition bmap_sum :: "('k, u64) btree_map \<Rightarrow> u64" where
  "bmap_sum m = sum_list (map snd m)"

lemma bmap_total_simps [simp]:
  "bmap_total [] = 0" "bmap_total ((k, v) # m) = unat v + bmap_total m"
  by (simp_all add: bmap_total_def)

lemma bmap_total_as_sum:
  assumes "bmap_inv m"
  shows "bmap_total m = (\<Sum>k\<in>set (map fst m). unat (the (bmap_get m k)))"
proof -
  have "bmap_total m = (\<Sum>k\<leftarrow>map fst m. unat (the (bmap_get m k)))"
    by (subst bmap_by_keys [OF assms]) (simp add: bmap_total_def o_def)
  also have "\<dots> = (\<Sum>k\<in>set (map fst m). unat (the (bmap_get m k)))"
    using assms by (intro sum_list_distinct_conv_sum_set) (simp add: bmap_inv_def strict_sorted_iff)
  finally show ?thesis .
qed

lemma bmap_sum_unat: "bmap_total m < 2 ^ 64 \<Longrightarrow> unat (bmap_sum m) = bmap_total m"
  using unat_sum_list_le [of "map snd m"] by (simp add: bmap_sum_def bmap_total_def)

lemma bmap_total_insert:
  "bmap_inv m \<Longrightarrow>
     bmap_total (bmap_insert k v m) + (case bmap_get m k of None \<Rightarrow> 0 | Some w \<Rightarrow> unat w) =
     bmap_total m + unat v"
proof (induction k v m rule: bmap_insert.induct)
  case (1 k v)
  then show ?case by simp
next
  case (2 k v k' v' m)
  have fresh: "bmap_get m k = None" if "k < k'"
    using 2(2) that by (intro bmap_get_fresh) (auto simp: bmap_inv_Cons)
  have eq: "bmap_get ((k', v') # m) k = (if k = k' then Some v' else bmap_get m k)"
    by (simp add: bmap_get_def)
  show ?case
    using 2 fresh by (auto simp: eq bmap_inv_Cons)
qed

lemma bmap_total_remove:
  "bmap_inv m \<Longrightarrow>
     bmap_total (bmap_remove k m) + (case bmap_get m k of None \<Rightarrow> 0 | Some w \<Rightarrow> unat w) =
     bmap_total m"
  by (induction k m rule: bmap_remove.induct) (auto simp: bmap_inv_Cons bmap_get_def)

interpretation bmap: ordered_map bmap_inv bmap_get bmap_insert bmap_remove bmap_total
  by unfold_locales (simp_all add: bmap_total_insert bmap_total_remove)

section \<open>Mapped values and rebuilt maps\<close>

lemma bmap_insert_map:
  "map (map_prod id f) (bmap_insert k v m) = bmap_insert k (f v) (map (map_prod id f) m)"
  by (induction k v m rule: bmap_insert.induct) auto

lemma bmap_remove_map:
  "map (map_prod id f) (bmap_remove k m) = bmap_remove k (map (map_prod id f) m)"
  by (induction k m rule: bmap_remove.induct) auto

lemma bmap_get_map: "bmap_get (map (map_prod id f) m) k = map_option f (bmap_get m k)"
  by (induction m) (auto simp: bmap_get_def)

lemma bmap_inv_map [simp]: "bmap_inv (map (map_prod id f) m) = bmap_inv m"
  by (simp add: bmap_inv_def)

lemma bmap_insert_last:
  "\<forall>k'\<in>fst ` set m. k' < k \<Longrightarrow> bmap_insert k v m = m @ [(k, v)]"
  by (induction k v m rule: bmap_insert.induct) auto

lemma foldl_insert_sorted:
  "bmap_inv (m @ kvs) \<Longrightarrow> foldl (\<lambda>m (k, v). bmap_insert k v m) m kvs = m @ kvs"
proof (induction kvs arbitrary: m)
  case Nil
  then show ?case by simp
next
  case (Cons kv kvs)
  have "\<forall>k'\<in>fst ` set m. k' < fst kv"
    using Cons.prems by (auto simp: bmap_inv_def sorted_wrt_append)
  then have "bmap_insert (fst kv) (snd kv) m = m @ [kv]" by (simp add: bmap_insert_last)
  with Cons show ?case by (cases kv) simp
qed

lemma bmap_of_list_sorted: "bmap_inv kvs \<Longrightarrow> bmap_of_list kvs = kvs"
  using foldl_insert_sorted [of "[]" kvs] by (simp add: bmap_of_list_def)

lemma bmap_inv_filter: "bmap_inv m \<Longrightarrow> bmap_inv (filter P m)"
  by (induction m) (auto simp: bmap_inv_def)

lemma bmap_get_filter:
  "bmap_inv m \<Longrightarrow> bmap_get (filter (\<lambda>kv. P (snd kv)) m) k =
     (case bmap_get m k of Some v \<Rightarrow> if P v then Some v else None | None \<Rightarrow> None)"
proof (induction m)
  case Nil
  then show ?case by simp
next
  case (Cons kv m)
  obtain k' v where kv: "kv = (k', v)" by (cases kv)
  have "bmap_get m k' = None" using Cons.prems by (intro bmap_get_fresh) (auto simp: kv bmap_inv_Cons)
  moreover have "bmap_inv m" using Cons.prems by (simp add: kv bmap_inv_Cons)
  ultimately show ?case using Cons.IH by (auto simp: bmap_get_def kv)
qed

section \<open>Sets\<close>

type_synonym 'k btree_set = "'k list"

definition bset_inv :: "'k::linorder btree_set \<Rightarrow> bool" where
  "bset_inv xs \<longleftrightarrow> sorted_wrt (<) xs"

fun bset_insert :: "'k::linorder \<Rightarrow> 'k btree_set \<Rightarrow> 'k btree_set" where
  "bset_insert x [] = [x]"
| "bset_insert x (y # ys) =
     (if x < y then x # y # ys else if x = y then y # ys else y # bset_insert x ys)"

definition bset_remove :: "'k \<Rightarrow> 'k btree_set \<Rightarrow> 'k btree_set" where
  "bset_remove x xs = filter (\<lambda>y. y \<noteq> x) xs"

lemma set_bset_insert [simp]: "set (bset_insert x xs) = insert x (set xs)"
  by (induction x xs rule: bset_insert.induct) auto

lemma set_bset_remove [simp]: "set (bset_remove x xs) = set xs - {x}"
  by (auto simp: bset_remove_def)

lemma bset_insert_inv [simp]: "bset_inv xs \<Longrightarrow> bset_inv (bset_insert x xs)"
  by (induction x xs rule: bset_insert.induct) (auto simp: bset_inv_def)

lemma bset_remove_inv [simp]: "bset_inv xs \<Longrightarrow> bset_inv (bset_remove x xs)"
  by (simp add: bset_inv_def bset_remove_def sorted_wrt_filter)

lemma bset_inv_distinct: "bset_inv xs \<Longrightarrow> distinct xs"
  unfolding bset_inv_def by (simp add: strict_sorted_iff)

lemma bset_inv_Nil [simp]: "bset_inv []"
  by (simp add: bset_inv_def)

end
