(* ===== verification/State_Items.thy ===== *)
theory State_Items
  imports CC_Prelude
begin

text \<open>
  The items of the top level state (\<open>state/src/item/\<close>), the errors a state change can end
  with (\<open>types/src/errors/runtime_error.rs\<close>) and the consensus parameters
  (\<open>types/src/common_params.rs\<close>).

  Release builds are modelled: \<open>u64\<close> arithmetic wraps and \<open>debug_assert!\<close> does nothing.
\<close>

section \<open>Errors\<close>

datatype unlock_failure = ScriptShouldBeBurnt | ScriptShouldNotBeBurnt | ScriptError

datatype state_error =
    AssetNotFound shard_id h256 nat
  | AssetSchemeDuplicated h256 shard_id
  | AssetSchemeNotFound h160 shard_id
  | InvalidSeqOfAssetScheme h160 shard_id nat nat
  | AssetSupplyOverflow
  | CannotBurnRegulatedAsset
  | CannotComposeRegulatedAsset
  | FailedToHandleCustomAction string
  | FailedToUnlock shard_id h256 nat unlock_failure
  | InsufficientBalance address u64 u64
  | InsufficientPermission
  | InvalidAssetQuantity shard_id h256 nat u64 u64
  | UnexpectedAssetType nat h160 h160
  | InvalidDecomposedInput h160 shard_id u64
  | InvalidDecomposedOutput h160 shard_id u64 u64
  | InvalidOriginOutputs h256
  | InvalidScript
  | InvalidSeq u64 u64
  | InvalidShardId shard_id
  | InvalidTransferDestination
  | NewOwnersMustContainSender
  | NotApproved address
  | RegularKeyAlreadyInUse
  | RegularKeyAlreadyInUseAsPlatformAccount
  | ScriptHashMismatch h160 h160
  | ScriptNotAllowed h160
  | TextNotExist
  | TextVerificationFail string
  | CannotUseMasterKey
  | NonActiveAccount address string
  | SignatureOfInvalidAccount address
  | InsufficientStakes u64 u64
  | InvalidValidatorIndex nat u64

section \<open>Parameters\<close>

record common_params =
  params_size :: nat
  max_extra_data_size :: nat
  max_asset_scheme_metadata_size :: nat
  max_transfer_metadata_size :: nat
  max_text_content_size :: nat
  params_network_id :: network_id
  min_pay_transaction_cost :: u64
  min_set_regular_key_transaction_cost :: u64
  min_create_shard_transaction_cost :: u64
  min_set_shard_owners_transaction_cost :: u64
  min_set_shard_users_transaction_cost :: u64
  min_wrap_ccc_transaction_cost :: u64
  min_custom_transaction_cost :: u64
  min_store_transaction_cost :: u64
  min_remove_transaction_cost :: u64
  min_asset_mint_cost :: u64
  min_asset_transfer_cost :: u64
  min_asset_scheme_change_cost :: u64
  min_asset_supply_increase_cost :: u64
  min_asset_compose_cost :: u64
  min_asset_decompose_cost :: u64
  min_asset_unwrap_ccc_cost :: u64
  max_body_size :: nat
  snapshot_period :: u64
  term_seconds :: u64
  nomination_expiration :: u64
  custody_period :: u64
  release_period :: u64
  max_num_of_validators :: nat
  min_num_of_validators :: nat
  delegation_threshold :: u64
  min_deposit :: u64
  max_candidate_metadata_size :: nat

definition params_verify :: "common_params \<Rightarrow> (string, unit) result" where
  "params_verify p =
     (if term_seconds p \<noteq> 0 then
        if nomination_expiration p = 0 then Error ''You should set the nomination expiration''
        else if custody_period p = 0 then Error ''You should set the custody period''
        else if release_period p = 0 then Error ''You should set the release period''
        else if max_num_of_validators p = 0 then
          Error ''You should set the maximum number of validators''
        else if min_num_of_validators p = 0 then
          Error ''You should set the minimum number of validators''
        else if delegation_threshold p = 0 then Error ''You should set the delegation threshold''
        else if min_deposit p = 0 then Error ''You should set the minimum deposit''
        else if min_num_of_validators p > max_num_of_validators p then
          Error ''The minimum number of validators is larger than the maximum''
        else if custody_period p \<ge> release_period p then
          Error ''The release period should be longer than the custody period''
        else if max_candidate_metadata_size p \<ge> max_text_content_size p then
          Error ''The candidate metadata size limit should be shorter than the text limit''
        else Ok ()
      else Ok ())"

section \<open>Accounts\<close>

record account =
  acc_balance :: u64
  acc_seq :: u64
  acc_regular_key :: "public option"

definition account_new :: "u64 \<Rightarrow> u64 \<Rightarrow> account" where
  "account_new bal sq = \<lparr>acc_balance = bal, acc_seq = sq, acc_regular_key = None\<rparr>"

definition default_account :: account where
  "default_account = account_new 0 0"

definition account_is_null :: "account \<Rightarrow> bool" where
  "account_is_null a \<longleftrightarrow> acc_balance a = 0 \<and> acc_seq a = 0"

definition account_is_active :: "account \<Rightarrow> bool" where
  "account_is_active a \<longleftrightarrow> \<not> account_is_null a"

definition account_inc_seq :: "account \<Rightarrow> account" where
  "account_inc_seq a = a\<lparr>acc_seq := acc_seq a + 1\<rparr>"

definition account_add_balance :: "u64 \<Rightarrow> account \<Rightarrow> account" where
  "account_add_balance x a = a\<lparr>acc_balance := acc_balance a + x\<rparr>"

definition account_sub_balance :: "u64 \<Rightarrow> account \<Rightarrow> ('e, account) result" where
  "account_sub_balance x a =
     rbind (rassert ''self.balance >= x'' (acc_balance a \<ge> x)) (\<lambda>_.
     Ok (a\<lparr>acc_balance := acc_balance a - x\<rparr>))"

definition account_set_regular_key :: "public \<Rightarrow> account \<Rightarrow> account" where
  "account_set_regular_key key a = a\<lparr>acc_regular_key := Some key\<rparr>"

section \<open>Metadata\<close>

record term_metadata =
  last_term_finished_block_num :: u64
  current_term_id :: u64

record metadata =
  number_of_shards :: shard_id
  number_of_initial_shards :: shard_id
  md_hashes :: "h256 list"
  md_term :: term_metadata
  md_seq :: u64
  md_params :: "common_params option"

definition metadata_new :: "shard_id \<Rightarrow> metadata" where
  "metadata_new n = \<lparr>number_of_shards = n, number_of_initial_shards = n, md_hashes = [],
     md_term = \<lparr>last_term_finished_block_num = 0, current_term_id = 0\<rparr>, md_seq = 0, md_params = None\<rparr>"

definition metadata_add_shard :: "h256 \<Rightarrow> metadata \<Rightarrow> shard_id \<times> metadata" where
  "metadata_add_shard tx_hash m =
     (number_of_shards m,
      m\<lparr>number_of_shards := number_of_shards m + 1, md_hashes := md_hashes m @ [tx_hash]\<rparr>)"

definition metadata_shard_id_by_hash :: "h256 \<Rightarrow> metadata \<Rightarrow> ('e, shard_id option) result" where
  "metadata_shard_id_by_hash tx_hash m =
     rbind (rassert ''self.hashes.len() < u16::MAX'' (length (md_hashes m) < 65535)) (\<lambda>_.
     case position (\<lambda>h. h = tx_hash) (md_hashes m) of
       None \<Rightarrow> Ok None
     | Some i \<Rightarrow>
         let index = of_nat i + number_of_initial_shards m in
         rbind (rassert ''index < self.number_of_shards'' (index < number_of_shards m)) (\<lambda>_.
         Ok (Some index)))"

definition metadata_increase_seq :: "metadata \<Rightarrow> metadata" where
  "metadata_increase_seq m = m\<lparr>md_seq := md_seq m + 1\<rparr>"

definition metadata_set_params :: "common_params \<Rightarrow> metadata \<Rightarrow> metadata" where
  "metadata_set_params p m = m\<lparr>md_params := Some p\<rparr>"

definition metadata_increase_term_id :: "u64 \<Rightarrow> metadata \<Rightarrow> ('e, metadata) result" where
  "metadata_increase_term_id n m =
     rbind (rassert ''last_term_finished_block_num'' (last_term_finished_block_num (md_term m) < n)) (\<lambda>_.
     Ok (m\<lparr>md_term := \<lparr>last_term_finished_block_num = n,
                      current_term_id = current_term_id (md_term m) + 1\<rparr>\<rparr>))"

section \<open>Shards and texts\<close>

record shard =
  sh_root :: h256
  sh_owners :: "address list"
  sh_users :: "address list"

text \<open>\<open>BLAKE_NULL_RLP\<close>, the root of an empty trie, is a constant of the hash library; it is
  a parameter of the functions that use it.\<close>

definition default_shard :: "h256 \<Rightarrow> shard" where
  "default_shard blake_null_rlp = \<lparr>sh_root = blake_null_rlp, sh_owners = [], sh_users = []\<rparr>"

record stored_text =
  txt_content :: bytes
  txt_certifier :: address

lemma params_verify_Ok:
  "params_verify p = Ok () \<longleftrightarrow>
     (term_seconds p \<noteq> 0 \<longrightarrow>
        nomination_expiration p \<noteq> 0 \<and> custody_period p \<noteq> 0 \<and> release_period p \<noteq> 0 \<and>
        max_num_of_validators p \<noteq> 0 \<and> min_num_of_validators p \<noteq> 0 \<and>
        delegation_threshold p \<noteq> 0 \<and> min_deposit p \<noteq> 0 \<and>
        min_num_of_validators p \<le> max_num_of_validators p \<and>
        custody_period p < release_period p \<and>
        max_candidate_metadata_size p < max_text_content_size p)"
  by (auto simp: params_verify_def not_less not_le)

text \<open>A shard created by a transaction is found again under that transaction's hash.\<close>

lemma position_snoc:
  "x \<notin> set xs \<Longrightarrow> position (\<lambda>h. h = x) (xs @ [x]) = Some (length xs)"
  by (induction xs) auto

definition metadata_inv :: "metadata \<Rightarrow> bool" where
  "metadata_inv m \<longleftrightarrow>
     unat (number_of_initial_shards m) + length (md_hashes m) = unat (number_of_shards m)"

lemma metadata_add_shard_found:
  assumes "metadata_inv m" "tx_hash \<notin> set (md_hashes m)" "unat (number_of_shards m) < 65535"
    and "metadata_add_shard tx_hash m = (sid, m')"
  shows "metadata_inv m' \<and>
    (length (md_hashes m') < 65535 \<longrightarrow> metadata_shard_id_by_hash tx_hash m' = Ok (Some sid))"
proof -
  have m': "sid = number_of_shards m" "number_of_shards m' = number_of_shards m + 1"
    "md_hashes m' = md_hashes m @ [tx_hash]"
    "number_of_initial_shards m' = number_of_initial_shards m"
    using assms(4) by (auto simp: metadata_add_shard_def)
  have succ: "unat (number_of_shards m + 1) = unat (number_of_shards m) + 1"
    using assms(3) by (simp add: unat_word_ariths)
  have "of_nat (length (md_hashes m)) + number_of_initial_shards m = number_of_shards m"
  proof -
    have "(of_nat (unat (number_of_initial_shards m) + length (md_hashes m)) :: shard_id)
        = of_nat (unat (number_of_shards m))"
      using assms(1) by (simp only: metadata_inv_def)
    then show ?thesis by (simp add: add.commute)
  qed
  moreover have "number_of_shards m < number_of_shards m + 1"
    using succ by (simp add: word_less_nat_alt)
  ultimately show ?thesis
    using assms(1,2) m' succ
    by (simp add: metadata_inv_def metadata_shard_id_by_hash_def position_snoc)
qed

section \<open>A set of parameters for the witnesses\<close>

definition sample_params :: common_params where
  "sample_params = \<lparr>params_size = 31, max_extra_data_size = 32, max_asset_scheme_metadata_size = 1024,
     max_transfer_metadata_size = 256, max_text_content_size = 512, params_network_id = 17,
     min_pay_transaction_cost = 10, min_set_regular_key_transaction_cost = 10,
     min_create_shard_transaction_cost = 10, min_set_shard_owners_transaction_cost = 10,
     min_set_shard_users_transaction_cost = 10, min_wrap_ccc_transaction_cost = 10,
     min_custom_transaction_cost = 10, min_store_transaction_cost = 10, min_remove_transaction_cost = 10,
     min_asset_mint_cost = 10, min_asset_transfer_cost = 10, min_asset_scheme_change_cost = 10,
     min_asset_supply_increase_cost = 10, min_asset_compose_cost = 10, min_asset_decompose_cost = 10,
     min_asset_unwrap_ccc_cost = 10, max_body_size = 4194304, snapshot_period = 16384,
     term_seconds = 3600, nomination_expiration = 24, custody_period = 3, release_period = 9,
     max_num_of_validators = 30, min_num_of_validators = 4, delegation_threshold = 10, min_deposit = 20,
     max_candidate_metadata_size = 128\<rparr>"

lemma sample_params_ok: "params_verify sample_params = Ok ()" "term_seconds sample_params \<noteq> 0"
  "release_period sample_params = 9" "custody_period sample_params = 3"
  by (simp_all add: params_verify_def sample_params_def)

end
