(* ===== verification/Top_State.thy ===== *)
theory Top_State
  imports State_Items
begin

text \<open>
  The top level state (\<open>state/src/impls/top_level.rs\<close>, \<open>state/src/traits.rs\<close>): accounts,
  regular keys, metadata, shards and texts, with the operations of \<open>TopStateView\<close> and
  \<open>TopState\<close>.

  Each field is the view of one write-back cache over the database (theory \<open>Write_Back\<close>
  shows that the cache behaves like that map). The data of custom action handlers is the
  type parameter \<open>'d\<close>; the record is extensible, for the shards' own states. Keys and hashes
  come from external libraries, collected in \<open>key_lib\<close>: \<open>recover\<close> and \<open>verify_address\<close>
  return \<open>None\<close> for an error of the library. A regular account is stored under a hash of the
  address of its key; the map here is indexed by that address.
\<close>

record key_lib =
  public_to_address :: "public \<Rightarrow> address"
  recover :: "signature \<Rightarrow> h256 \<Rightarrow> public option"
  verify_address :: "address \<Rightarrow> signature \<Rightarrow> h256 \<Rightarrow> bool option"
  content_hash :: "bytes \<Rightarrow> h256"
  blake_null_rlp :: h256

record 'd top_state =
  accounts :: "address \<Rightarrow> account option"
  regular_accounts :: "address \<Rightarrow> public option"
  md :: "metadata option"
  shards :: "shard_id \<Rightarrow> shard option"
  texts :: "h256 \<Rightarrow> stored_text option"
  action_data :: 'd

type_synonym ('d, 'x, 'a) top_op = "(('d, 'x) top_state_scheme, state_error, 'a) sop"

section \<open>Views\<close>

definition seq_of :: "('d, 'x) top_state_scheme \<Rightarrow> address \<Rightarrow> u64" where
  "seq_of s a = (case accounts s a of None \<Rightarrow> 0 | Some acc \<Rightarrow> acc_seq acc)"

definition balance_of :: "('d, 'x) top_state_scheme \<Rightarrow> address \<Rightarrow> u64" where
  "balance_of s a = (case accounts s a of None \<Rightarrow> 0 | Some acc \<Rightarrow> acc_balance acc)"

definition account_exists_and_not_null :: "('d, 'x) top_state_scheme \<Rightarrow> address \<Rightarrow> bool" where
  "account_exists_and_not_null s a =
     (case accounts s a of None \<Rightarrow> False | Some acc \<Rightarrow> \<not> account_is_null acc)"

definition regular_key_of :: "('d, 'x) top_state_scheme \<Rightarrow> address \<Rightarrow> public option" where
  "regular_key_of s a = (case accounts s a of None \<Rightarrow> None | Some acc \<Rightarrow> acc_regular_key acc)"

definition regular_key_owner :: "key_lib \<Rightarrow> ('d, 'x) top_state_scheme \<Rightarrow> address \<Rightarrow> address option" where
  "regular_key_owner kl s a = map_option (public_to_address kl) (regular_accounts s a)"

text \<open>\<open>is_null\<close> of a regular account: its owner is the zero key.\<close>

definition regular_account_exists_and_not_null_by_address ::
    "('d, 'x) top_state_scheme \<Rightarrow> address \<Rightarrow> bool" where
  "regular_account_exists_and_not_null_by_address s a =
     (case regular_accounts s a of None \<Rightarrow> False | Some owner \<Rightarrow> owner \<noteq> 0)"

definition regular_account_exists_and_not_null ::
    "key_lib \<Rightarrow> ('d, 'x) top_state_scheme \<Rightarrow> public \<Rightarrow> bool" where
  "regular_account_exists_and_not_null kl s p =
     regular_account_exists_and_not_null_by_address s (public_to_address kl p)"

definition is_active_account :: "('d, 'x) top_state_scheme \<Rightarrow> address \<Rightarrow> bool" where
  "is_active_account s a = (case accounts s a of
     Some acc \<Rightarrow> account_is_active acc | None \<Rightarrow> False)"

section \<open>Mutable access\<close>

text \<open>\<open>get_account_mut(a)\<close> followed by the update \<open>f\<close>; a missing item is created from the
  default, also when the caller only reads through the reference (\<open>f = id\<close>).\<close>

definition account_mut :: "address \<Rightarrow> (account \<Rightarrow> account) \<Rightarrow> ('d, 'x, unit) top_op" where
  "account_mut a f = smodify (\<lambda>s. s\<lparr>accounts := (accounts s)(a \<mapsto>
     f (case accounts s a of Some acc \<Rightarrow> acc | None \<Rightarrow> default_account))\<rparr>)"

definition get_account :: "address \<Rightarrow> ('d, 'x, account) top_op" where
  "get_account a = sbind (account_mut a id) (\<lambda>_. sget (\<lambda>s. the (accounts s a)))"

definition regular_account_mut :: "key_lib \<Rightarrow> public \<Rightarrow> (public \<Rightarrow> public) \<Rightarrow> ('d, 'x, unit) top_op" where
  "regular_account_mut kl p f = smodify (\<lambda>s. s\<lparr>regular_accounts :=
     (regular_accounts s)(public_to_address kl p \<mapsto>
       f (case regular_accounts s (public_to_address kl p) of Some o' \<Rightarrow> o' | None \<Rightarrow> 0))\<rparr>)"

definition get_regular_account :: "key_lib \<Rightarrow> public \<Rightarrow> ('d, 'x, public) top_op" where
  "get_regular_account kl p =
     sbind (regular_account_mut kl p id) (\<lambda>_.
       sget (\<lambda>s. the (regular_accounts s (public_to_address kl p))))"

definition get_metadata_mut :: "('d, 'x, metadata) top_op" where
  "get_metadata_mut =
     sbind (smodify (\<lambda>s. s\<lparr>md := Some (case md s of Some m \<Rightarrow> m | None \<Rightarrow> metadata_new 0)\<rparr>)) (\<lambda>_.
       sget (\<lambda>s. the (md s)))"

definition set_metadata :: "metadata \<Rightarrow> ('d, 'x, unit) top_op" where
  "set_metadata m = smodify (\<lambda>s. s\<lparr>md := Some m\<rparr>)"

definition shard_mut :: "key_lib \<Rightarrow> shard_id \<Rightarrow> (shard \<Rightarrow> shard) \<Rightarrow> ('d, 'x, unit) top_op" where
  "shard_mut kl sid f = smodify (\<lambda>s. s\<lparr>shards := (shards s)(sid \<mapsto>
     f (case shards s sid of Some sh \<Rightarrow> sh | None \<Rightarrow> default_shard (blake_null_rlp kl)))\<rparr>)"

section \<open>The operations of \<open>TopState\<close>\<close>

definition kill_account :: "address \<Rightarrow> ('d, 'x, unit) top_op" where
  "kill_account a = smodify (\<lambda>s. s\<lparr>accounts := (accounts s)(a := None)\<rparr>)"

definition kill_regular_account :: "key_lib \<Rightarrow> public \<Rightarrow> ('d, 'x, unit) top_op" where
  "kill_regular_account kl p =
     smodify (\<lambda>s. s\<lparr>regular_accounts := (regular_accounts s)(public_to_address kl p := None)\<rparr>)"

definition add_balance :: "address \<Rightarrow> u64 \<Rightarrow> ('d, 'x, unit) top_op" where
  "add_balance a incr =
     (if incr \<noteq> 0 then account_mut a (account_add_balance incr) else sreturn ())"

definition sub_balance :: "address \<Rightarrow> u64 \<Rightarrow> ('d, 'x, unit) top_op" where
  "sub_balance a decr =
     (if decr = 0 then sreturn ()
      else sbind (sget (\<lambda>s. balance_of s a)) (\<lambda>bal.
        if bal < decr then sfail (InsufficientBalance a bal decr)
        else sbind (get_account a) (\<lambda>acc.
             sbind (slift (account_sub_balance decr acc)) (\<lambda>acc'.
             account_mut a (\<lambda>_. acc')))))"

definition transfer_balance :: "address \<Rightarrow> address \<Rightarrow> u64 \<Rightarrow> ('d, 'x, unit) top_op" where
  "transfer_balance from to by' =
     sbind (sget (\<lambda>s. regular_account_exists_and_not_null_by_address s to)) (\<lambda>is_regular.
       if is_regular then sfail InvalidTransferDestination
       else sbind (sub_balance from by') (\<lambda>_. add_balance to by'))"

definition inc_seq :: "address \<Rightarrow> ('d, 'x, unit) top_op" where
  "inc_seq a = account_mut a account_inc_seq"

definition owner_of_signer :: "key_lib \<Rightarrow> public \<Rightarrow> ('d, 'x, public \<times> address) top_op" where
  "owner_of_signer kl signer =
     sbind (sget (\<lambda>s. regular_account_exists_and_not_null kl s signer)) (\<lambda>is_regular.
       if is_regular then
         sbind (get_regular_account kl signer) (\<lambda>owner. sreturn (owner, public_to_address kl owner))
       else sreturn (signer, public_to_address kl signer))"

definition set_regular_key :: "key_lib \<Rightarrow> public \<Rightarrow> public \<Rightarrow> ('d, 'x, unit) top_op" where
  "set_regular_key kl signer_public regular_key =
     sbind (owner_of_signer kl signer_public) (\<lambda>(owner_public, owner_address).
     sbind (sget (\<lambda>s. regular_account_exists_and_not_null kl s regular_key)) (\<lambda>in_use.
     if in_use then sfail RegularKeyAlreadyInUse
     else sbind (sget (\<lambda>s. account_exists_and_not_null s (public_to_address kl regular_key))) (\<lambda>is_account.
     if is_account then sfail RegularKeyAlreadyInUseAsPlatformAccount
     else sbind (get_account owner_address) (\<lambda>acc.
          sbind (case acc_regular_key acc of
                   Some prev \<Rightarrow> kill_regular_account kl prev
                 | None \<Rightarrow> sreturn ()) (\<lambda>_.
          sbind (account_mut owner_address (account_set_regular_key regular_key)) (\<lambda>_.
          regular_account_mut kl regular_key (\<lambda>_. owner_public)))))))"

fun check_active :: "string \<Rightarrow> address list \<Rightarrow> ('d, 'x, unit) top_op" where
  "check_active nm [] = sreturn ()"
| "check_active nm (a # as) = sbind (sget (\<lambda>s. is_active_account s a)) (\<lambda>active.
     if active then check_active nm as else sfail (NonActiveAccount a nm))"

definition set_shard_root :: "key_lib \<Rightarrow> shard_id \<Rightarrow> h256 \<Rightarrow> ('d, 'x, unit) top_op" where
  "set_shard_root kl sid root = shard_mut kl sid (\<lambda>sh. sh\<lparr>sh_root := root\<rparr>)"

definition set_shard_owners :: "key_lib \<Rightarrow> shard_id \<Rightarrow> address list \<Rightarrow> ('d, 'x, unit) top_op" where
  "set_shard_owners kl sid new_owners = sbind (check_active ''shard owner'' new_owners) (\<lambda>_.
     shard_mut kl sid (\<lambda>sh. sh\<lparr>sh_owners := new_owners\<rparr>))"

definition set_shard_users :: "key_lib \<Rightarrow> shard_id \<Rightarrow> address list \<Rightarrow> ('d, 'x, unit) top_op" where
  "set_shard_users kl sid new_users = sbind (check_active ''shard user'' new_users) (\<lambda>_.
     shard_mut kl sid (\<lambda>sh. sh\<lparr>sh_users := new_users\<rparr>))"

definition change_shard_owners :: "key_lib \<Rightarrow> shard_id \<Rightarrow> address list \<Rightarrow> address \<Rightarrow> ('d, 'x, unit) top_op" where
  "change_shard_owners kl sid owners sender =
     sbind (sget (\<lambda>s. shards s sid)) (\<lambda>sh. sbind (slift (ok_or (InvalidShardId sid) sh)) (\<lambda>sh'.
       if sender \<notin> set (sh_owners sh') then sfail InsufficientPermission
       else if sender \<notin> set owners then sfail NewOwnersMustContainSender
       else set_shard_owners kl sid owners))"

definition change_shard_users :: "key_lib \<Rightarrow> shard_id \<Rightarrow> address list \<Rightarrow> address \<Rightarrow> ('d, 'x, unit) top_op" where
  "change_shard_users kl sid users sender =
     sbind (sget (\<lambda>s. shards s sid)) (\<lambda>sh. sbind (slift (ok_or (InvalidShardId sid) sh)) (\<lambda>sh'.
       if sender \<notin> set (sh_owners sh') then sfail InsufficientPermission
       else set_shard_users kl sid users))"

definition verify_certifier :: "key_lib \<Rightarrow> address \<Rightarrow> signature \<Rightarrow> h256 \<Rightarrow> (state_error, unit) result" where
  "verify_certifier kl certifier sig msg = (case verify_address kl certifier sig msg of
     Some False \<Rightarrow> Error (TextVerificationFail ''Certifier and signer are different'')
   | None \<Rightarrow> Error (TextVerificationFail ''signature error'')
   | Some True \<Rightarrow> Ok ())"

definition store_text :: "key_lib \<Rightarrow> h256 \<Rightarrow> stored_text \<Rightarrow> signature \<Rightarrow> ('d, 'x, unit) top_op" where
  "store_text kl key txt sig =
     sbind (slift (verify_certifier kl (txt_certifier txt) sig (content_hash kl (txt_content txt)))) (\<lambda>_.
     smodify (\<lambda>s. s\<lparr>texts := (texts s)(key \<mapsto> txt)\<rparr>))"

definition remove_text :: "key_lib \<Rightarrow> h256 \<Rightarrow> signature \<Rightarrow> ('d, 'x, unit) top_op" where
  "remove_text kl key sig =
     sbind (sget (\<lambda>s. texts s key)) (\<lambda>t. sbind (slift (ok_or TextNotExist t)) (\<lambda>txt.
     sbind (slift (verify_certifier kl (txt_certifier txt) sig key)) (\<lambda>_.
     smodify (\<lambda>s. s\<lparr>texts := (texts s)(key := None)\<rparr>))))"

definition increase_term_id :: "u64 \<Rightarrow> ('d, 'x, unit) top_op" where
  "increase_term_id n = sbind get_metadata_mut (\<lambda>m.
     sbind (slift (metadata_increase_term_id n m)) set_metadata)"

definition update_params :: "u64 \<Rightarrow> common_params \<Rightarrow> ('d, 'x, unit) top_op" where
  "update_params metadata_seq params = sbind get_metadata_mut (\<lambda>m.
     if md_seq m \<noteq> metadata_seq then sfail (InvalidSeq (md_seq m) metadata_seq)
     else set_metadata (metadata_increase_seq (metadata_set_params params m)))"

section \<open>Balances\<close>

text \<open>All CCC held by accounts.\<close>

definition total_ccc :: "('d, 'x) top_state_scheme \<Rightarrow> nat" where
  "total_ccc s = total (balance_of s)"

named_theorems top_simps

lemma account_mut_apply [top_simps]: "account_mut a f s =
  (Ok (), s\<lparr>accounts := (accounts s)(a \<mapsto>
     f (case accounts s a of Some acc \<Rightarrow> acc | None \<Rightarrow> default_account))\<rparr>)"
  by (simp add: account_mut_def)

lemma balance_of_upd [top_simps]:
  "balance_of (t\<lparr>accounts := (accounts s)(a \<mapsto> acc)\<rparr>) = (balance_of s)(a := acc_balance acc)"
  by (auto simp: balance_of_def fun_eq_iff)

lemma balance_of_cong: "accounts s = accounts t \<Longrightarrow> balance_of s = balance_of t"
  by (simp add: balance_of_def fun_eq_iff)

lemma balance_of_default [top_simps]:
  "acc_balance (case accounts s a of Some acc \<Rightarrow> acc | None \<Rightarrow> default_account) = balance_of s a"
  by (simp add: balance_of_def default_account_def account_new_def split: option.split)

text \<open>Everything but the accounts is left alone by the balance operations.\<close>

definition only_accounts :: "('d, 'x) top_state_scheme \<Rightarrow> ('d, 'x) top_state_scheme \<Rightarrow> bool" where
  "only_accounts s t \<longleftrightarrow> (\<exists>f. t = s\<lparr>accounts := f\<rparr>)"

lemma only_accounts_refl [simp]: "only_accounts s s"
  unfolding only_accounts_def by (rule exI [of _ "accounts s"]) simp

lemma only_accounts_upd [simp]: "only_accounts s (s\<lparr>accounts := f\<rparr>)"
  by (auto simp: only_accounts_def)

lemma only_accounts_trans: "only_accounts s t \<Longrightarrow> only_accounts t u \<Longrightarrow> only_accounts s u"
  by (auto simp: only_accounts_def)

lemma only_accounts_same:
  assumes "only_accounts s t"
  shows "regular_accounts t = regular_accounts s" "md t = md s" "shards t = shards s"
    "texts t = texts s" "action_data t = action_data s" "top_state.more t = top_state.more s"
  using assms by (auto simp: only_accounts_def)

lemma add_balance_spec:
  "\<exists>t. add_balance a q s = (Ok (), t) \<and> balance_of t = (balance_of s)(a := balance_of s a + q) \<and>
     only_accounts s t"
  by (cases "q = 0") (simp_all add: add_balance_def top_simps account_add_balance_def)

lemma get_account_spec:
  "\<exists>t acc. get_account a s = (Ok acc, t) \<and> accounts t = (accounts s)(a \<mapsto> acc) \<and>
     acc = (case accounts s a of Some x \<Rightarrow> x | None \<Rightarrow> default_account) \<and>
     balance_of t = balance_of s \<and> only_accounts s t"
  by (simp add: get_account_def sbind_apply top_simps)

lemma sub_balance_spec:
  "sub_balance a q s = (if balance_of s a < q
     then (Error (InsufficientBalance a (balance_of s a) q), s) else (Ok (), snd (sub_balance a q s)))"
  "\<not> balance_of s a < q \<Longrightarrow> balance_of (snd (sub_balance a q s)) = (balance_of s)(a := balance_of s a - q) \<and>
     only_accounts s (snd (sub_balance a q s))"
proof -
  obtain t acc where t: "get_account a s = (Ok acc, t)" "accounts t = (accounts s)(a \<mapsto> acc)"
    "acc_balance acc = balance_of s a" "balance_of t = balance_of s" "only_accounts s t"
    using get_account_spec [of a s] by (auto simp: top_simps)
  have run: "sub_balance a q s = (Ok (), t\<lparr>accounts := (accounts t)(a \<mapsto> acc\<lparr>acc_balance := balance_of s a - q\<rparr>)\<rparr>)"
    if "q \<noteq> 0" "\<not> balance_of s a < q"
    using that t by (simp add: sub_balance_def sbind_apply account_sub_balance_def top_simps not_less)
  show "sub_balance a q s = (if balance_of s a < q
     then (Error (InsufficientBalance a (balance_of s a) q), s) else (Ok (), snd (sub_balance a q s)))"
  proof (cases "q = 0")
    case True
    then show ?thesis by (simp add: sub_balance_def)
  next
    case False
    then show ?thesis using run by (simp add: sub_balance_def)
  qed
  assume ge: "\<not> balance_of s a < q"
  show "balance_of (snd (sub_balance a q s)) = (balance_of s)(a := balance_of s a - q) \<and>
     only_accounts s (snd (sub_balance a q s))"
  proof (cases "q = 0")
    case True
    then show ?thesis by (simp add: sub_balance_def)
  next
    case False
    from run [OF False ge] t show ?thesis
      by (auto simp: top_simps intro: only_accounts_trans)
  qed
qed

lemma sub_balance_Ok:
  assumes "sub_balance a q s = (Ok u, t)"
  shows "q \<le> balance_of s a \<and> balance_of t = (balance_of s)(a := balance_of s a - q) \<and> only_accounts s t"
proof (cases "balance_of s a < q")
  case True
  then show ?thesis using assms sub_balance_spec(1) [of a q s] by simp
next
  case False
  then show ?thesis using assms sub_balance_spec(2) [of s a q] by simp
qed

lemma add_balance_total:
  assumes "total_ccc s + unat q < 2 ^ 64"
  obtains t where "add_balance a q s = (Ok (), t)" "only_accounts s t" "total_ccc t = total_ccc s + unat q"
proof -
  obtain t where t: "add_balance a q s = (Ok (), t)" "only_accounts s t"
    "balance_of t = (balance_of s)(a := balance_of s a + q)"
    using add_balance_spec [of a q s] by auto
  moreover have "total_ccc t = total_ccc s + unat q"
    using total_add [of "balance_of s" q a] assms t(3) by (simp add: total_ccc_def)
  ultimately show ?thesis using that by blast
qed

lemma sub_balance_total:
  assumes "sub_balance a q s = (Ok u, t)"
  shows "total_ccc t + unat q = total_ccc s"
  using sub_balance_Ok [OF assms] total_sub [of q "balance_of s" a] by (simp add: total_ccc_def)

text \<open>
  A payment moves its quantity and nothing else. It succeeds exactly when the receiver is
  not a regular key's address and the payer has enough; the total of all balances is then
  unchanged (also when payer and receiver are the same), and a refused payment leaves the
  state as it was.
\<close>

theorem transfer_balance_conserves:
  assumes "total_ccc s < 2 ^ 64"
  shows "case transfer_balance from to q s of
      (Inr _, t) \<Rightarrow> \<not> regular_account_exists_and_not_null_by_address s to \<and> q \<le> balance_of s from \<and>
        total_ccc t = total_ccc s \<and> only_accounts s t \<and>
        balance_of t = (let b = (balance_of s)(from := balance_of s from - q) in b(to := b to + q))
    | (Inl _, t) \<Rightarrow> t = s \<and>
        (regular_account_exists_and_not_null_by_address s to \<or> balance_of s from < q)"
proof (cases "regular_account_exists_and_not_null_by_address s to \<or> balance_of s from < q")
  case True
  then show ?thesis
    using sub_balance_spec(1) [of "from" q s]
    by (auto simp: transfer_balance_def sbind_apply)
next
  case False
  obtain t where t: "sub_balance from q s = (Ok (), t)"
    using False sub_balance_spec(1) [of "from" q s] by (metis (full_types))
  let ?b = "(balance_of s)(from := balance_of s from - q)"
  have q: "q \<le> balance_of s from" and bt: "balance_of t = ?b" and st: "only_accounts s t"
    using sub_balance_Ok [OF t] by auto
  obtain u where u: "add_balance to q t = (Ok (), u)" "balance_of u = ?b(to := ?b to + q)"
    "only_accounts t u"
    using add_balance_spec [of to q t] bt by auto
  have "total ?b + unat q = total_ccc s"
    using total_sub [of q "balance_of s" "from"] q by (simp add: total_ccc_def)
  then have "total (?b(to := ?b to + q)) = total_ccc s"
    using total_add [of ?b q to] assms by simp
  with u st False q show ?thesis
    by (auto simp: transfer_balance_def sbind_apply t total_ccc_def Let_def intro: only_accounts_trans)
qed

definition sample_keys :: key_lib where
  "sample_keys = \<lparr>public_to_address = ucast, recover = (\<lambda>sig msg. Some (ucast sig)),
     verify_address = (\<lambda>a sig msg. Some (ucast sig = a)), content_hash = of_be_bytes,
     blake_null_rlp = 0\<rparr>"

definition sample_top :: "unit top_state" where
  "sample_top = \<lparr>accounts = [1 \<mapsto> account_new 100 1], regular_accounts = Map.empty,
     md = Some (metadata_new 1), shards = Map.empty, texts = Map.empty, action_data = ()\<rparr>"

lemma balance_of_sample_top: "balance_of sample_top = (\<lambda>_. 0)(1 := 100)"
  by (auto simp: balance_of_def sample_top_def account_new_def fun_eq_iff)

lemma sample_top_no_regular: "\<not> regular_account_exists_and_not_null_by_address sample_top a"
  by (simp add: regular_account_exists_and_not_null_by_address_def sample_top_def)

theorem transfer_balance_conserves_witness:
  "\<exists>t. transfer_balance 1 2 30 sample_top = (Ok (), t) \<and> total_ccc t = 100 \<and>
     balance_of t 1 = 70 \<and> balance_of t 2 = 30"
proof -
  have total: "total_ccc sample_top = 100"
    by (simp add: total_ccc_def balance_of_sample_top total_single)
  obtain r t where t: "transfer_balance 1 2 30 sample_top = (r, t)" by force
  have "case (r, t) of
      (Inr _, t) \<Rightarrow> \<not> regular_account_exists_and_not_null_by_address sample_top 2 \<and>
        30 \<le> balance_of sample_top 1 \<and> total_ccc t = total_ccc sample_top \<and> only_accounts sample_top t \<and>
        balance_of t = (let b = (balance_of sample_top)(1 := balance_of sample_top 1 - 30) in b(2 := b 2 + 30))
    | (Inl _, t) \<Rightarrow> t = sample_top \<and>
        (regular_account_exists_and_not_null_by_address sample_top 2 \<or> balance_of sample_top 1 < 30)"
    unfolding t [symmetric] by (rule transfer_balance_conserves) (simp add: total)
  then show ?thesis
    using t total sample_top_no_regular [of 2]
    by (cases r) (auto simp: balance_of_sample_top Let_def)
qed

section \<open>Regular keys\<close>

text \<open>
  Regular keys are a one-to-one link: the account a regular key belongs to names that key as
  its regular key, and the regular account of an account's key names an owner of that account.
\<close>

definition key_inv :: "key_lib \<Rightarrow> ('d, 'x) top_state_scheme \<Rightarrow> bool" where
  "key_inv kl s \<longleftrightarrow>
     (\<forall>p owner. regular_accounts s p = Some owner \<longrightarrow> owner \<noteq> 0 \<longrightarrow>
        (\<exists>k. public_to_address kl k = p \<and> regular_key_of s (public_to_address kl owner) = Some k)) \<and>
     (\<forall>a k. regular_key_of s a = Some k \<longrightarrow>
        (\<exists>owner. regular_accounts s (public_to_address kl k) = Some owner \<and> owner \<noteq> 0 \<and>
           public_to_address kl owner = a))"

lemma regular_key_of_upd:
  "regular_key_of (t\<lparr>accounts := (accounts s)(a \<mapsto> acc)\<rparr>) = (regular_key_of s)(a := acc_regular_key acc)"
  by (auto simp: regular_key_of_def fun_eq_iff)

lemma regular_key_of_default:
  "acc_regular_key (case accounts s a of Some acc \<Rightarrow> acc | None \<Rightarrow> default_account) = regular_key_of s a"
  by (simp add: regular_key_of_def default_account_def account_new_def split: option.split)

lemma owner_of_signer_spec:
  assumes "signer \<noteq> 0" "owner_of_signer kl signer s = (r, t)"
  shows "\<exists>owner. r = Ok (owner, public_to_address kl owner) \<and> owner \<noteq> 0 \<and> t = s \<and>
    (regular_accounts s (public_to_address kl signer) = Some owner \<or> owner = signer)"
proof (cases "regular_account_exists_and_not_null kl s signer")
  case True
  then obtain owner where ow: "regular_accounts s (public_to_address kl signer) = Some owner" "owner \<noteq> 0"
    by (auto simp: regular_account_exists_and_not_null_def
        regular_account_exists_and_not_null_by_address_def split: option.splits)
  then have "s\<lparr>regular_accounts := (regular_accounts s)(public_to_address kl signer \<mapsto> owner)\<rparr> = s"
    by (simp add: fun_upd_idem)
  with ow True assms(2) show ?thesis
    by (auto simp: owner_of_signer_def get_regular_account_def regular_account_mut_def sbind_apply)
next
  case False
  with assms show ?thesis by (auto simp: owner_of_signer_def)
qed

text \<open>What a successful \<open>set_regular_key\<close> leaves.\<close>

lemma set_regular_key_Ok:
  assumes "signer \<noteq> 0" "set_regular_key kl signer key s = (Ok u, t)"
  obtains owner where "owner \<noteq> 0"
    "\<not> regular_account_exists_and_not_null kl s key"
    "regular_key_of t = (regular_key_of s)(public_to_address kl owner \<mapsto> key)"
    "regular_accounts t = (case regular_key_of s (public_to_address kl owner) of
        Some prev \<Rightarrow> (regular_accounts s)(public_to_address kl prev := None)
      | None \<Rightarrow> regular_accounts s)(public_to_address kl key \<mapsto> owner)"
proof -
  obtain owner where ow: "owner_of_signer kl signer s = (Ok (owner, public_to_address kl owner), s)"
    "owner \<noteq> 0"
    using owner_of_signer_spec [OF assms(1), of kl s] by (metis surj_pair)
  let ?a = "public_to_address kl owner"
  obtain s1 acc where s1: "get_account ?a s = (Ok acc, s1)" "accounts s1 = (accounts s)(?a \<mapsto> acc)"
    "acc_regular_key acc = regular_key_of s ?a" "only_accounts s s1"
    using get_account_spec [of ?a s] by (auto simp: regular_key_of_default)
  have unused: "\<not> regular_account_exists_and_not_null kl s key"
    "\<not> account_exists_and_not_null s (public_to_address kl key)"
    using assms(2) ow by (auto simp: set_regular_key_def sbind_apply split: if_splits)
  have keys: "regular_key_of t = (regular_key_of s)(?a \<mapsto> key)"
    using assms(2) ow s1 unused
    by (auto simp: set_regular_key_def sbind_apply top_simps kill_regular_account_def
        regular_account_mut_def account_set_regular_key_def regular_key_of_def fun_eq_iff
        split: option.splits)
  have "regular_accounts t = (case regular_key_of s ?a of
        Some prev \<Rightarrow> (regular_accounts s)(public_to_address kl prev := None)
      | None \<Rightarrow> regular_accounts s)(public_to_address kl key \<mapsto> owner)"
    using assms(2) ow s1 unused only_accounts_same(1) [OF s1(4)]
    by (auto simp: set_regular_key_def sbind_apply top_simps kill_regular_account_def
        regular_account_mut_def split: option.splits)
  with that ow(2) unused(1) keys show ?thesis by blast
qed

lemma key_invD1:
  "key_inv kl s \<Longrightarrow> regular_accounts s p = Some owner \<Longrightarrow> owner \<noteq> 0 \<Longrightarrow>
     \<exists>k. public_to_address kl k = p \<and> regular_key_of s (public_to_address kl owner) = Some k"
  by (simp add: key_inv_def)

lemma key_invD2:
  "key_inv kl s \<Longrightarrow> regular_key_of s a = Some k \<Longrightarrow>
     \<exists>owner. regular_accounts s (public_to_address kl k) = Some owner \<and> owner \<noteq> 0 \<and>
       public_to_address kl owner = a"
  by (simp add: key_inv_def)

text \<open>
  C7: setting a regular key keeps the link between accounts and regular keys one-to-one: the
  key previously used by the account is released, the new one is not shared with any other
  account, and every other link is untouched. The signer may act with the master key or with
  the current regular key.
\<close>

theorem set_regular_key_keeps_link:
  assumes "key_inv kl s" "signer \<noteq> 0" "set_regular_key kl signer key s = (Ok u, t)"
  shows "key_inv kl t"
proof -
  obtain owner where ow: "owner \<noteq> 0" "\<not> regular_account_exists_and_not_null kl s key"
    and keys: "regular_key_of t = (regular_key_of s)(public_to_address kl owner \<mapsto> key)"
    and regs: "regular_accounts t = (case regular_key_of s (public_to_address kl owner) of
        Some prev \<Rightarrow> (regular_accounts s)(public_to_address kl prev := None)
      | None \<Rightarrow> regular_accounts s)(public_to_address kl key \<mapsto> owner)"
    by (rule set_regular_key_Ok [OF assms(2,3)])
  let ?adr = "public_to_address kl"
  have fresh: "regular_accounts s (?adr key) = Some o' \<Longrightarrow> o' = 0" for o'
    using ow(2) by (auto simp: regular_account_exists_and_not_null_def
        regular_account_exists_and_not_null_by_address_def)
  have other: "regular_accounts t p = Some o' \<Longrightarrow> p \<noteq> ?adr key \<Longrightarrow>
      regular_accounts s p = Some o' \<and> (\<forall>k. regular_key_of s (?adr owner) = Some k \<longrightarrow> p \<noteq> ?adr k)" for p o'
    by (auto simp: regs split: option.splits if_splits)
  have "\<exists>k. ?adr k = p \<and> regular_key_of t (?adr o') = Some k"
    if "regular_accounts t p = Some o'" "o' \<noteq> 0" for p o'
  proof (cases "p = ?adr key")
    case True
    then have "o' = owner" using that(1) by (simp add: regs)
    with True show ?thesis by (auto simp: keys)
  next
    case False
    from other [OF that(1) False] key_invD1 [OF assms(1) _ that(2)]
    show ?thesis by (fastforce simp: keys)
  qed
  moreover have "\<exists>o'. regular_accounts t (?adr k) = Some o' \<and> o' \<noteq> 0 \<and> ?adr o' = a"
    if "regular_key_of t a = Some k" for a k
  proof (cases "a = ?adr owner")
    case True
    then show ?thesis using that ow(1) by (auto simp: keys regs)
  next
    case False
    then have "regular_key_of s a = Some k" using that by (simp add: keys)
    from key_invD2 [OF assms(1) this] obtain o' where
      o': "regular_accounts s (?adr k) = Some o'" "o' \<noteq> 0" "?adr o' = a" by auto
    have "?adr k \<noteq> ?adr key" using fresh o' by auto
    moreover have "?adr k \<noteq> ?adr prev" if "regular_key_of s (?adr owner) = Some prev" for prev
      using key_invD2 [OF assms(1) that] o' False by auto
    ultimately show ?thesis using o' by (auto simp: regs split: option.splits)
  qed
  ultimately show ?thesis by (simp add: key_inv_def)
qed

theorem set_regular_key_keeps_link_witness:
  "\<exists>t. set_regular_key sample_keys 1 7 sample_top = (Ok (), t) \<and> key_inv sample_keys t \<and>
     regular_key_of t 1 = Some 7"
proof -
  have inv: "key_inv sample_keys sample_top"
    by (auto simp: key_inv_def sample_top_def regular_key_of_def account_new_def split: if_splits)
  have run: "set_regular_key sample_keys 1 7 sample_top = (Ok (), snd (set_regular_key sample_keys 1 7 sample_top))"
    by (simp add: set_regular_key_def owner_of_signer_def regular_account_exists_and_not_null_def
        regular_account_exists_and_not_null_by_address_def account_exists_and_not_null_def
        sample_top_def sample_keys_def get_account_def sbind_apply top_simps account_new_def
        regular_account_mut_def)
  have "regular_key_of (snd (set_regular_key sample_keys 1 7 sample_top)) 1 = Some 7"
    by (simp add: set_regular_key_def owner_of_signer_def regular_account_exists_and_not_null_def
        regular_account_exists_and_not_null_by_address_def account_exists_and_not_null_def
        sample_top_def sample_keys_def get_account_def sbind_apply top_simps account_new_def
        regular_account_mut_def regular_key_of_def account_set_regular_key_def)
  with set_regular_key_keeps_link [OF inv one_neq_zero run] run show ?thesis by blast
qed

end
