(* ===== verification/State_Hoare.thy ===== *)
theory State_Hoare
  imports CC_Prelude
begin

text \<open>
  A Hoare logic for the state-and-error operations: \<open>hoare P m Q\<close> says that from a state with
  \<open>P\<close> the operation \<open>m\<close> does not panic, and that where it succeeds its result and final state
  satisfy \<open>Q\<close>. An ordinary error is allowed: callers revert to a checkpoint then. An operation
  that \<open>reads\<close> leaves the state as it is.
\<close>

definition hoare :: "('s \<Rightarrow> bool) \<Rightarrow> ('s, 'e, 'a) sop \<Rightarrow> ('a \<Rightarrow> 's \<Rightarrow> bool) \<Rightarrow> bool" where
  "hoare P m Q \<longleftrightarrow> (\<forall>s. P s \<longrightarrow>
     (case m s of (Inr x, t) \<Rightarrow> Q x t | (Inl (Err _), _) \<Rightarrow> True | (Inl (Panic _), _) \<Rightarrow> False))"

lemma hoareI:
  assumes "\<And>s x t. P s \<Longrightarrow> m s = (Inr x, t) \<Longrightarrow> Q x t"
    and "\<And>s p t. P s \<Longrightarrow> m s = (Inl (Panic p), t) \<Longrightarrow> False"
  shows "hoare P m Q"
  unfolding hoare_def
proof (intro allI impI)
  fix s
  assume s: "P s"
  obtain r t where m: "m s = (r, t)" by force
  show "case m s of (Inr x, t) \<Rightarrow> Q x t | (Inl (Err _), _) \<Rightarrow> True | (Inl (Panic _), _) \<Rightarrow> False"
    using assms(1) [OF s] assms(2) [OF s] by (auto simp: m split: sum.split failure.split)
qed

lemma hoare_Ok: "hoare P m Q \<Longrightarrow> P s \<Longrightarrow> m s = (Inr x, t) \<Longrightarrow> Q x t"
  unfolding hoare_def by (drule spec [of _ s]) simp

lemma hoare_no_panic: "hoare P m Q \<Longrightarrow> P s \<Longrightarrow> m s \<noteq> (Inl (Panic p), t)"
  unfolding hoare_def by (drule spec [of _ s]) auto

lemma hoare_conseq:
  assumes "hoare P' m Q'" "\<And>s. P s \<Longrightarrow> P' s" "\<And>x s. Q' x s \<Longrightarrow> Q x s"
  shows "hoare P m Q"
  using assms by (auto intro!: hoareI dest: hoare_Ok hoare_no_panic)

lemma hoare_post: "hoare P m Q' \<Longrightarrow> (\<And>x s. Q' x s \<Longrightarrow> Q x s) \<Longrightarrow> hoare P m Q"
  by (rule hoare_conseq)

lemma hoare_pre: "hoare P' m Q \<Longrightarrow> (\<And>s. P s \<Longrightarrow> P' s) \<Longrightarrow> hoare P m Q"
  by (rule hoare_conseq)

lemma hoare_sreturn: "(\<And>s. P s \<Longrightarrow> Q v s) \<Longrightarrow> hoare P (sreturn v) Q"
  by (simp add: hoare_def)

lemma hoare_sfail: "hoare P (sfail e) Q"
  by (simp add: hoare_def)

lemma hoare_sget: "(\<And>s. P s \<Longrightarrow> Q (f s) s) \<Longrightarrow> hoare P (sget f) Q"
  by (simp add: hoare_def)

lemma hoare_smodify: "(\<And>s. P s \<Longrightarrow> Q () (f s)) \<Longrightarrow> hoare P (smodify f) Q"
  by (simp add: hoare_def)

lemma hoare_slift:
  assumes "\<And>s x. P s \<Longrightarrow> r = Inr x \<Longrightarrow> Q x s" "\<And>s p. P s \<Longrightarrow> r \<noteq> Inl (Panic p)"
  shows "hoare P (slift r) Q"
  using assms by (auto intro!: hoareI)

lemma hoare_sassert: "(\<And>s. P s \<Longrightarrow> b \<and> Q () s) \<Longrightarrow> hoare P (sassert m b) Q"
  by (cases b) (auto simp: hoare_def)

lemma hoare_sbind:
  assumes "hoare P m R" "\<And>x. hoare (R x) (k x) Q"
  shows "hoare P (sbind m k) Q"
proof (rule hoareI)
  fix s y t
  assume s: "P s" and run: "sbind m k s = (Inr y, t)"
  then obtain x u where "m s = (Inr x, u)" "k x u = (Inr y, t)" by (auto elim: sbind_OkE)
  with assms s show "Q y t" by (blast dest: hoare_Ok)
next
  fix s p t
  assume s: "P s" and run: "sbind m k s = (Inl (Panic p), t)"
  obtain r u where m: "m s = (r, u)" by force
  show False
  proof (cases r)
    case (Inl f)
    then show ?thesis using run m assms(1) s hoare_no_panic by (fastforce simp: sbind_apply)
  next
    case (Inr x)
    then have "R x u" using assms(1) s m by (blast dest: hoare_Ok)
    then show ?thesis using run m Inr assms(2) hoare_no_panic by (fastforce simp: sbind_apply)
  qed
qed

lemma hoare_if:
  assumes "b \<Longrightarrow> hoare P m Q" "\<not> b \<Longrightarrow> hoare P m' Q"
  shows "hoare P (if b then m else m') Q"
  using assms by simp

lemma hoare_False: "hoare (\<lambda>_. False) m Q"
  by (simp add: hoare_def)

text \<open>A loop whose invariant speaks about the elements already done.\<close>

lemma hoare_sforeach_done:
  assumes "\<And>done x rest. xs = done @ x # rest \<Longrightarrow> hoare (I done) (f x) (\<lambda>_. I (done @ [x]))"
  shows "hoare (I []) (sforeach xs f) (\<lambda>_. I xs)"
proof -
  have "hoare (I done) (sforeach rest f) (\<lambda>_. I xs)" if "xs = done @ rest" for "done" rest
    using that
  proof (induction rest arbitrary: "done")
    case Nil
    then show ?case by (simp add: hoare_def)
  next
    case (Cons x rest)
    then show ?case
      using assms [OF Cons.prems] Cons.IH [of "done @ [x]"] by (auto intro: hoare_sbind)
  qed
  from this [of "[]" xs] show ?thesis by simp
qed

lemma hoare_sforeach:
  assumes "\<And>x. x \<in> set xs \<Longrightarrow> hoare I (f x) (\<lambda>_. I)"
  shows "hoare I (sforeach xs f) (\<lambda>_. I)"
  using hoare_sforeach_done [of xs "\<lambda>_. I" f] assms by simp

text \<open>Two facts about the same operation.\<close>

lemma hoare_conj:
  assumes "hoare P m Q" "hoare P' m Q'"
  shows "hoare (\<lambda>s. P s \<and> P' s) m (\<lambda>x s. Q x s \<and> Q' x s)"
  using assms by (auto intro!: hoareI dest: hoare_Ok hoare_no_panic)

section \<open>Operations that only read\<close>

definition reads :: "('s, 'e, 'a) sop \<Rightarrow> bool" where
  "reads m \<longleftrightarrow> (\<forall>s. snd (m s) = s)"

named_theorems reading

lemma readsD: "reads m \<Longrightarrow> m s = (r, t) \<Longrightarrow> t = s"
  unfolding reads_def by (metis snd_conv)

lemma reads_basic [reading]:
  "reads (sreturn v)" "reads (sfail e)" "reads (spanic p)" "reads (sget f)" "reads (slift r)"
  "reads (sassert p b)"
  by (simp_all add: reads_def sassert_def)

lemma reads_sbind [reading]:
  assumes "reads m" "\<And>x. reads (k x)"
  shows "reads (sbind m k)"
  unfolding reads_def
proof
  fix s
  obtain r u where m: "m s = (r, u)" by force
  then have "u = s" using assms(1) by (rule readsD [rotated])
  with m assms(2) show "snd (sbind m k s) = s" by (cases r) (auto simp: sbind_apply reads_def)
qed

lemma reads_if [reading]: "reads m \<Longrightarrow> reads m' \<Longrightarrow> reads (if b then m else m')"
  by simp

lemma reads_sforeach [reading]: "(\<And>x. reads (f x)) \<Longrightarrow> reads (sforeach xs f)"
  by (induction xs) (auto intro: reading)

lemma reads_preserves: "reads m \<Longrightarrow> preserves P m"
  by (simp add: reads_def preserves_def)

text \<open>A successful loop of reads means that each read succeeded.\<close>

lemma reads_sforeach_Ok:
  assumes "\<And>x. reads (f x)" "sforeach xs f s = (Inr u, t)" "x \<in> set xs"
  shows "f x s = (Inr (), s)"
  using assms(2,3)
proof (induction xs)
  case (Cons y ys)
  then obtain v where y: "f y s = (Inr (), v)" "sforeach ys f v = (Inr u, t)" by (auto elim: sbind_OkE)
  with assms(1) have "v = s" by (blast dest: readsD)
  with Cons y show ?case by auto
qed simp

section \<open>Operations that advance a state\<close>

text \<open>\<open>advances R m\<close>: unless it panics, \<open>m\<close> takes a state to an \<open>R\<close>-later one, also when it
  fails. For a preorder the composed operations advance when their parts do.\<close>

definition advances :: "('s \<Rightarrow> 's \<Rightarrow> bool) \<Rightarrow> ('s, 'e, 'a) sop \<Rightarrow> bool" where
  "advances R m \<longleftrightarrow> (\<forall>s. case m s of (Inl (Panic _), _) \<Rightarrow> True | (_, t) \<Rightarrow> R s t)"

named_theorems advancing

lemma advancesI:
  "(\<And>s r t. m s = (r, t) \<Longrightarrow> (\<And>p. r \<noteq> Inl (Panic p)) \<Longrightarrow> R s t) \<Longrightarrow> advances R m"
  unfolding advances_def by (auto split: prod.split sum.split failure.split)

lemma advancesD: "advances R m \<Longrightarrow> m s = (r, t) \<Longrightarrow> (\<And>p. r \<noteq> Inl (Panic p)) \<Longrightarrow> R s t"
  unfolding advances_def by (drule spec [of _ s]) (auto split: sum.splits failure.splits)

lemma advances_mono: "advances R m \<Longrightarrow> (\<And>s t. R s t \<Longrightarrow> R' s t) \<Longrightarrow> advances R' m"
  by (rule advancesI) (blast dest: advancesD)

lemma advances_smodify: "(\<And>s. R s (f s)) \<Longrightarrow> advances R (smodify f)"
  by (simp add: advances_def)

locale state_preorder =
  fixes R :: "'s \<Rightarrow> 's \<Rightarrow> bool"
  assumes R_refl: "R s s" and R_trans: "R s t \<Longrightarrow> R t u \<Longrightarrow> R s u"
begin

lemma advances_reads: "reads m \<Longrightarrow> advances R m"
  by (rule advancesI) (drule (1) readsD, simp add: R_refl)

lemmas advances_basic [advancing] = reads_basic [THEN advances_reads]

lemma advances_sbind [advancing]:
  assumes "advances R m" "\<And>x. advances R (k x)"
  shows "advances R (sbind m k)"
proof (rule advancesI)
  fix s r t
  assume run: "sbind m k s = (r, t)" and r: "\<And>p. r \<noteq> Inl (Panic p)"
  obtain r' u where m: "m s = (r', u)" by force
  show "R s t"
  proof (cases r')
    case (Inl f)
    then have "r = Inl f" "t = u" using run m by (simp_all add: sbind_apply)
    with r m Inl show ?thesis by (auto intro: advancesD [OF assms(1)])
  next
    case (Inr x)
    then have "R s u" using m by (auto intro: advancesD [OF assms(1)])
    moreover have "k x u = (r, t)" using run m Inr by (simp add: sbind_apply)
    then have "R u t" using r by (auto intro: advancesD [OF assms(2)])
    ultimately show ?thesis by (rule R_trans)
  qed
qed

lemma advances_sforeach [advancing]:
  assumes "\<And>x. x \<in> set xs \<Longrightarrow> advances R (f x)"
  shows "advances R (sforeach xs f)"
  using assms
proof (induction xs)
  case (Cons x xs)
  then show ?case unfolding sforeach.simps by (auto intro!: advances_sbind)
qed (simp add: advances_def R_refl)

lemma advances_branches [advancing]:
  "advances R m \<Longrightarrow> advances R m' \<Longrightarrow> advances R (if b then m else m')"
  "advances R m \<Longrightarrow> (\<And>x. advances R (k x)) \<Longrightarrow> advances R (case opt of None \<Rightarrow> m | Some x \<Rightarrow> k x)"
  "(\<And>a b. advances R (h a b)) \<Longrightarrow> advances R (case pr of (a, b) \<Rightarrow> h a b)"
  by (simp_all split: option.split prod.split)

end

end
