(* ===== verification/Stake_Data.thy ===== *)
theory Stake_Data
  imports Top_State BTree_Collections "HOL-Library.Product_Lexorder"
begin

text \<open>
  The data of the stake action handler (\<open>core/src/consensus/stake/action_data.rs\<close>): stake
  accounts, stakeholders, delegations, validators, candidates, jail, banned accounts and
  intermediate rewards, each with the operations its type has in the source.

  The code keeps each of them RLP-encoded under a key of the state's action data and removes
  the key where the value is empty or zero. Here each is a typed field of \<open>stake_data\<close>, and
  a missing key is the empty or zero value; loading and saving are reading and writing the
  field. Addresses are derived from public keys by the parameter \<open>adr\<close>
  (\<open>public_to_address\<close>).
\<close>

section \<open>Data\<close>

record validator =
  v_weight :: u64
  v_delegation :: u64
  v_deposit :: u64
  v_pubkey :: public

record candidate =
  c_pubkey :: public
  c_deposit :: u64
  nomination_ends_at :: u64
  c_metadata :: bytes

record prisoner =
  p_address :: address
  p_deposit :: u64
  custody_until :: u64
  released_at :: u64

datatype release_result = NotExists | InCustody | Released prisoner

type_synonym delegation = "(address, u64) btree_map"
type_synonym jail_map = "(address, prisoner) btree_map"

record stake_data =
  ccs :: "address \<Rightarrow> u64"
  stakeholders :: "address btree_set"
  delegations :: "address \<Rightarrow> delegation"
  validators :: "validator list"
  candidates :: "candidate list"
  jailed :: jail_map
  banned :: "address btree_set"
  rewards_previous :: "(address, u64) btree_map"
  rewards_current :: "(address, u64) btree_map"

section \<open>Stake accounts and stakeholders\<close>

definition subtract_balance :: "address \<Rightarrow> u64 \<Rightarrow> u64 \<Rightarrow> (state_error, u64) result" where
  "subtract_balance a bal amount =
     (if bal < amount then Error (InsufficientBalance a bal amount) else Ok (bal - amount))"

definition stake_add_balance :: "u64 \<Rightarrow> u64 \<Rightarrow> u64" where
  "stake_add_balance bal amount = bal + amount"

definition update_by_increased_balance :: "address \<Rightarrow> u64 \<Rightarrow> address btree_set \<Rightarrow> address btree_set" where
  "update_by_increased_balance a bal sh = (if bal > 0 then bset_insert a sh else sh)"

definition delegation_sum :: "delegation \<Rightarrow> u64" where
  "delegation_sum d = bmap_sum d"

definition update_by_decreased_balance :: "address \<Rightarrow> u64 \<Rightarrow> address \<Rightarrow> delegation \<Rightarrow> address btree_set \<Rightarrow>
    ('e, address btree_set) result" where
  "update_by_decreased_balance a bal delegator d sh =
     rbind (rassert ''account.address == delegation.delegator'' (a = delegator)) (\<lambda>_.
     Ok (if bal = 0 \<and> delegation_sum d = 0 then bset_remove a sh else sh))"

section \<open>Delegations\<close>

definition get_quantity :: "delegation \<Rightarrow> address \<Rightarrow> u64" where
  "get_quantity d delegatee = (case bmap_get d delegatee of None \<Rightarrow> 0 | Some q \<Rightarrow> q)"

definition add_quantity :: "address \<Rightarrow> u64 \<Rightarrow> delegation \<Rightarrow> delegation" where
  "add_quantity delegatee q d =
     (if q = 0 then d
      else bmap_insert delegatee ((case bmap_get d delegatee of None \<Rightarrow> 0 | Some w \<Rightarrow> w) + q) d)"

definition subtract_quantity :: "address \<Rightarrow> u64 \<Rightarrow> delegation \<Rightarrow> (state_error, delegation) result" where
  "subtract_quantity delegatee q d =
     (if q = 0 then Ok d
      else case bmap_get d delegatee of
        Some w \<Rightarrow>
          if w > q then Ok (bmap_insert delegatee (w - q) d)
          else if w = q then Ok (bmap_remove delegatee d)
          else Error (FailedToHandleCustomAction ''Cannot subtract more than that is delegated to'')
      | None \<Rightarrow>
          Error (FailedToHandleCustomAction ''Cannot subtract more than that is delegated to''))"

text \<open>\<open>Stakeholders::delegatees\<close>: what every delegatee receives in total.\<close>

definition add_delegation :: "(address, u64) btree_map \<Rightarrow> address \<times> u64 \<Rightarrow> (address, u64) btree_map" where
  "add_delegation res = (\<lambda>(delegatee, q).
     bmap_insert delegatee ((case bmap_get res delegatee of None \<Rightarrow> 0 | Some w \<Rightarrow> w) + q) res)"

definition delegatees :: "stake_data \<Rightarrow> (address, u64) btree_map" where
  "delegatees st = foldl (\<lambda>res sh. foldl add_delegation res (delegations st sh)) [] (stakeholders st)"

section \<open>Candidates\<close>

definition get_candidate :: "(public \<Rightarrow> address) \<Rightarrow> address \<Rightarrow> candidate list \<Rightarrow> candidate option" where
  "get_candidate adr a cs = find (\<lambda>c. adr (c_pubkey c) = a) cs"

definition candidates_remove :: "(public \<Rightarrow> address) \<Rightarrow> address \<Rightarrow> candidate list \<Rightarrow>
    candidate option \<times> candidate list" where
  "candidates_remove adr a cs = (case position (\<lambda>c. adr (c_pubkey c) = a) cs of
     Some index \<Rightarrow> (Some (cs ! index), remove_nth index cs)
   | None \<Rightarrow> (None, cs))"

fun reprioritize_loop :: "(public \<Rightarrow> address) \<Rightarrow> address list \<Rightarrow> candidate list \<Rightarrow> candidate list \<Rightarrow>
    ('e, candidate list) result" where
  "reprioritize_loop adr [] cs renewed = Ok (cs @ renewed)"
| "reprioritize_loop adr (target # targets) cs renewed =
     rbind (expect ''Reprioritize target should be a candidate''
              (position (\<lambda>c. adr (c_pubkey c) = target) cs)) (\<lambda>pos.
     reprioritize_loop adr targets (remove_nth pos cs) (renewed @ [cs ! pos]))"

definition reprioritize :: "(public \<Rightarrow> address) \<Rightarrow> address list \<Rightarrow> candidate list \<Rightarrow> ('e, candidate list) result" where
  "reprioritize adr targets cs = reprioritize_loop adr targets cs []"

definition add_deposit :: "(public \<Rightarrow> address) \<Rightarrow> public \<Rightarrow> u64 \<Rightarrow> u64 \<Rightarrow> bytes \<Rightarrow> candidate list \<Rightarrow>
    ('e, candidate list) result" where
  "add_deposit adr pubkey quantity ends_at mdata cs =
     reprioritize adr [adr pubkey]
       (case position (\<lambda>c. c_pubkey c = pubkey) cs of
          Some index \<Rightarrow>
            let c = cs ! index in
            cs[index := c\<lparr>c_deposit := c_deposit c + quantity,
               nomination_ends_at := (if nomination_ends_at c < ends_at then ends_at else nomination_ends_at c),
               c_metadata := mdata\<rparr>]
        | None \<Rightarrow> cs @ [\<lparr>c_pubkey = pubkey, c_deposit = quantity, nomination_ends_at = ends_at,
                         c_metadata = mdata\<rparr>])"

fun renew_loop :: "(public \<Rightarrow> address) \<Rightarrow> public set \<Rightarrow> u64 \<Rightarrow> address btree_set \<Rightarrow> candidate list \<Rightarrow>
    ('e, candidate list) result" where
  "renew_loop adr to_renew ends_at ban [] = Ok []"
| "renew_loop adr to_renew ends_at ban (c # cs) =
     (if c_pubkey c \<in> to_renew then
        rbind (rassert ''is banned address'' (adr (c_pubkey c) \<notin> set ban)) (\<lambda>_.
        rbind (renew_loop adr to_renew ends_at ban cs) (\<lambda>cs'.
        Ok (c\<lparr>nomination_ends_at := ends_at\<rparr> # cs')))
      else rbind (renew_loop adr to_renew ends_at ban cs) (\<lambda>cs'. Ok (c # cs')))"

definition renew_candidates :: "(public \<Rightarrow> address) \<Rightarrow> validator list \<Rightarrow> u64 \<Rightarrow> address list \<Rightarrow>
    address btree_set \<Rightarrow> candidate list \<Rightarrow> ('e, candidate list) result" where
  "renew_candidates adr vs ends_at inactive ban cs =
     (let to_renew = set (filter (\<lambda>p. adr p \<notin> set inactive) (map v_pubkey vs)) in
      rbind (renew_loop adr to_renew ends_at ban cs) (\<lambda>cs'.
      reprioritize adr (map (adr \<circ> c_pubkey) (filter (\<lambda>c. c_pubkey c \<in> to_renew) cs')) cs'))"

definition drain_expired_candidates :: "u64 \<Rightarrow> candidate list \<Rightarrow> candidate list \<times> candidate list" where
  "drain_expired_candidates term_index cs = partition (\<lambda>c. nomination_ends_at c \<le> term_index) cs"

definition validator_new :: "u64 \<Rightarrow> u64 \<Rightarrow> public \<Rightarrow> validator" where
  "validator_new dlg deposit pubkey =
     \<lparr>v_weight = dlg, v_delegation = dlg, v_deposit = deposit, v_pubkey = pubkey\<rparr>"

definition prepare_validators :: "(public \<Rightarrow> address) \<Rightarrow> candidate list \<Rightarrow> u64 \<Rightarrow>
    (address, u64) btree_map \<Rightarrow> validator list" where
  "prepare_validators adr cs min_dep dlgs =
     sort_key (\<lambda>v. (v_delegation v, v_deposit v))
       (List.map_filter (\<lambda>c. map_option (\<lambda>dlg. validator_new dlg (c_deposit c) (c_pubkey c))
           (bmap_get dlgs (adr (c_pubkey c))))
         (filter (\<lambda>c. c_deposit c \<ge> min_dep) cs))"

section \<open>Jail and banned accounts\<close>

definition jail_add :: "(public \<Rightarrow> address) \<Rightarrow> candidate \<Rightarrow> u64 \<Rightarrow> u64 \<Rightarrow> jail_map \<Rightarrow> ('e, jail_map) result" where
  "jail_add adr c cu ra j =
     rbind (rassert ''custody_until <= released_at'' (cu \<le> ra)) (\<lambda>_.
     let a = adr (c_pubkey c) in
     Ok (bmap_insert a \<lparr>p_address = a, p_deposit = c_deposit c, custody_until = cu, released_at = ra\<rparr> j))"

definition jail_remove :: "address \<Rightarrow> jail_map \<Rightarrow> prisoner option \<times> jail_map" where
  "jail_remove a j = (bmap_get j a, bmap_remove a j)"

definition try_release :: "address \<Rightarrow> u64 \<Rightarrow> jail_map \<Rightarrow> release_result \<times> jail_map" where
  "try_release a term_index j = (case bmap_get j a of
     Some p \<Rightarrow> if custody_until p < term_index then (Released p, bmap_remove a j) else (InCustody, j)
   | None \<Rightarrow> (NotExists, j))"

definition drain_released_prisoners :: "u64 \<Rightarrow> jail_map \<Rightarrow> prisoner list \<times> jail_map" where
  "drain_released_prisoners term_index j =
     (let (released, retained) = partition (\<lambda>p. released_at p \<le> term_index) (map snd j) in
      (released, bmap_of_list (map (\<lambda>p. (p_address p, p)) retained)))"

definition is_banned :: "address \<Rightarrow> address btree_set \<Rightarrow> bool" where
  "is_banned a ban \<longleftrightarrow> a \<in> set ban"

definition banned_add :: "address \<Rightarrow> address btree_set \<Rightarrow> address btree_set" where
  "banned_add a ban = bset_insert a ban"

section \<open>Validators\<close>

definition min_delegation :: "validator list \<Rightarrow> ('e, u64) result" where
  "min_delegation vs = (if vs = [] then Panics ''There must be at least one validators''
     else Ok (Min (set (map v_delegation vs))))"

definition saturating_sub :: "u64 \<Rightarrow> u64 \<Rightarrow> u64" where
  "saturating_sub a b = (if b \<le> a then a - b else 0)"

text \<open>The loop of \<open>update_weight\<close>, over the validators in reverse order.\<close>

fun weigh :: "(public \<Rightarrow> address) \<Rightarrow> address \<Rightarrow> u64 \<Rightarrow> validator list \<Rightarrow> validator list" where
  "weigh adr author mind [] = []"
| "weigh adr author mind (v # vs) =
     (if adr (v_pubkey v) = author
      then v\<lparr>v_weight := saturating_sub (v_weight v) mind\<rparr> # vs
      else v\<lparr>v_weight := saturating_sub (v_weight v) (mind * 2)\<rparr> # weigh adr author mind vs)"

definition validator_reset :: "validator \<Rightarrow> validator" where
  "validator_reset v = v\<lparr>v_weight := v_delegation v\<rparr>"

text \<open>The derived \<open>Ord\<close> of \<open>Validator\<close>: lexicographic in the order of the fields.\<close>

definition validator_key :: "validator \<Rightarrow> u64 \<times> u64 \<times> u64 \<times> public" where
  "validator_key v = (v_weight v, v_delegation v, v_deposit v, v_pubkey v)"

definition update_weight :: "(public \<Rightarrow> address) \<Rightarrow> address \<Rightarrow> validator list \<Rightarrow> ('e, validator list) result" where
  "update_weight adr block_author vs =
     rbind (min_delegation vs) (\<lambda>mind.
       let vs1 = rev (weigh adr block_author mind (rev vs));
           vs2 = (if list_all (\<lambda>v. v_weight v = 0) vs1 then map validator_reset vs1 else vs1) in
       Ok (sort_key validator_key vs2))"

definition validators_remove :: "(public \<Rightarrow> address) \<Rightarrow> address \<Rightarrow> validator list \<Rightarrow> validator list" where
  "validators_remove adr target vs = filter (\<lambda>v. adr (v_pubkey v) \<noteq> target) vs"

definition validators_delegation :: "public \<Rightarrow> validator list \<Rightarrow> u64 option" where
  "validators_delegation pubkey vs = map_option v_delegation (find (\<lambda>v. v_pubkey v = pubkey) vs)"

definition elect_from :: "nat \<Rightarrow> nat \<Rightarrow> u64 \<Rightarrow> validator list \<Rightarrow> validator list" where
  "elect_from max_num min_num threshold sorted_vs =
     (let vs = take max_num (rev sorted_vs);
          n = min min_num (length vs) in
      rev (take n vs @ filter (\<lambda>v. v_delegation v \<ge> threshold) (drop n vs)))"

definition elect :: "(public \<Rightarrow> address) \<Rightarrow> common_params \<Rightarrow> stake_data \<Rightarrow> ('e, validator list) result" where
  "elect adr p st =
     rbind (rassert ''max_num_of_validators >= min_num_of_validators''
              (max_num_of_validators p \<ge> min_num_of_validators p)) (\<lambda>_.
     let vs = prepare_validators adr (candidates st) (min_deposit p) (delegatees st) in
     rbind (rassert ''is banned address''
              (list_all (\<lambda>v. \<not> is_banned (adr (v_pubkey v)) (banned st)) vs)) (\<lambda>_.
     Ok (elect_from (max_num_of_validators p) (min_num_of_validators p) (delegation_threshold p) vs)))"

section \<open>Intermediate rewards\<close>

definition rewards_add_quantity :: "address \<Rightarrow> u64 \<Rightarrow> stake_data \<Rightarrow> stake_data" where
  "rewards_add_quantity a q st =
     (if q = 0 then st
      else st\<lparr>rewards_current := bmap_insert a
        ((case bmap_get (rewards_current st) a of None \<Rightarrow> 0 | Some w \<Rightarrow> w) + q) (rewards_current st)\<rparr>)"

definition drain_previous :: "stake_data \<Rightarrow> (address, u64) btree_map \<times> stake_data" where
  "drain_previous st = (rewards_previous st, st\<lparr>rewards_previous := []\<rparr>)"

definition move_current_to_previous :: "stake_data \<Rightarrow> ('e, stake_data) result" where
  "move_current_to_previous st =
     rbind (rassert ''self.previous.is_empty()'' (rewards_previous st = [])) (\<lambda>_.
     Ok (st\<lparr>rewards_previous := rewards_current st, rewards_current := []\<rparr>))"

end
