(* ===== verification/Stake_Ops.thy ===== *)
theory Stake_Ops
  imports Stake_Data
begin

text \<open>
  The operations of the stake action handler (\<open>core/src/consensus/stake/mod.rs\<close>) on the top
  level state: the custom actions, the block author's rewards, and the work at the end of a
  term. Each is an operation on the state that is left as the code leaves it, also on failure.
\<close>

type_synonym ('x, 'a) stake_op = "(stake_data, 'x, 'a) top_op"

section \<open>Loading and saving\<close>

definition load :: "(stake_data \<Rightarrow> 'a) \<Rightarrow> ('x, 'a) stake_op" where
  "load f = sget (\<lambda>s. f (action_data s))"

definition save :: "(stake_data \<Rightarrow> stake_data) \<Rightarrow> ('x, unit) stake_op" where
  "save f = smodify (\<lambda>s. s\<lparr>action_data := f (action_data s)\<rparr>)"

abbreviation save_ccs :: "address \<Rightarrow> u64 \<Rightarrow> ('x, unit) stake_op" where
  "save_ccs a bal \<equiv> save (\<lambda>st. st\<lparr>ccs := (ccs st)(a := bal)\<rparr>)"

abbreviation save_delegation :: "address \<Rightarrow> delegation \<Rightarrow> ('x, unit) stake_op" where
  "save_delegation a d \<equiv> save (\<lambda>st. st\<lparr>delegations := (delegations st)(a := d)\<rparr>)"

section \<open>Genesis\<close>

fun init_loop :: "(address \<times> u64) list \<Rightarrow> address btree_set \<Rightarrow> ('x, address btree_set) stake_op" where
  "init_loop [] sh = sreturn sh"
| "init_loop ((a, amount) # stakes) sh =
     sbind (save_ccs a amount) (\<lambda>_. init_loop stakes (update_by_increased_balance a amount sh))"

definition stake_init :: "(address \<times> u64) list \<Rightarrow> ('x, unit) stake_op" where
  "stake_init genesis_stakes =
     sbind (load stakeholders) (\<lambda>sh. sbind (init_loop genesis_stakes sh) (\<lambda>sh'.
     save (\<lambda>st. st\<lparr>stakeholders := sh'\<rparr>)))"

section \<open>Custom actions\<close>

definition transfer_ccs :: "address \<Rightarrow> address \<Rightarrow> u64 \<Rightarrow> ('x, unit) stake_op" where
  "transfer_ccs fee_payer receiver quantity =
     sbind (load stakeholders) (\<lambda>sh.
     sbind (load (\<lambda>st. ccs st fee_payer)) (\<lambda>sender_balance.
     sbind (load (\<lambda>st. ccs st receiver)) (\<lambda>receiver_balance.
     sbind (load (\<lambda>st. delegations st fee_payer)) (\<lambda>sender_delegations.
     sbind (slift (subtract_balance fee_payer sender_balance quantity)) (\<lambda>sender_balance'.
     let receiver_balance' = stake_add_balance receiver_balance quantity in
     sbind (slift (update_by_decreased_balance fee_payer sender_balance' fee_payer
              sender_delegations sh)) (\<lambda>sh1.
     let sh2 = update_by_increased_balance receiver receiver_balance' sh1 in
     sbind (save (\<lambda>st. st\<lparr>stakeholders := sh2\<rparr>)) (\<lambda>_.
     sbind (save_ccs fee_payer sender_balance') (\<lambda>_.
     save_ccs receiver receiver_balance'))))))))"

definition delegate_ccs :: "(public \<Rightarrow> address) \<Rightarrow> address \<Rightarrow> address \<Rightarrow> u64 \<Rightarrow> ('x, unit) stake_op" where
  "delegate_ccs adr fee_payer delegatee quantity =
     sbind (load candidates) (\<lambda>cs.
     if get_candidate adr delegatee cs = None
     then sfail (FailedToHandleCustomAction ''Can delegate to who is a candidate'')
     else sbind (load banned) (\<lambda>ban. sbind (load jailed) (\<lambda>j.
       sbind (sassert ''A candidate must not be banned'' (\<not> is_banned delegatee ban)) (\<lambda>_.
       sbind (sassert ''A candidate must not be jailed'' (bmap_get j delegatee = None)) (\<lambda>_.
       sbind (load (\<lambda>st. ccs st fee_payer)) (\<lambda>delegator.
       sbind (load (\<lambda>st. delegations st fee_payer)) (\<lambda>dlg.
       sbind (slift (subtract_balance fee_payer delegator quantity)) (\<lambda>delegator'.
       sbind (save_delegation fee_payer (add_quantity delegatee quantity dlg)) (\<lambda>_.
       save_ccs fee_payer delegator')))))))))"

definition revoke :: "address \<Rightarrow> address \<Rightarrow> u64 \<Rightarrow> ('x, unit) stake_op" where
  "revoke fee_payer delegatee quantity =
     sbind (load (\<lambda>st. ccs st fee_payer)) (\<lambda>delegator.
     sbind (load (\<lambda>st. delegations st fee_payer)) (\<lambda>dlg.
     let delegator' = stake_add_balance delegator quantity in
     sbind (slift (subtract_quantity delegatee quantity dlg)) (\<lambda>dlg'.
     sbind (save_delegation fee_payer dlg') (\<lambda>_.
     save_ccs fee_payer delegator'))))"

definition self_nominate :: "(public \<Rightarrow> address) \<Rightarrow> address \<Rightarrow> public \<Rightarrow> u64 \<Rightarrow> u64 \<Rightarrow> u64 \<Rightarrow> bytes \<Rightarrow>
    ('x, unit) stake_op" where
  "self_nominate adr fee_payer sender_public deposit current_term ends_at mdata =
     (if adr sender_public \<noteq> fee_payer
      then sfail (FailedToHandleCustomAction ''Cannot Self-nominate with regular key'')
      else sbind (load banned) (\<lambda>blacklist.
      if is_banned fee_payer blacklist
      then sfail (FailedToHandleCustomAction ''Account is blacklisted'')
      else sbind (load jailed) (\<lambda>j.
      let (released, j') = try_release fee_payer current_term j in
      sbind (case released of
               InCustody \<Rightarrow> sfail (FailedToHandleCustomAction ''Account is still in custody'')
             | NotExists \<Rightarrow> sreturn deposit
             | Released p \<Rightarrow> sbind (sassert ''prisoner.address == fee_payer'' (p_address p = fee_payer)) (\<lambda>_.
                 sreturn (p_deposit p + deposit))) (\<lambda>total_deposit.
      sbind (load candidates) (\<lambda>cs.
      sbind (sub_balance fee_payer deposit) (\<lambda>_.
      sbind (slift (add_deposit adr sender_public total_deposit ends_at mdata cs)) (\<lambda>cs'.
      sbind (save (\<lambda>st. st\<lparr>jailed := j'\<rparr>)) (\<lambda>_.
      save (\<lambda>st. st\<lparr>candidates := cs'\<rparr>)))))))))"

definition get_stakes :: "stake_data \<Rightarrow> (address, u64) btree_map" where
  "get_stakes st = foldl (\<lambda>res sh.
     bmap_insert sh (ccs st sh + delegation_sum (delegations st sh)) res) [] (stakeholders st)"

text \<open>The \<open>try_fold\<close> of \<open>change_params\<close>: the stakes of the signers, by the order of the
  signatures.\<close>

fun sum_signed :: "key_lib \<Rightarrow> h256 \<Rightarrow> (address, u64) btree_map \<Rightarrow> signature list \<Rightarrow> u64 \<Rightarrow>
    (state_error, u64) result" where
  "sum_signed kl msg stakes [] acc = Ok acc"
| "sum_signed kl msg stakes (sig # sigs) acc =
     rbind (expect ''The transaction with an invalid signature cannot pass the verification''
              (recover kl sig msg)) (\<lambda>public.
     let a = public_to_address kl public in
     rbind (ok_or (SignatureOfInvalidAccount a) (bmap_get stakes a)) (\<lambda>stake.
     sum_signed kl msg stakes sigs (acc + stake)))"

text \<open>\<open>encoded_action\<close> is the hash of the encoded action without its signatures.\<close>

definition change_params :: "key_lib \<Rightarrow> (u64 \<Rightarrow> common_params \<Rightarrow> h256) \<Rightarrow> u64 \<Rightarrow> common_params \<Rightarrow>
    signature list \<Rightarrow> ('x, unit) stake_op" where
  "change_params kl encoded_action metadata_seq params signatures =
     sbind (update_params metadata_seq params) (\<lambda>_.
     sbind (load get_stakes) (\<lambda>stakes.
     sbind (slift (sum_signed kl (encoded_action metadata_seq params) stakes signatures 0)) (\<lambda>signed_stakes.
     let total_stakes = bmap_sum stakes in
     if total_stakes div 2 \<ge> signed_stakes then sfail (InsufficientStakes total_stakes signed_stakes)
     else sreturn ())))"

section \<open>Reverting delegations\<close>

text \<open>The inner loop of \<open>revert_delegations\<close>, for one stakeholder.\<close>

fun revert_one :: "address list \<Rightarrow> u64 \<Rightarrow> delegation \<Rightarrow> (state_error, u64 \<times> delegation) result" where
  "revert_one [] delegator dlg = Ok (delegator, dlg)"
| "revert_one (delegatee # rest) delegator dlg =
     (let quantity = get_quantity dlg delegatee in
      if quantity > 0 then
        rbind (subtract_quantity delegatee quantity dlg) (\<lambda>dlg'.
        revert_one rest (stake_add_balance delegator quantity) dlg')
      else revert_one rest delegator dlg)"

definition revert_delegations :: "address list \<Rightarrow> ('x, unit) stake_op" where
  "revert_delegations reverted =
     sbind (load stakeholders) (\<lambda>shs. sforeach shs (\<lambda>stakeholder.
       sbind (load (\<lambda>st. ccs st stakeholder)) (\<lambda>delegator.
       sbind (load (\<lambda>st. delegations st stakeholder)) (\<lambda>dlg.
       sbind (slift (revert_one reverted delegator dlg)) (\<lambda>(delegator', dlg').
       sbind (save_delegation stakeholder dlg') (\<lambda>_.
       save_ccs stakeholder delegator'))))))"

section \<open>Banning and jailing\<close>

definition ban :: "(public \<Rightarrow> address) \<Rightarrow> public \<Rightarrow> address \<Rightarrow> ('x, unit) stake_op" where
  "ban adr informant criminal =
     sbind (load banned) (\<lambda>bn.
     if is_banned criminal bn
     then sfail (FailedToHandleCustomAction ''Account is already banned'')
     else sbind (load candidates) (\<lambda>cs. sbind (load jailed) (\<lambda>j. sbind (load validators) (\<lambda>vs.
       let (candidate, cs') = candidates_remove adr criminal cs;
           (prisoner, j') = jail_remove criminal j in
       sbind (case (candidate, prisoner) of
                (Some _, Some _) \<Rightarrow> spanic ''A candidate that are jailed cannot exist''
              | (Some c, None) \<Rightarrow> sreturn (c_deposit c)
              | (None, Some p) \<Rightarrow> sreturn (p_deposit p)
              | (None, None) \<Rightarrow> sreturn 0) (\<lambda>deposit.
       sbind (add_balance (adr informant) deposit) (\<lambda>_.
       sbind (save (\<lambda>st. st\<lparr>jailed := snd (jail_remove criminal j')\<rparr>)) (\<lambda>_.
       sbind (save (\<lambda>st. st\<lparr>banned := banned_add criminal bn\<rparr>)) (\<lambda>_.
       sbind (save (\<lambda>st. st\<lparr>candidates := cs'\<rparr>)) (\<lambda>_.
       sbind (save (\<lambda>st. st\<lparr>validators := validators_remove adr criminal vs\<rparr>)) (\<lambda>_.
       revert_delegations [criminal]))))))))))"

fun jail_loop :: "(public \<Rightarrow> address) \<Rightarrow> u64 \<Rightarrow> u64 \<Rightarrow> address list \<Rightarrow> candidate list \<Rightarrow> jail_map \<Rightarrow>
    (state_error, candidate list \<times> jail_map) result" where
  "jail_loop adr cu kick [] cs j = Ok (cs, j)"
| "jail_loop adr cu kick (a # as) cs j =
     (let (removed, cs') = candidates_remove adr a cs in
      rbind (expect ''There should be a candidate to jail'' removed) (\<lambda>c.
      rbind (jail_add adr c cu kick j) (\<lambda>j'.
      jail_loop adr cu kick as cs' j')))"

definition jail :: "(public \<Rightarrow> address) \<Rightarrow> address list \<Rightarrow> u64 \<Rightarrow> u64 \<Rightarrow> ('x, unit) stake_op" where
  "jail adr addresses cu kick_at =
     (if addresses = [] then sreturn ()
      else sbind (load candidates) (\<lambda>cs. sbind (load jailed) (\<lambda>j.
        sbind (slift (jail_loop adr cu kick_at addresses cs j)) (\<lambda>(cs', j').
        sbind (save (\<lambda>st. st\<lparr>jailed := j'\<rparr>)) (\<lambda>_.
        save (\<lambda>st. st\<lparr>candidates := cs'\<rparr>))))))"

section \<open>The end of a term\<close>

definition update_candidates :: "(public \<Rightarrow> address) \<Rightarrow> u64 \<Rightarrow> u64 \<Rightarrow> address list \<Rightarrow>
    ('x, address list) stake_op" where
  "update_candidates adr current_term expiration inactive =
     sbind (load banned) (\<lambda>bn. sbind (load candidates) (\<lambda>cs. sbind (load validators) (\<lambda>vs.
     sbind (slift (renew_candidates adr vs (current_term + expiration) inactive bn cs)) (\<lambda>cs1.
     let (expired, cs2) = drain_expired_candidates current_term cs1 in
     sbind (sforeach expired (\<lambda>c. add_balance (adr (c_pubkey c)) (c_deposit c))) (\<lambda>_.
     sbind (save (\<lambda>st. st\<lparr>candidates := cs2\<rparr>)) (\<lambda>_.
     sreturn (map (adr \<circ> c_pubkey) expired)))))))"

definition release_jailed_prisoners :: "u64 \<Rightarrow> ('x, address list) stake_op" where
  "release_jailed_prisoners current_term =
     sbind (load jailed) (\<lambda>j.
     let (released, j') = drain_released_prisoners current_term j in
     sbind (sforeach released (\<lambda>p. add_balance (p_address p) (p_deposit p))) (\<lambda>_.
     sbind (save (\<lambda>st. st\<lparr>jailed := j'\<rparr>)) (\<lambda>_.
     sreturn (map p_address released))))"

definition on_term_close :: "(public \<Rightarrow> address) \<Rightarrow> u64 \<Rightarrow> address list \<Rightarrow> ('x, unit) stake_op" where
  "on_term_close adr last_term_finished inactive =
     sbind (sget md) (\<lambda>m. sbind (slift (expect ''The metadata must exist'' m)) (\<lambda>mdata.
     let current_term = current_term_id (md_term mdata) in
     sbind (slift (expect ''the metadata always has CommonParams'' (md_params mdata))) (\<lambda>p.
     sbind (sassert ''nomination_expiration'' (nomination_expiration p \<noteq> 0)) (\<lambda>_.
     sbind (sassert ''custody_period'' (custody_period p \<noteq> 0)) (\<lambda>_.
     sbind (sassert ''release_period'' (release_period p \<noteq> 0)) (\<lambda>_.
     sbind (update_candidates adr current_term (nomination_expiration p) inactive) (\<lambda>expired.
     sbind (release_jailed_prisoners current_term) (\<lambda>released.
     sbind (revert_delegations (expired @ released)) (\<lambda>_.
     sbind (jail adr inactive (current_term + custody_period p) (current_term + release_period p)) (\<lambda>_.
     sbind (load (elect adr p)) (\<lambda>elected. sbind (slift elected) (\<lambda>vs.
     sbind (save (\<lambda>st. st\<lparr>validators := vs\<rparr>)) (\<lambda>_.
     increase_term_id last_term_finished)))))))))))))"

section \<open>Rewards and weights\<close>

definition add_intermediate_rewards :: "address \<Rightarrow> u64 \<Rightarrow> ('x, unit) stake_op" where
  "add_intermediate_rewards a reward = save (rewards_add_quantity a reward)"

definition drain_previous_rewards :: "('x, (address, u64) btree_map) stake_op" where
  "drain_previous_rewards =
     sbind (load (fst \<circ> drain_previous)) (\<lambda>drained. sbind (save (snd \<circ> drain_previous)) (\<lambda>_.
     sreturn drained))"

definition move_current_to_previous_intermediate_rewards :: "('x, unit) stake_op" where
  "move_current_to_previous_intermediate_rewards =
     sbind (load move_current_to_previous) (\<lambda>r. sbind (slift r) (\<lambda>st. save (\<lambda>_. st)))"

definition update_validator_weights :: "(public \<Rightarrow> address) \<Rightarrow> address \<Rightarrow> ('x, unit) stake_op" where
  "update_validator_weights adr block_author =
     sbind (load validators) (\<lambda>vs. sbind (slift (update_weight adr block_author vs)) (\<lambda>vs'.
     save (\<lambda>st. st\<lparr>validators := vs'\<rparr>)))"

end
