(* ===== verification/Stake_Ledger.thy ===== *)
theory Stake_Ledger
  imports Stake_Ops State_Hoare
begin

text \<open>
  The stake ledger: what every account holds in CCS, undelegated or delegated. The ledger is
  well formed when the stakeholders are exactly those who hold stake, delegations
  are non-zero, and the total fits a \<open>u64\<close>; transferring to someone else, delegating,
  revoking and reverting delegations keep it so and keep the total.
\<close>

section \<open>Holdings\<close>

definition holding :: "stake_data \<Rightarrow> address \<Rightarrow> nat" where
  "holding st a = unat (ccs st a) + bmap_total (delegations st a)"

definition total_ccs :: "stake_data \<Rightarrow> nat" where
  "total_ccs st = (\<Sum>a\<in>UNIV. holding st a)"

definition ledger_inv :: "stake_data \<Rightarrow> bool" where
  "ledger_inv st \<longleftrightarrow>
     bset_inv (stakeholders st) \<and>
     (\<forall>a. bmap_inv (delegations st a)) \<and>
     (\<forall>a k. bmap_get (delegations st a) k \<noteq> Some 0) \<and>
     (\<forall>a. a \<in> set (stakeholders st) \<longleftrightarrow> holding st a \<noteq> 0) \<and>
     total_ccs st < 2 ^ 64"

lemma sum_one_changed:
  fixes f g :: "'a::finite \<Rightarrow> nat"
  assumes "\<And>x. x \<noteq> a \<Longrightarrow> g x = f x"
  shows "(\<Sum>x\<in>UNIV. g x) + f a = (\<Sum>x\<in>UNIV. f x) + g a"
proof -
  have "(\<Sum>x\<in>UNIV - {a}. g x) = (\<Sum>x\<in>UNIV - {a}. f x)"
    by (rule sum.cong) (auto simp: assms)
  moreover have "(\<Sum>x\<in>UNIV. h x) = h a + (\<Sum>x\<in>UNIV - {a}. h x)" for h :: "'a \<Rightarrow> nat"
    by (rule sum.remove) simp_all
  ultimately show ?thesis by simp
qed

lemma holding_le_total: "holding st a \<le> total_ccs st"
  unfolding total_ccs_def by (rule member_le_sum) simp_all

lemma total_ccs_one_changed:
  assumes "\<And>x. x \<noteq> a \<Longrightarrow> holding st' x = holding st x"
  shows "total_ccs st' + holding st a = total_ccs st + holding st' a"
  unfolding total_ccs_def by (rule sum_one_changed) (rule assms)

lemma total_ccs_two_changed:
  assumes "\<And>x. x \<noteq> a \<Longrightarrow> x \<noteq> b \<Longrightarrow> holding st' x = holding st x" "a \<noteq> b"
    and "holding st' a + holding st' b = holding st a + holding st b"
  shows "total_ccs st' = total_ccs st"
proof -
  let ?h = "(holding st)(a := holding st' a)"
  have "(\<Sum>x\<in>UNIV. ?h x) + holding st a = total_ccs st + ?h a"
    unfolding total_ccs_def by (rule sum_one_changed) simp
  moreover have "total_ccs st' + ?h b = (\<Sum>x\<in>UNIV. ?h x) + holding st' b"
    unfolding total_ccs_def by (rule sum_one_changed) (simp add: assms(1))
  ultimately show ?thesis using assms(2,3) by simp
qed

section \<open>One delegation\<close>

lemma add_quantity_spec:
  assumes "bmap_inv d" "bmap_total d + unat q < 2 ^ 64"
  shows "bmap_inv (add_quantity k q d)" "bmap_total (add_quantity k q d) = bmap_total d + unat q"
    and "(\<And>x. bmap_get d x \<noteq> Some 0) \<Longrightarrow> bmap_get (add_quantity k q d) x \<noteq> Some 0"
    and "x \<noteq> k \<Longrightarrow> bmap_get (add_quantity k q d) x = bmap_get d x"
proof -
  show "bmap_inv (add_quantity k q d)" using assms(1) by (simp add: add_quantity_def)
  show tot: "bmap_total (add_quantity k q d) = bmap_total d + unat q"
    using bmap.total_add_entry [OF assms] by (simp add: add_quantity_def)
  show "x \<noteq> k \<Longrightarrow> bmap_get (add_quantity k q d) x = bmap_get d x"
    using assms(1) by (simp add: add_quantity_def)
  assume nz: "\<And>x. bmap_get d x \<noteq> Some 0"
  let ?old = "case bmap_get d k of None \<Rightarrow> 0 | Some w \<Rightarrow> w"
  have "unat ?old \<le> bmap_total d"
    using bmap.get_le_total [OF assms(1)] by (simp split: option.split)
  then have "unat (?old + q) = unat ?old + unat q"
    using assms(2) by (simp add: unat_word_ariths)
  then have "q \<noteq> 0 \<Longrightarrow> ?old + q \<noteq> 0"
    by (metis add_eq_0_iff_both_eq_0 unat_0 unat_eq_zero)
  with nz assms(1) show "bmap_get (add_quantity k q d) x \<noteq> Some 0"
    by (auto simp: add_quantity_def)
qed

lemma subtract_quantity_spec:
  assumes "bmap_inv d" "subtract_quantity k q d = Ok d'"
  shows "bmap_inv d'" "bmap_total d' + unat q = bmap_total d"
    and "(\<And>x. bmap_get d x \<noteq> Some 0) \<Longrightarrow> bmap_get d' x \<noteq> Some 0"
    and "x \<noteq> k \<Longrightarrow> bmap_get d' x = bmap_get d x"
    and "q \<noteq> 0 \<Longrightarrow> q = get_quantity d k \<Longrightarrow> bmap_get d' k = None"
proof -
  have d': "d' = (if q = 0 then d else if the (bmap_get d k) = q then bmap_remove k d
      else bmap_insert k (the (bmap_get d k) - q) d)"
    and le: "q \<noteq> 0 \<Longrightarrow> \<exists>w. bmap_get d k = Some w \<and> q \<le> w"
    using assms(2) by (auto simp: subtract_quantity_def split: if_splits option.splits)
  show "bmap_inv d'" using assms(1) by (simp add: d')
  show "bmap_total d' + unat q = bmap_total d"
    using le bmap.total_sub_entry [OF assms(1)] bmap.total_del_entry [OF assms(1)] by (auto simp: d')
  show "x \<noteq> k \<Longrightarrow> bmap_get d' x = bmap_get d x" using assms(1) by (simp add: d')
  show "bmap_get d' k = None" if "q \<noteq> 0" "q = get_quantity d k"
    using that assms(1) le by (auto simp: d' get_quantity_def)
  show "bmap_get d' x \<noteq> Some 0" if "\<And>x. bmap_get d x \<noteq> Some 0"
    using that assms(1) le by (auto simp: d')
qed

lemma subtract_quantity_whole:
  assumes "bmap_inv d" "get_quantity d k > 0"
  shows "\<exists>d'. subtract_quantity k (get_quantity d k) d = Ok d'"
  using assms by (auto simp: subtract_quantity_def get_quantity_def split: option.splits)

section \<open>Changing the holdings of one account\<close>

definition set_holding :: "address \<Rightarrow> u64 \<Rightarrow> delegation \<Rightarrow> stake_data \<Rightarrow> stake_data" where
  "set_holding a bal d st = st\<lparr>delegations := (delegations st)(a := d), ccs := (ccs st)(a := bal)\<rparr>"

lemma holding_set_holding:
  "holding (set_holding a bal d st) x = (if x = a then unat bal + bmap_total d else holding st x)"
  by (simp add: holding_def set_holding_def)

lemma set_holding_inv:
  assumes "ledger_inv st" "bmap_inv d" "\<And>k. bmap_get d k \<noteq> Some 0"
    and "unat bal + bmap_total d = holding st a"
  shows "ledger_inv (set_holding a bal d st)" "total_ccs (set_holding a bal d st) = total_ccs st"
proof -
  have same: "holding (set_holding a bal d st) x = holding st x" for x
    using assms(4) by (simp add: holding_set_holding)
  show tot: "total_ccs (set_holding a bal d st) = total_ccs st"
    by (simp add: total_ccs_def same)
  have sh: "stakeholders (set_holding a bal d st) = stakeholders st"
    and dl: "delegations (set_holding a bal d st) = (delegations st)(a := d)"
    by (simp_all add: set_holding_def)
  show "ledger_inv (set_holding a bal d st)"
    using assms(1-3) unfolding ledger_inv_def same tot sh dl by auto
qed

lemma ledger_invD:
  assumes "ledger_inv st"
  shows "bset_inv (stakeholders st)" "bmap_inv (delegations st a)"
    "bmap_get (delegations st a) k \<noteq> Some 0" "a \<in> set (stakeholders st) \<longleftrightarrow> holding st a \<noteq> 0"
    "total_ccs st < 2 ^ 64" "holding st a < 2 ^ 64"
  using assms holding_le_total [of st a] by (auto simp: ledger_inv_def)

section \<open>Delegating and revoking\<close>

lemma load_save_apply [simp]:
  "load f s = (Ok (f (action_data s)), s)"
  "save g s = (Ok (), s\<lparr>action_data := g (action_data s)\<rparr>)"
  by (simp_all add: load_def save_def)

lemma sbind_load_save [simp]:
  "sbind (load f) k s = k (f (action_data s)) s"
  "sbind (save g) h s = h () (s\<lparr>action_data := g (action_data s)\<rparr>)"
  by (simp_all add: sbind_apply)

lemma subtract_balance_Ok [simp]:
  "subtract_balance a bal q = Inr bal' \<longleftrightarrow> q \<le> bal \<and> bal' = bal - q"
  by (auto simp: subtract_balance_def)

lemma delegate_ccs_Ok:
  assumes "delegate_ccs adr a k q s = (Ok u, t)"
  shows "\<exists>c\<in>set (candidates (action_data s)). adr (c_pubkey c) = k"
    and "q \<le> ccs (action_data s) a"
    and "t = s\<lparr>action_data := set_holding a (ccs (action_data s) a - q)
      (add_quantity k q (delegations (action_data s) a)) (action_data s)\<rparr>"
proof -
  have "get_candidate adr k (candidates (action_data s)) \<noteq> None"
    using assms by (auto simp: delegate_ccs_def split: if_splits)
  then show "\<exists>c\<in>set (candidates (action_data s)). adr (c_pubkey c) = k"
    by (auto simp: get_candidate_def find_None_iff)
  have "q \<le> ccs (action_data s) a \<and> t = s\<lparr>action_data := set_holding a (ccs (action_data s) a - q)
      (add_quantity k q (delegations (action_data s) a)) (action_data s)\<rparr>"
    using assms
    by (auto simp: delegate_ccs_def sbind_apply sassert_def set_holding_def subtract_balance_def
        split: if_splits)
  then show "q \<le> ccs (action_data s) a"
    and "t = s\<lparr>action_data := set_holding a (ccs (action_data s) a - q)
      (add_quantity k q (delegations (action_data s) a)) (action_data s)\<rparr>" by auto
qed

lemma revoke_Ok:
  assumes "revoke a k q s = (Ok u, t)"
  obtains d' where "subtract_quantity k q (delegations (action_data s) a) = Ok d'"
    "t = s\<lparr>action_data := set_holding a (ccs (action_data s) a + q) d' (action_data s)\<rparr>"
  using assms that
  by (auto simp: revoke_def sbind_apply Let_def set_holding_def stake_add_balance_def
      split: sum.splits)

lemma delegate_holding:
  assumes "ledger_inv st" "q \<le> ccs st a"
  shows "ledger_inv (set_holding a (ccs st a - q) (add_quantity k q (delegations st a)) st)"
    and "total_ccs (set_holding a (ccs st a - q) (add_quantity k q (delegations st a)) st) = total_ccs st"
proof -
  let ?d = "delegations st a"
  note inv = ledger_invD [OF assms(1)]
  have q: "unat q \<le> unat (ccs st a)" "unat (ccs st a - q) = unat (ccs st a) - unat q"
    using assms(2) by (simp_all add: word_le_nat_alt unat_sub_if')
  then have lt: "bmap_total ?d + unat q < 2 ^ 64"
    using inv(6) [of a] by (simp add: holding_def)
  note add = add_quantity_spec [OF inv(2) lt]
  have "unat (ccs st a - q) + bmap_total (add_quantity k q ?d) = holding st a"
    using q add(2) by (simp add: holding_def)
  from set_holding_inv [OF assms(1) add(1) _ this] add(3) inv(3)
  show "ledger_inv (set_holding a (ccs st a - q) (add_quantity k q ?d) st)"
    and "total_ccs (set_holding a (ccs st a - q) (add_quantity k q ?d) st) = total_ccs st" by auto
qed

lemma revoke_holding:
  assumes "ledger_inv st" "subtract_quantity k q (delegations st a) = Ok d'"
  shows "ledger_inv (set_holding a (ccs st a + q) d' st)"
    and "total_ccs (set_holding a (ccs st a + q) d' st) = total_ccs st"
proof -
  note inv = ledger_invD [OF assms(1)]
  note sub = subtract_quantity_spec [OF inv(2) assms(2)]
  have "unat (ccs st a) + unat q < 2 ^ 64"
    using inv(6) [of a] sub(2) by (simp add: holding_def)
  then have "unat (ccs st a + q) = unat (ccs st a) + unat q" by (simp add: unat_word_ariths)
  then have "unat (ccs st a + q) + bmap_total d' = holding st a"
    using sub(2) by (simp add: holding_def)
  from set_holding_inv [OF assms(1) sub(1) _ this] sub(3) inv(3)
  show "ledger_inv (set_holding a (ccs st a + q) d' st)"
    and "total_ccs (set_holding a (ccs st a + q) d' st) = total_ccs st" by auto
qed

section \<open>Transfers\<close>

lemma transfer_ccs_Ok:
  assumes "transfer_ccs a b q s = (Ok u, t)"
  shows "q \<le> ccs (action_data s) a"
    and "\<exists>shs. t = s\<lparr>action_data := (action_data s)\<lparr>stakeholders := shs,
      ccs := (ccs (action_data s))(a := ccs (action_data s) a - q, b := ccs (action_data s) b + q)\<rparr>\<rparr> \<and>
      shs = update_by_increased_balance b (ccs (action_data s) b + q)
        (if ccs (action_data s) a - q = 0 \<and> delegation_sum (delegations (action_data s) a) = 0
         then bset_remove a (stakeholders (action_data s)) else stakeholders (action_data s))"
proof -
  show "q \<le> ccs (action_data s) a"
    using assms by (auto simp: transfer_ccs_def sbind_apply subtract_balance_def split: if_splits)
  then show "\<exists>shs. t = s\<lparr>action_data := (action_data s)\<lparr>stakeholders := shs,
      ccs := (ccs (action_data s))(a := ccs (action_data s) a - q, b := ccs (action_data s) b + q)\<rparr>\<rparr> \<and>
      shs = update_by_increased_balance b (ccs (action_data s) b + q)
        (if ccs (action_data s) a - q = 0 \<and> delegation_sum (delegations (action_data s) a) = 0
         then bset_remove a (stakeholders (action_data s)) else stakeholders (action_data s))"
    using assms
    by (simp add: transfer_ccs_def subtract_balance_def Let_def stake_add_balance_def
        update_by_decreased_balance_def leD)
qed

lemma update_by_increased_inv [simp]:
  "bset_inv shs \<Longrightarrow> bset_inv (update_by_increased_balance a bal shs)"
  by (simp add: update_by_increased_balance_def)

lemma set_update_by_increased:
  "set (update_by_increased_balance a bal shs) = set shs \<union> (if bal = 0 then {} else {a})"
  by (auto simp: update_by_increased_balance_def word_neq_0_conv)

lemma delegation_sum_zero:
  assumes "ledger_inv st"
  shows "delegation_sum (delegations st a) = 0 \<longleftrightarrow> bmap_total (delegations st a) = 0"
proof -
  have "bmap_total (delegations st a) < 2 ^ 64"
    using ledger_invD(6) [OF assms, of a] by (simp add: holding_def)
  then have "unat (delegation_sum (delegations st a)) = bmap_total (delegations st a)"
    by (simp add: delegation_sum_def bmap_sum_unat)
  then show ?thesis by (metis unat_eq_zero)
qed

text \<open>The data after a transfer of \<open>q\<close> from \<open>a\<close> to \<open>b\<close>.\<close>

definition transferred :: "address \<Rightarrow> address \<Rightarrow> u64 \<Rightarrow> stake_data \<Rightarrow> stake_data" where
  "transferred a b q st = st\<lparr>
     stakeholders := update_by_increased_balance b (ccs st b + q)
       (if ccs st a - q = 0 \<and> delegation_sum (delegations st a) = 0
        then bset_remove a (stakeholders st) else stakeholders st),
     ccs := (ccs st)(a := ccs st a - q, b := ccs st b + q)\<rparr>"

lemma transferred_holding:
  assumes "ledger_inv st" "q \<le> ccs st a" "a \<noteq> b"
  shows "unat (ccs st b + q) = unat (ccs st b) + unat q"
    and "holding (transferred a b q st) x = (if x = b then holding st b + unat q
      else if x = a then holding st a - unat q else holding st x)"
    and "total_ccs (transferred a b q st) = total_ccs st"
proof -
  have q: "unat q \<le> unat (ccs st a)" "unat (ccs st a - q) = unat (ccs st a) - unat q"
    using assms(2) by (simp_all add: word_le_nat_alt unat_sub_if')
  have "holding st a + holding st b \<le> total_ccs st"
    using sum_mono2 [of UNIV "{a, b}" "holding st"] assms(3) by (simp add: total_ccs_def)
  then have "unat (ccs st b) + unat q < 2 ^ 64"
    using ledger_invD(5) [OF assms(1)] q(1) by (simp add: holding_def)
  then show b: "unat (ccs st b + q) = unat (ccs st b) + unat q" by (simp add: unat_word_ariths)
  show hold: "holding (transferred a b q st) x = (if x = b then holding st b + unat q
      else if x = a then holding st a - unat q else holding st x)" for x
    using assms(3) q b by (auto simp: holding_def transferred_def)
  have "unat q \<le> holding st a" using q(1) by (simp add: holding_def)
  then show "total_ccs (transferred a b q st) = total_ccs st"
    using assms(3) by (intro total_ccs_two_changed [of a b]) (simp_all add: hold)
qed

lemma transferred_stakeholders:
  assumes "ledger_inv st" "q \<le> ccs st a" "a \<noteq> b"
  shows "x \<in> set (stakeholders (transferred a b q st)) \<longleftrightarrow> holding (transferred a b q st) x \<noteq> 0"
proof -
  let ?gone = "ccs st a - q = 0 \<and> delegation_sum (delegations st a) = 0"
  note hold = transferred_holding [OF assms]
  have set: "x \<in> set (stakeholders (transferred a b q st)) \<longleftrightarrow>
      (holding st x \<noteq> 0 \<and> (x = a \<longrightarrow> \<not> ?gone)) \<or> (x = b \<and> ccs st b + q \<noteq> 0)"
    by (auto simp: transferred_def set_update_by_increased ledger_invD(4) [OF assms(1)])
  have "unat (ccs st a - q) = unat (ccs st a) - unat q" "unat q \<le> unat (ccs st a)"
    using assms(2) by (simp_all add: word_le_nat_alt unat_sub_if')
  moreover from this have "ccs st a - q = 0 \<longleftrightarrow> unat (ccs st a) - unat q = 0"
    by (metis unat_eq_zero)
  ultimately have gone: "?gone \<longleftrightarrow> holding st a - unat q = 0"
    unfolding delegation_sum_zero [OF assms(1)] holding_def by linarith
  have zero: "ccs st b + q = 0 \<longleftrightarrow> unat (ccs st b) + unat q = 0"
    using hold(1) by (metis unat_eq_zero)
  show ?thesis
    unfolding set gone zero hold(2) using assms(3) by (auto simp: holding_def)
qed

lemma transferred_inv:
  assumes "ledger_inv st" "q \<le> ccs st a" "a \<noteq> b"
  shows "ledger_inv (transferred a b q st)"
proof -
  have "bset_inv (stakeholders (transferred a b q st))"
    using ledger_invD(1) [OF assms(1)] by (simp add: transferred_def)
  moreover have "delegations (transferred a b q st) = delegations st" by (simp add: transferred_def)
  ultimately show ?thesis
    using ledger_invD [OF assms(1)] transferred_holding(3) [OF assms] transferred_stakeholders [OF assms]
    unfolding ledger_inv_def by simp
qed

text \<open>
  C8: a transfer of stake to another account keeps the ledger well formed (the stakeholders are
  exactly those who hold stake, nothing overflows) and the total of all stake unchanged.
\<close>

theorem transfer_ccs_conserves:
  assumes "ledger_inv (action_data s)" "transfer_ccs a b q s = (Ok u, t)" "a \<noteq> b"
  shows "ledger_inv (action_data t) \<and> total_ccs (action_data t) = total_ccs (action_data s)"
proof -
  have q: "q \<le> ccs (action_data s) a" by (rule transfer_ccs_Ok(1) [OF assms(2)])
  have t: "action_data t = transferred a b q (action_data s)"
    using transfer_ccs_Ok(2) [OF assms(2)] by (auto simp: transferred_def)
  show ?thesis
    using transferred_inv [OF assms(1) q assms(3)] transferred_holding(3) [OF assms(1) q assms(3)]
    by (simp add: t)
qed

text \<open>
  C9: a transfer of stake to oneself creates stake out of nothing. Both the sender's and the
  receiver's record are read before either is written, so the receiver's record, written
  last, is the old balance plus the quantity.
\<close>

theorem transfer_ccs_to_self_mints:
  assumes "q \<le> ccs (action_data s) a" "total_ccs (action_data s) + unat q < 2 ^ 64"
  shows "\<exists>t. transfer_ccs a a q s = (Ok (), t) \<and>
    ccs (action_data t) a = ccs (action_data s) a + q \<and>
    total_ccs (action_data t) = total_ccs (action_data s) + unat q"
proof -
  let ?st = "action_data s"
  have "\<not> ccs ?st a < q" using assms(1) by simp
  then obtain t where t: "transfer_ccs a a q s = (Ok (), t)"
    by (simp add: transfer_ccs_def subtract_balance_def update_by_decreased_balance_def Let_def)
  have new: "ccs (action_data t) = (ccs ?st)(a := ccs ?st a + q)"
    "delegations (action_data t) = delegations ?st"
    using transfer_ccs_Ok(2) [OF t] by auto
  have "unat (ccs ?st a) + unat q < 2 ^ 64"
    using assms(2) holding_le_total [of ?st a] by (simp add: holding_def)
  then have "unat (ccs ?st a + q) = unat (ccs ?st a) + unat q" by (simp add: unat_word_ariths)
  then have hold: "holding (action_data t) x = holding ?st x + (if x = a then unat q else 0)" for x
    using new by (simp add: holding_def)
  have "total_ccs (action_data t) = total_ccs ?st + unat q"
    using total_ccs_one_changed [of a "action_data t" ?st] by (simp add: hold)
  with t new show ?thesis by auto
qed

section \<open>Reverting delegations\<close>

lemma revert_one_spec:
  assumes "bmap_inv d" "\<And>k. bmap_get d k \<noteq> Some 0" "unat bal + bmap_total d < 2 ^ 64"
  shows "\<exists>bal' d'. revert_one ks bal d = Ok (bal', d') \<and> bmap_inv d' \<and>
    unat bal' + bmap_total d' = unat bal + bmap_total d \<and>
    bmap_get d' = (\<lambda>k. if k \<in> set ks then None else bmap_get d k)"
  using assms
proof (induction ks arbitrary: bal d)
  case Nil
  then show ?case by simp
next
  case (Cons k ks)
  show ?case
  proof (cases "get_quantity d k > 0")
    case True
    let ?q = "get_quantity d k"
    obtain d1 where d1: "subtract_quantity k ?q d = Ok d1"
      using subtract_quantity_whole [OF Cons.prems(1) True] by auto
    note sub = subtract_quantity_spec [OF Cons.prems(1) d1]
    have get1: "bmap_get d1 = (bmap_get d)(k := None)"
      using sub(4,5) True by (auto simp: fun_eq_iff)
    have "unat bal + unat ?q < 2 ^ 64" using sub(2) Cons.prems(3) by simp
    then have bal: "unat (bal + ?q) = unat bal + unat ?q" by (simp add: unat_word_ariths)
    have "\<And>x. bmap_get d1 x \<noteq> Some 0" by (rule sub(3)) (rule Cons.prems(2))
    moreover have "unat (bal + ?q) + bmap_total d1 < 2 ^ 64" using bal sub(2) Cons.prems(3) by simp
    ultimately obtain bal' d' where ih: "revert_one ks (bal + ?q) d1 = Ok (bal', d')" "bmap_inv d'"
      "unat bal' + bmap_total d' = unat (bal + ?q) + bmap_total d1"
      "bmap_get d' = (\<lambda>k. if k \<in> set ks then None else bmap_get d1 k)"
      using Cons.IH [OF sub(1)] by blast
    have "unat bal' + bmap_total d' = unat bal + bmap_total d" using ih(3) bal sub(2) by simp
    with ih True d1 show ?thesis by (auto simp: stake_add_balance_def get1 fun_eq_iff)
  next
    case False
    then have "get_quantity d k = 0" using word_neq_0_conv by blast
    then have "bmap_get d k = None" using Cons.prems(2) [of k]
      by (auto simp: get_quantity_def split: option.splits)
    with False Cons.IH [OF Cons.prems] show ?thesis by (fastforce simp: fun_eq_iff)
  qed
qed

text \<open>Two states that differ in accounts' holdings only.\<close>

definition only_holdings :: "(stake_data, 'x) top_state_scheme \<Rightarrow> (stake_data, 'x) top_state_scheme \<Rightarrow> bool" where
  "only_holdings s t \<longleftrightarrow>
     (\<exists>c d. t = s\<lparr>action_data := (action_data s)\<lparr>delegations := d, ccs := c\<rparr>\<rparr>)"

lemma only_holdings_refl [simp]: "only_holdings s s"
  unfolding only_holdings_def
  by (rule exI [of _ "ccs (action_data s)"], rule exI [of _ "delegations (action_data s)"]) simp

lemma only_holdings_trans: "only_holdings s t \<Longrightarrow> only_holdings t u \<Longrightarrow> only_holdings s u"
  unfolding only_holdings_def by (elim exE) (simp, blast)

lemma only_holdings_set [simp]: "only_holdings s (s\<lparr>action_data := set_holding a b d (action_data s)\<rparr>)"
  by (auto simp: only_holdings_def set_holding_def)

text \<open>The body of the loop over the stakeholders.\<close>

definition revert_body :: "address list \<Rightarrow> address \<Rightarrow> ('x, unit) stake_op" where
  "revert_body ks sh =
     sbind (load (\<lambda>st. ccs st sh)) (\<lambda>delegator.
     sbind (load (\<lambda>st. delegations st sh)) (\<lambda>dlg.
     sbind (slift (revert_one ks delegator dlg)) (\<lambda>(delegator', dlg').
     sbind (save_delegation sh dlg') (\<lambda>_. save_ccs sh delegator'))))"

lemma revert_body_spec:
  assumes "ledger_inv (action_data s)"
  shows "\<exists>t. revert_body ks a s = (Ok (), t) \<and> ledger_inv (action_data t) \<and>
    total_ccs (action_data t) = total_ccs (action_data s) \<and> only_holdings s t \<and>
    (\<forall>x k. bmap_get (delegations (action_data t) x) k =
       (if x = a \<and> k \<in> set ks then None else bmap_get (delegations (action_data s) x) k))"
proof -
  let ?st = "action_data s"
  note inv = ledger_invD [OF assms]
  obtain bal' d' where one: "revert_one ks (ccs ?st a) (delegations ?st a) = Ok (bal', d')"
    "bmap_inv d'" "unat bal' + bmap_total d' = holding ?st a"
    "bmap_get d' = (\<lambda>k. if k \<in> set ks then None else bmap_get (delegations ?st a) k)"
    using revert_one_spec [OF inv(2) [of a] inv(3) [of a], of "ccs ?st a" ks] inv(6) [of a]
    by (auto simp: holding_def)
  have nz: "bmap_get d' k \<noteq> Some 0" for k using one(4) inv(3) by simp
  let ?t = "s\<lparr>action_data := set_holding a bal' d' ?st\<rparr>"
  have "revert_body ks a s = (Ok (), ?t)"
    by (simp add: revert_body_def one(1) set_holding_def)
  moreover have "delegations (action_data ?t) = (delegations ?st)(a := d')"
    by (simp add: set_holding_def)
  ultimately show ?thesis
    using set_holding_inv [OF assms one(2) nz one(3)] one(4) by auto
qed

lemma revert_loop_spec:
  assumes "ledger_inv (action_data s)"
  shows "\<exists>t. sforeach shs (revert_body ks) s = (Ok (), t) \<and> ledger_inv (action_data t) \<and>
    total_ccs (action_data t) = total_ccs (action_data s) \<and> only_holdings s t \<and>
    (\<forall>x k. bmap_get (delegations (action_data t) x) k =
       (if x \<in> set shs \<and> k \<in> set ks then None else bmap_get (delegations (action_data s) x) k))"
  using assms
proof (induction shs arbitrary: s)
  case Nil
  then show ?case by simp
next
  case (Cons a shs)
  obtain t where t: "revert_body ks a s = (Ok (), t)" "ledger_inv (action_data t)"
    "total_ccs (action_data t) = total_ccs (action_data s)" "only_holdings s t"
    "\<forall>x k. bmap_get (delegations (action_data t) x) k =
       (if x = a \<and> k \<in> set ks then None else bmap_get (delegations (action_data s) x) k)"
    using revert_body_spec [OF Cons.prems] by blast
  obtain u where u: "sforeach shs (revert_body ks) t = (Ok (), u)" "ledger_inv (action_data u)"
    "total_ccs (action_data u) = total_ccs (action_data t)" "only_holdings t u"
    "\<forall>x k. bmap_get (delegations (action_data u) x) k =
       (if x \<in> set shs \<and> k \<in> set ks then None else bmap_get (delegations (action_data t) x) k)"
    using Cons.IH [OF t(2)] by blast
  have "sforeach (a # shs) (revert_body ks) s = (Ok (), u)" by (simp add: sbind_apply t(1) u(1))
  with t u show ?case by (auto intro: only_holdings_trans)
qed

lemma bmap_total_zero_iff:
  "bmap_inv d \<Longrightarrow> (\<And>k. bmap_get d k \<noteq> Some 0) \<Longrightarrow> bmap_total d = 0 \<longleftrightarrow> d = []"
proof (cases d)
  case (Cons kv d')
  assume nz: "\<And>k. bmap_get d k \<noteq> Some 0"
  have "snd kv \<noteq> 0" using nz [of "fst kv"] Cons by (simp add: bmap_get_def)
  then show ?thesis using Cons by (cases kv) (simp add: unat_eq_zero)
qed simp

text \<open>Reverting the delegations to some accounts: nothing is delegated to them afterwards, by
  anyone; every other delegation and everyone's total holding stay.\<close>

lemma revert_delegations_spec:
  assumes "ledger_inv (action_data s)"
  shows "\<exists>t. revert_delegations ks s = (Ok (), t) \<and> ledger_inv (action_data t) \<and>
    total_ccs (action_data t) = total_ccs (action_data s) \<and> only_holdings s t \<and>
    (\<forall>x k. bmap_get (delegations (action_data t) x) k =
       (if k \<in> set ks then None else bmap_get (delegations (action_data s) x) k))"
proof -
  let ?st = "action_data s"
  have run: "revert_delegations ks s = sforeach (stakeholders ?st) (revert_body ks) s"
    by (simp add: revert_delegations_def revert_body_def [abs_def])
  have none: "bmap_get (delegations ?st x) k = None" if "x \<notin> set (stakeholders ?st)" for x k
  proof -
    have "bmap_total (delegations ?st x) = 0"
      using that ledger_invD(4) [OF assms] by (simp add: holding_def)
    then have "delegations ?st x = []"
      using bmap_total_zero_iff [of "delegations ?st x"] ledger_invD(2,3) [OF assms] by blast
    then show ?thesis by simp
  qed
  obtain t where t: "sforeach (stakeholders ?st) (revert_body ks) s = (Ok (), t)"
    "ledger_inv (action_data t)" "total_ccs (action_data t) = total_ccs ?st" "only_holdings s t"
    "\<forall>x k. bmap_get (delegations (action_data t) x) k =
       (if x \<in> set (stakeholders ?st) \<and> k \<in> set ks then None else bmap_get (delegations ?st x) k)"
    using revert_loop_spec [OF assms] by blast
  then show ?thesis using none by (auto simp: run)
qed

section \<open>Properties\<close>

definition sample_stake :: stake_data where
  "sample_stake = \<lparr>ccs = (\<lambda>_. 0)(1 := 100), stakeholders = [1], delegations = (\<lambda>_. []),
     validators = [], candidates = [\<lparr>c_pubkey = 5, c_deposit = 50, nomination_ends_at = 10, c_metadata = []\<rparr>],
     jailed = [], banned = [], rewards_previous = [], rewards_current = []\<rparr>"

definition sample_stake_top :: "stake_data top_state" where
  "sample_stake_top = \<lparr>accounts = [1 \<mapsto> account_new 100 1], regular_accounts = Map.empty,
     md = Some (metadata_new 1), shards = Map.empty, texts = Map.empty, action_data = sample_stake\<rparr>"

lemma sample_stake_inv: "ledger_inv sample_stake" "total_ccs sample_stake = 100"
proof -
  have hold: "holding sample_stake a = unat (((\<lambda>_. 0)(1 := 100 :: u64)) a)" for a
    by (simp add: holding_def sample_stake_def)
  have tot: "total_ccs sample_stake = total ((\<lambda>_. 0)(1 := 100 :: u64) :: address \<Rightarrow> u64)"
    by (simp add: total_ccs_def hold total_def)
  then show "total_ccs sample_stake = 100" by (simp add: total_single)
  then show "ledger_inv sample_stake"
    by (simp add: ledger_inv_def hold) (simp add: sample_stake_def bset_inv_def)
qed

theorem transfer_ccs_conserves_witness:
  "\<exists>t. transfer_ccs 1 2 30 sample_stake_top = (Ok (), t) \<and> ledger_inv (action_data t) \<and>
     total_ccs (action_data t) = 100 \<and> ccs (action_data t) 2 = 30"
proof -
  let ?t = "snd (transfer_ccs 1 2 30 sample_stake_top)"
  have "transfer_ccs 1 2 30 sample_stake_top = (Ok (), ?t) \<and> ccs (action_data ?t) 2 = 30"
    by (simp add: transfer_ccs_def sample_stake_top_def sample_stake_def subtract_balance_def
        update_by_decreased_balance_def stake_add_balance_def Let_def)
  with transfer_ccs_conserves [of sample_stake_top 1 2 30 "()" ?t] sample_stake_inv
  show ?thesis by (simp add: sample_stake_top_def) blast
qed

theorem transfer_ccs_to_self_mints_witness:
  "\<exists>t. transfer_ccs 1 1 30 sample_stake_top = (Ok (), t) \<and> ccs (action_data t) 1 = 130 \<and>
     total_ccs (action_data t) = 130"
proof -
  have st: "action_data sample_stake_top = sample_stake" by (simp add: sample_stake_top_def)
  have "ccs sample_stake 1 = 100" by (simp add: sample_stake_def)
  then show ?thesis
    using transfer_ccs_to_self_mints [of 30 sample_stake_top 1] sample_stake_inv(2) by (simp add: st)
qed

text \<open>
  C10: delegating stake to a candidate, and revoking it, keep the ledger well formed and the
  total of all stake: what leaves the balance arrives in the delegation and back.
\<close>

theorem delegation_conserves:
  assumes "ledger_inv (action_data s)"
    and "delegate_ccs adr a k q s = (Ok u, t) \<or> revoke a k q s = (Ok u, t)"
  shows "ledger_inv (action_data t) \<and> total_ccs (action_data t) = total_ccs (action_data s) \<and>
    holding (action_data t) x = holding (action_data s) x"
  using assms(2)
proof
  assume "delegate_ccs adr a k q s = (Ok u, t)"
  note ok = delegate_ccs_Ok [OF this]
  note new = delegate_holding [OF assms(1) ok(2), of k]
  then show ?thesis
    using total_ccs_one_changed [of a "action_data t" "action_data s"]
    by (auto simp: ok(3) holding_set_holding)
next
  assume "revoke a k q s = (Ok u, t)"
  then obtain d' where d': "subtract_quantity k q (delegations (action_data s) a) = Ok d'"
    "t = s\<lparr>action_data := set_holding a (ccs (action_data s) a + q) d' (action_data s)\<rparr>"
    by (rule revoke_Ok)
  note new = revoke_holding [OF assms(1) d'(1)]
  then show ?thesis
    using total_ccs_one_changed [of a "action_data t" "action_data s"]
    by (auto simp: d'(2) holding_set_holding)
qed

theorem delegation_conserves_witness:
  "\<exists>t. delegate_ccs ucast 1 5 40 sample_stake_top = (Ok (), t) \<and> total_ccs (action_data t) = 100 \<and>
     get_quantity (delegations (action_data t) 1) 5 = 40"
proof -
  let ?t = "snd (delegate_ccs ucast 1 5 40 sample_stake_top)"
  have "delegate_ccs ucast 1 5 40 sample_stake_top = (Ok (), ?t) \<and>
      get_quantity (delegations (action_data ?t) 1) 5 = 40"
    by (simp add: delegate_ccs_def sample_stake_top_def sample_stake_def subtract_balance_def
        get_candidate_def is_banned_def add_quantity_def get_quantity_def bmap_get_def)
  with delegation_conserves [of sample_stake_top ucast 1 5 40 "()" ?t] sample_stake_inv
  show ?thesis by (simp add: sample_stake_top_def) blast
qed

text \<open>
  Revoking exactly what has just been delegated gives back the state before: the balance,
  the delegation map and everything else.
\<close>

theorem revoke_undoes_delegate:
  assumes "ledger_inv (action_data s)" "delegate_ccs adr a k q s = (Ok u, t)"
  shows "revoke a k q t = (Ok (), s)"
proof -
  let ?st = "action_data s" and ?d = "delegations (action_data s) a"
  note inv = ledger_invD [OF assms(1)]
  note ok = delegate_ccs_Ok [OF assms(2)]
  have "unat q \<le> unat (ccs ?st a)" using ok(2) by (simp add: word_le_nat_alt)
  then have lt: "bmap_total ?d + unat q < 2 ^ 64" using inv(6) [of a] by (simp add: holding_def)
  let ?old = "case bmap_get ?d k of None \<Rightarrow> 0 | Some w \<Rightarrow> w"
  have "unat ?old \<le> bmap_total ?d" using bmap.get_le_total [OF inv(2)] by (simp split: option.split)
  then have sum: "unat (?old + q) = unat ?old + unat q" using lt by (simp add: unat_word_ariths)
  have "subtract_quantity k q (add_quantity k q ?d) = Ok ?d"
  proof (cases "q = 0")
    case True
    then show ?thesis by (simp add: subtract_quantity_def add_quantity_def)
  next
    case False
    show ?thesis
    proof (cases "bmap_get ?d k")
      case None
      have "bmap_remove k (bmap_insert k q ?d) = ?d"
        by (rule bmap_ext) (use inv(2) None in auto)
      with None False inv(2) show ?thesis by (simp add: subtract_quantity_def add_quantity_def)
    next
      case (Some w)
      with inv(3) have "w \<noteq> 0" by metis
      then have "w + q > q" using sum Some by (simp add: word_less_nat_alt unat_gt_0)
      moreover have "bmap_insert k w (bmap_insert k (w + q) ?d) = ?d"
        by (rule bmap_ext) (use inv(2) Some in auto)
      ultimately show ?thesis using False inv(2) Some
        by (simp add: subtract_quantity_def add_quantity_def)
    qed
  qed
  then show ?thesis
    by (simp add: revoke_def ok(3) set_holding_def stake_add_balance_def Let_def)
qed

theorem revoke_undoes_delegate_witness:
  "revoke 1 5 40 (snd (delegate_ccs ucast 1 5 40 sample_stake_top)) = (Ok (), sample_stake_top)"
proof -
  have "delegate_ccs ucast 1 5 40 sample_stake_top =
      (Ok (), snd (delegate_ccs ucast 1 5 40 sample_stake_top))"
    by (simp add: delegate_ccs_def sample_stake_top_def sample_stake_def subtract_balance_def
        get_candidate_def is_banned_def)
  then show ?thesis
    using revoke_undoes_delegate sample_stake_inv(1) by (metis sample_stake_top_def top_state.select_convs(6))
qed

end
