(* ===== verification/Stake_Roster.thy ===== *)
theory Stake_Roster
  imports Stake_Ledger
begin

text \<open>
  The roster of the stake handler: candidates, prisoners and banned accounts are disjoint,
  delegations go to candidates or prisoners only, and the CCC deposited by candidates and
  prisoners together with all balances is constant under nomination, banning, jailing and
  the end of a term.
\<close>

section \<open>The invariants\<close>

abbreviation cand_addrs :: "(public \<Rightarrow> address) \<Rightarrow> candidate list \<Rightarrow> address list" where
  "cand_addrs adr cs \<equiv> map (adr \<circ> c_pubkey) cs"

definition roster_inv :: "(public \<Rightarrow> address) \<Rightarrow> stake_data \<Rightarrow> bool" where
  "roster_inv adr st \<longleftrightarrow>
     distinct (cand_addrs adr (candidates st)) \<and>
     bmap_inv (jailed st) \<and>
     (\<forall>a p. bmap_get (jailed st) a = Some p \<longrightarrow> p_address p = a) \<and>
     bset_inv (banned st) \<and>
     (\<forall>a\<in>set (cand_addrs adr (candidates st)). bmap_get (jailed st) a = None \<and> a \<notin> set (banned st)) \<and>
     (\<forall>a. bmap_get (jailed st) a \<noteq> None \<longrightarrow> a \<notin> set (banned st))"

text \<open>Delegations go to candidates, prisoners, or (while they are being reverted) to \<open>E\<close>.\<close>

definition link_inv :: "(public \<Rightarrow> address) \<Rightarrow> address set \<Rightarrow> stake_data \<Rightarrow> bool" where
  "link_inv adr E st \<longleftrightarrow>
     (\<forall>x k. bmap_get (delegations st x) k \<noteq> None \<longrightarrow>
        k \<in> set (cand_addrs adr (candidates st)) \<or> bmap_get (jailed st) k \<noteq> None \<or> k \<in> E)"

definition jail_deposits :: "jail_map \<Rightarrow> nat" where
  "jail_deposits j = sum_list (map (unat \<circ> p_deposit \<circ> snd) j)"

definition cand_deposits :: "candidate list \<Rightarrow> nat" where
  "cand_deposits cs = sum_list (map (unat \<circ> c_deposit) cs)"

text \<open>All CCC: balances and deposits.\<close>

definition ccc_total :: "(stake_data, 'x) top_state_scheme \<Rightarrow> nat" where
  "ccc_total s = total_ccc s + cand_deposits (candidates (action_data s)) +
     jail_deposits (jailed (action_data s))"

definition stake_ok :: "(public \<Rightarrow> address) \<Rightarrow> (stake_data, 'x) top_state_scheme \<Rightarrow> bool" where
  "stake_ok adr s \<longleftrightarrow> ledger_inv (action_data s) \<and> roster_inv adr (action_data s) \<and>
     link_inv adr {} (action_data s) \<and> ccc_total s < 2 ^ 64"

section \<open>Lists of candidates\<close>

lemma cand_deposits_mset: "mset cs = mset cs' \<Longrightarrow> cand_deposits cs = cand_deposits cs'"
  by (simp add: cand_deposits_def sum_list_map_mset)

lemma cand_addrs_mset:
  assumes "mset cs = mset cs'"
  shows "set (cand_addrs adr cs) = set (cand_addrs adr cs')"
    and "distinct (cand_addrs adr cs) = distinct (cand_addrs adr cs')"
proof -
  have "mset (cand_addrs adr cs) = mset (cand_addrs adr cs')" using assms by simp
  then show "set (cand_addrs adr cs) = set (cand_addrs adr cs')"
    and "distinct (cand_addrs adr cs) = distinct (cand_addrs adr cs')"
    by (rule mset_eq_setD, rule mset_eq_imp_distinct_iff)
qed

lemma position_exists: "x \<in> set xs \<Longrightarrow> p x \<Longrightarrow> \<exists>i. position p xs = Some i"
  using position_None [of p xs] by (cases "position p xs") auto

lemma candidates_remove_Some:
  assumes "candidates_remove adr a cs = (Some c, cs')"
  shows "c \<in> set cs" "adr (c_pubkey c) = a" "mset cs = add_mset c (mset cs')"
  using assms
  by (auto simp: candidates_remove_def remove_nth_mset dest!: position_SomeD split: option.splits)

lemma candidates_remove_None:
  assumes "candidates_remove adr a cs = (None, cs')"
  shows "a \<notin> set (cand_addrs adr cs)" "cs' = cs"
  using assms by (auto simp: candidates_remove_def position_None split: option.splits)

lemma candidates_remove_rest:
  assumes "distinct (cand_addrs adr cs)" "candidates_remove adr a cs = (r, cs')"
  shows "distinct (cand_addrs adr cs')" "set (cand_addrs adr cs') = set (cand_addrs adr cs) - {a}"
    and "cand_deposits cs = cand_deposits cs' + (case r of None \<Rightarrow> 0 | Some c \<Rightarrow> unat (c_deposit c))"
    and "r = None \<longleftrightarrow> a \<notin> set (cand_addrs adr cs)"
proof -
  have "distinct (cand_addrs adr cs') \<and> set (cand_addrs adr cs') = set (cand_addrs adr cs) - {a} \<and>
    cand_deposits cs = cand_deposits cs' + (case r of None \<Rightarrow> 0 | Some c \<Rightarrow> unat (c_deposit c)) \<and>
    (r = None \<longleftrightarrow> a \<notin> set (cand_addrs adr cs))"
  proof (cases r)
    case None
    then show ?thesis using candidates_remove_None [of adr a cs cs'] assms by auto
  next
    case (Some c)
    note rm = candidates_remove_Some [OF assms(2) [unfolded Some]]
    then have m: "mset cs = mset (c # cs')" by simp
    show ?thesis
      using assms(1) rm(2) cand_addrs_mset [OF m, of adr] cand_deposits_mset [OF m]
      by (auto simp: Some cand_deposits_def)
  qed
  then show "distinct (cand_addrs adr cs')" "set (cand_addrs adr cs') = set (cand_addrs adr cs) - {a}"
    "cand_deposits cs = cand_deposits cs' + (case r of None \<Rightarrow> 0 | Some c \<Rightarrow> unat (c_deposit c))"
    "r = None \<longleftrightarrow> a \<notin> set (cand_addrs adr cs)" by auto
qed

lemma reprioritize_loop_mset:
  "(reprioritize_loop adr ts cs renewed :: ('e, _) result) = Ok cs' \<Longrightarrow>
     mset cs' = mset cs + mset renewed"
proof (induction ts arbitrary: cs renewed)
  case Nil
  then show ?case by auto
next
  case (Cons t ts)
  then obtain i where i: "position (\<lambda>c. adr (c_pubkey c) = t) cs = Some i"
    "(reprioritize_loop adr ts (remove_nth i cs) (renewed @ [cs ! i]) :: ('e, _) result) = Ok cs'"
    by (auto simp: rbind_eq_Ok_iff)
  from Cons.IH [OF i(2)] remove_nth_mset [of i cs] position_SomeD [OF i(1)] show ?case by simp
qed

lemma reprioritize_loop_total:
  assumes "distinct ts" "set ts \<subseteq> set (cand_addrs adr cs)"
  shows "\<exists>cs'. (reprioritize_loop adr ts cs renewed :: ('e, _) result) = Ok cs'"
  using assms
proof (induction ts arbitrary: cs renewed)
  case Nil
  then show ?case by simp
next
  case (Cons t ts)
  obtain i where i: "position (\<lambda>c. adr (c_pubkey c) = t) cs = Some i"
    using Cons.prems(2) position_exists [of _ cs "\<lambda>c. adr (c_pubkey c) = t"] by auto
  note ipos = position_SomeD [OF i]
  have "set ts \<subseteq> set (cand_addrs adr (remove_nth i cs))"
  proof
    fix a
    assume a: "a \<in> set ts"
    then obtain c where c: "c \<in> set cs" "adr (c_pubkey c) = a" using Cons.prems(2) by auto
    have "a \<noteq> t" using a Cons.prems(1) by auto
    then have "c \<in># mset (remove_nth i cs)"
      using c ipos remove_nth_mset [of i cs] by (metis insert_iff set_mset_add_mset_insert set_mset_mset)
    then show "a \<in> set (cand_addrs adr (remove_nth i cs))" using c(2) by auto
  qed
  with Cons show ?case by (auto simp: i)
qed

lemma reprioritize_spec:
  assumes "distinct ts" "set ts \<subseteq> set (cand_addrs adr cs)"
  obtains cs' where "(reprioritize adr ts cs :: ('e, _) result) = Ok cs'" "mset cs' = mset cs"
  using reprioritize_loop_total [OF assms, of "[]"] reprioritize_loop_mset [of adr ts cs "[]"]
  unfolding reprioritize_def by fastforce

section \<open>Deposits\<close>

lemma jail_deposits_total: "jail_deposits j = bmap_total (map (map_prod id p_deposit) j)"
  by (simp add: jail_deposits_def bmap_total_def o_def)

lemma jail_deposits_insert:
  assumes "bmap_inv j" "bmap_get j a = None"
  shows "jail_deposits (bmap_insert a p j) = jail_deposits j + unat (p_deposit p)"
  using bmap_total_insert [of "map (map_prod id p_deposit) j" a "p_deposit p"] assms
  by (simp add: jail_deposits_total bmap_insert_map bmap_get_map)

lemma jail_deposits_remove:
  assumes "bmap_inv j"
  shows "jail_deposits j = jail_deposits (bmap_remove a j) +
    (case bmap_get j a of None \<Rightarrow> 0 | Some p \<Rightarrow> unat (p_deposit p))"
  using bmap_total_remove [of "map (map_prod id p_deposit) j" a] assms
  by (simp add: jail_deposits_total bmap_remove_map bmap_get_map split: option.splits)

lemma add_deposit_spec:
  assumes "distinct (cand_addrs adr cs)"
    and nocoll: "\<forall>c\<in>set cs. adr (c_pubkey c) = adr pk \<longrightarrow> c_pubkey c = pk"
    and "cand_deposits cs + unat q < 2 ^ 64"
  obtains cs' where "(add_deposit adr pk q ends mdata cs :: ('e, _) result) = Ok cs'"
    "distinct (cand_addrs adr cs')"
    "set (cand_addrs adr cs') = insert (adr pk) (set (cand_addrs adr cs))"
    "cand_deposits cs' = cand_deposits cs + unat q"
proof -
  define new where "new = (case position (\<lambda>c. c_pubkey c = pk) cs of
      Some index \<Rightarrow>
        let c = cs ! index in
        cs[index := c\<lparr>c_deposit := c_deposit c + q,
           nomination_ends_at := (if nomination_ends_at c < ends then ends else nomination_ends_at c),
           c_metadata := mdata\<rparr>]
    | None \<Rightarrow> cs @ [\<lparr>c_pubkey = pk, c_deposit = q, nomination_ends_at = ends, c_metadata = mdata\<rparr>])"
  have new: "distinct (cand_addrs adr new) \<and>
      set (cand_addrs adr new) = insert (adr pk) (set (cand_addrs adr cs)) \<and>
      cand_deposits new = cand_deposits cs + unat q"
  proof (cases "position (\<lambda>c. c_pubkey c = pk) cs")
    case None
    then have "\<forall>c\<in>set cs. c_pubkey c \<noteq> pk" by (simp add: position_None)
    then have "adr pk \<notin> set (cand_addrs adr cs)" using nocoll by auto
    then show ?thesis using assms(1) by (simp add: new_def None cand_deposits_def)
  next
    case (Some i)
    then have i: "i < length cs" "c_pubkey (cs ! i) = pk" using position_SomeD by auto
    have len: "unat (c_deposit (cs ! i)) \<le> cand_deposits cs"
      unfolding cand_deposits_def using i(1) by (intro member_le_sum_list) auto
    then have dep: "unat (c_deposit (cs ! i) + q) = unat (c_deposit (cs ! i)) + unat q"
      using assms(3) by (simp add: unat_word_ariths)
    have addrs: "cand_addrs adr new = cand_addrs adr cs"
      using i by (simp add: new_def Some Let_def map_update list_update_same_conv)
    have "map (unat \<circ> c_deposit) new =
        (map (unat \<circ> c_deposit) cs)[i := unat (c_deposit (cs ! i)) + unat q]"
      by (simp add: new_def Some Let_def map_update dep)
    then have "cand_deposits new = cand_deposits cs + unat q"
      using i(1) len by (simp add: cand_deposits_def sum_list_update)
    moreover have "adr pk \<in> set (cand_addrs adr cs)" using i by (force simp: in_set_conv_nth)
    ultimately show ?thesis using assms(1) by (auto simp: addrs)
  qed
  obtain cs' where cs': "(reprioritize adr [adr pk] new :: ('e, _) result) = Ok cs'"
    "mset cs' = mset new"
    by (rule reprioritize_spec [of "[adr pk]" adr new]) (use new in simp_all)
  show ?thesis
    by (rule that [of cs'])
      (use new cs' cand_addrs_mset [OF cs'(2), of adr] cand_deposits_mset [OF cs'(2)] in
        \<open>simp_all add: add_deposit_def new_def\<close>)
qed

section \<open>Nomination\<close>

lemma ledger_same:
  assumes "ccs st' = ccs st" "delegations st' = delegations st" "stakeholders st' = stakeholders st"
  shows "ledger_inv st' = ledger_inv st" "total_ccs st' = total_ccs st"
proof -
  have "holding st' = holding st" using assms by (simp add: holding_def fun_eq_iff)
  then show "total_ccs st' = total_ccs st" by (simp add: total_ccs_def)
  with \<open>holding st' = holding st\<close> assms show "ledger_inv st' = ledger_inv st"
    by (simp add: ledger_inv_def)
qed

lemma roster_invD:
  assumes "roster_inv adr st"
  shows "distinct (cand_addrs adr (candidates st))" "bmap_inv (jailed st)"
    "bmap_get (jailed st) a = Some p \<Longrightarrow> p_address p = a" "bset_inv (banned st)"
    "a \<in> set (cand_addrs adr (candidates st)) \<Longrightarrow> bmap_get (jailed st) a = None"
    "a \<in> set (cand_addrs adr (candidates st)) \<Longrightarrow> a \<notin> set (banned st)"
    "bmap_get (jailed st) a \<noteq> None \<Longrightarrow> a \<notin> set (banned st)"
  using assms by (auto simp: roster_inv_def)

lemma stake_okD:
  assumes "stake_ok adr s"
  shows "ledger_inv (action_data s)" "roster_inv adr (action_data s)"
    "link_inv adr {} (action_data s)" "ccc_total s < 2 ^ 64"
  using assms by (auto simp: stake_ok_def)

lemma try_release_spec:
  assumes "bmap_inv j" "try_release a trm j = (r, j')" "r \<noteq> InCustody"
  shows "bmap_inv j'" "bmap_get j' = (bmap_get j)(a := None)"
    "r = (case bmap_get j a of None \<Rightarrow> NotExists | Some p \<Rightarrow> Released p)"
    "jail_deposits j = jail_deposits j' + (case bmap_get j a of None \<Rightarrow> 0 | Some p \<Rightarrow> unat (p_deposit p))"
  using assms jail_deposits_remove [OF assms(1), of a]
  by (auto simp: try_release_def split: option.splits if_splits)

text \<open>The steps of a nomination that goes through.\<close>

lemma self_nominate_Ok:
  assumes "roster_inv adr (action_data s)"
    and "self_nominate adr fp pk dep trm ends mdata s = (r, t)" "\<nexists>e. r = Error e"
    and nocoll: "\<forall>c\<in>set (candidates (action_data s)). adr (c_pubkey c) = adr pk \<longrightarrow> c_pubkey c = pk"
    and "ccc_total s < 2 ^ 64"
  obtains s1 j' rel cs' where "adr pk = fp" "fp \<notin> set (banned (action_data s))" "r = Ok ()"
    "try_release fp trm (jailed (action_data s)) = (rel, j')" "rel \<noteq> InCustody"
    "sub_balance fp dep s = (Ok (), s1)"
    "distinct (cand_addrs adr cs')"
    "set (cand_addrs adr cs') = insert fp (set (cand_addrs adr (candidates (action_data s))))"
    "cand_deposits cs' = cand_deposits (candidates (action_data s)) + unat dep +
       (case bmap_get (jailed (action_data s)) fp of None \<Rightarrow> 0 | Some p \<Rightarrow> unat (p_deposit p))"
    "t = s1\<lparr>action_data := (action_data s1)\<lparr>jailed := j', candidates := cs'\<rparr>\<rparr>"
proof -
  let ?st = "action_data s"
  note inv = roster_invD [OF assms(1)]
  obtain rel j' where rel: "try_release fp trm (jailed ?st) = (rel, j')" by force
  have ok: "adr pk = fp" "fp \<notin> set (banned ?st)" "rel \<noteq> InCustody"
    using assms(2,3) by (auto simp: self_nominate_def is_banned_def rel Let_def split: if_splits)
  note rls = try_release_spec [OF inv(2) rel ok(3)]
  let ?old = "case bmap_get (jailed ?st) fp of None \<Rightarrow> 0 | Some p \<Rightarrow> p_deposit p"
  define td where "td = ?old + dep"
  have run: "self_nominate adr fp pk dep trm ends mdata s =
      sbind (load candidates) (\<lambda>cs. sbind (sub_balance fp dep) (\<lambda>_.
      sbind (slift (add_deposit adr pk td ends mdata cs)) (\<lambda>cs'.
      sbind (save (\<lambda>st. st\<lparr>jailed := j'\<rparr>)) (\<lambda>_. save (\<lambda>st. st\<lparr>candidates := cs'\<rparr>))))) s"
    using ok rls(3) inv(3) [of fp]
    by (auto simp: self_nominate_def is_banned_def rel td_def split: option.split)
  obtain s1 where s1: "sub_balance fp dep s = (Ok (), s1)"
    using sub_balance_spec(1) [of fp dep s] assms(2,3)
    by (auto simp: run sbind_apply split: if_splits)
  have "unat dep \<le> unat (balance_of s fp)"
    using sub_balance_Ok [OF s1] by (simp add: word_le_nat_alt)
  then have dep: "unat dep \<le> total_ccc s"
    using total_ge [of "balance_of s" fp] by (simp add: total_ccc_def)
  have old: "unat ?old = (case bmap_get (jailed ?st) fp of None \<Rightarrow> 0 | Some p \<Rightarrow> unat (p_deposit p))"
    by (simp split: option.split)
  have "unat ?old \<le> jail_deposits (jailed ?st)" using rls(4) by (simp add: old)
  then have bound: "cand_deposits (candidates ?st) + unat ?old + unat dep < 2 ^ 64"
    using dep assms(5) by (simp add: ccc_total_def)
  then have td: "unat td = unat ?old + unat dep" by (simp add: td_def unat_word_ariths)
  have bound': "cand_deposits (candidates ?st) + unat td < 2 ^ 64"
    unfolding td using bound by linarith
  obtain cs' where cs': "(add_deposit adr pk td ends mdata (candidates ?st) :: (state_error, _) result) = Ok cs'"
    "distinct (cand_addrs adr cs')"
    "set (cand_addrs adr cs') = insert (adr pk) (set (cand_addrs adr (candidates ?st)))"
    "cand_deposits cs' = cand_deposits (candidates ?st) + unat td"
    by (rule add_deposit_spec [OF inv(1) nocoll bound'])
  have "r = Ok ()" "t = s1\<lparr>action_data := (action_data s1)\<lparr>jailed := j', candidates := cs'\<rparr>\<rparr>"
    using assms(2) by (simp_all add: run sbind_apply s1 cs'(1))
  with that [of rel j' s1 cs'] ok rel s1 cs' td old show ?thesis by simp
qed

text \<open>
  Self-nomination moves CCC from the nominee's balance into their deposit, together with
  the deposit of a prisoner whose custody is over: candidates, prisoners and banned accounts
  stay disjoint, delegations still go to candidates or prisoners, the CCC in balances and
  deposits and the total stake are unchanged, and the code does not panic. (No other candidate's key
  may collide with the nominee's address.)
\<close>

theorem self_nominate_conserves:
  assumes "stake_ok adr s"
    and "\<forall>c\<in>set (candidates (action_data s)). adr (c_pubkey c) = adr pk \<longrightarrow> c_pubkey c = pk"
    and "self_nominate adr fp pk dep trm ends mdata s = (r, t)" "\<nexists>e. r = Error e"
  shows "r = Ok () \<and> stake_ok adr t \<and> ccc_total t = ccc_total s \<and>
    total_ccs (action_data t) = total_ccs (action_data s) \<and>
    fp \<in> set (cand_addrs adr (candidates (action_data t)))"
proof -
  let ?st = "action_data s" and ?tt = "action_data t"
  note ok = stake_okD [OF assms(1)]
  note inv = roster_invD [OF ok(2)]
  obtain s1 j' rel cs' where nom: "adr pk = fp" "fp \<notin> set (banned ?st)" "r = Ok ()"
    "try_release fp trm (jailed ?st) = (rel, j')" "rel \<noteq> InCustody"
    "sub_balance fp dep s = (Ok (), s1)" "distinct (cand_addrs adr cs')"
    "set (cand_addrs adr cs') = insert fp (set (cand_addrs adr (candidates ?st)))"
    "cand_deposits cs' = cand_deposits (candidates ?st) + unat dep +
       (case bmap_get (jailed ?st) fp of None \<Rightarrow> 0 | Some p \<Rightarrow> unat (p_deposit p))"
    "t = s1\<lparr>action_data := (action_data s1)\<lparr>jailed := j', candidates := cs'\<rparr>\<rparr>"
    by (rule self_nominate_Ok [OF ok(2) assms(3,4,2) ok(4)])
  note rls = try_release_spec [OF inv(2) nom(4,5)]
  have data: "action_data s1 = ?st"
    using sub_balance_Ok [OF nom(6)] only_accounts_same(5) by blast
  have ledger: "ledger_inv ?tt" "total_ccs ?tt = total_ccs ?st"
    using ledger_same [of ?tt ?st] ok(1) by (simp_all add: nom(10) data)
  have roster: "roster_inv adr ?tt"
    using inv(2-7) nom(2,7,8) rls(1,2) unfolding roster_inv_def
    by (auto simp: nom(10) data)
  have link: "link_inv adr {} ?tt"
    using ok(3) nom(8) rls(2) by (fastforce simp: link_inv_def nom(10) data)
  have "total_ccc t + unat dep = total_ccc s"
  proof -
    have "balance_of t = balance_of s1" by (rule balance_of_cong) (simp add: nom(10))
    then show ?thesis
      using sub_balance_Ok [OF nom(6)] total_sub [of dep "balance_of s" fp] by (simp add: total_ccc_def)
  qed
  then have sup: "ccc_total t = ccc_total s"
    using nom(9) rls(4) by (simp add: ccc_total_def nom(10) data)
  show ?thesis
    using nom(3,8) ledger roster link sup ok(4) by (auto simp: stake_ok_def nom(10))
qed

section \<open>Banning\<close>

lemma only_holdings_same:
  assumes "only_holdings s t"
  shows "candidates (action_data t) = candidates (action_data s)" "jailed (action_data t) = jailed (action_data s)"
    "banned (action_data t) = banned (action_data s)" "validators (action_data t) = validators (action_data s)"
    "accounts t = accounts s" "md t = md s" "balance_of t = balance_of s"
    "stakeholders (action_data t) = stakeholders (action_data s)"
  using assms by (auto simp: only_holdings_def balance_of_def fun_eq_iff)

lemma roster_same:
  assumes "candidates st' = candidates st" "jailed st' = jailed st" "banned st' = banned st"
  shows "roster_inv adr st' = roster_inv adr st"
  using assms by (simp add: roster_inv_def)

text \<open>Reverting the delegations to \<open>E\<close> re-establishes the link between delegations and roster.\<close>

lemma revert_delegations_link:
  assumes "ledger_inv (action_data s)" "link_inv adr (set ks) (action_data s)"
  obtains t where "revert_delegations ks s = (Ok (), t)" "ledger_inv (action_data t)"
    "total_ccs (action_data t) = total_ccs (action_data s)" "only_holdings s t"
    "link_inv adr {} (action_data t)"
    "\<And>x k. k \<in> set ks \<Longrightarrow> bmap_get (delegations (action_data t) x) k = None"
proof -
  obtain t where t: "revert_delegations ks s = (Ok (), t)" "ledger_inv (action_data t)"
    "total_ccs (action_data t) = total_ccs (action_data s)" "only_holdings s t"
    "\<forall>x k. bmap_get (delegations (action_data t) x) k =
       (if k \<in> set ks then None else bmap_get (delegations (action_data s) x) k)"
    using revert_delegations_spec [OF assms(1)] by blast
  have "link_inv adr {} (action_data t)"
    using assms(2) t(5) only_holdings_same(1,2) [OF t(4)] by (auto simp: link_inv_def)
  with t that show ?thesis by auto
qed

text \<open>The state just before the delegations to the banned account are reverted.\<close>

lemma ban_steps:
  assumes "roster_inv adr (action_data s)" "criminal \<notin> set (banned (action_data s))"
    and "candidates_remove adr criminal (candidates (action_data s)) = (c, cs')"
    and "deposit = (case c of Some c \<Rightarrow> c_deposit c
      | None \<Rightarrow> (case bmap_get (jailed (action_data s)) criminal of Some p \<Rightarrow> p_deposit p | None \<Rightarrow> 0))"
    and "add_balance (adr informant) deposit s = (Ok (), s1)"
  shows "ban adr informant criminal s = revert_delegations [criminal]
    (s1\<lparr>action_data := (action_data s1)\<lparr>
       jailed := bmap_remove criminal (bmap_remove criminal (jailed (action_data s))),
       banned := banned_add criminal (banned (action_data s)),
       candidates := cs',
       validators := validators_remove adr criminal (validators (action_data s))\<rparr>\<rparr>)"
proof -
  have "c = None \<or> bmap_get (jailed (action_data s)) criminal = None"
    using assms(3) candidates_remove_Some(1,2) [of adr criminal "candidates (action_data s)"]
      roster_invD(5) [OF assms(1), of criminal] by (cases c) fastforce+
  then show ?thesis
    using assms
    by (auto simp: ban_def is_banned_def jail_remove_def sbind_apply split: option.splits)
qed


section \<open>Witnesses\<close>

lemma sample_stake_ok: "stake_ok ucast sample_stake_top" "ccc_total sample_stake_top = 150"
proof -
  have "balance_of sample_stake_top = (\<lambda>_. 0)(1 := 100)"
    by (auto simp: balance_of_def sample_stake_top_def account_new_def fun_eq_iff)
  then have "total_ccc sample_stake_top = 100" by (simp add: total_ccc_def total_single)
  then show sup: "ccc_total sample_stake_top = 150"
    by (simp add: ccc_total_def cand_deposits_def jail_deposits_def sample_stake_top_def sample_stake_def)
  have "roster_inv ucast sample_stake" "link_inv ucast {} sample_stake"
    by (simp_all add: roster_inv_def link_inv_def sample_stake_def)
  with sup sample_stake_inv(1) show "stake_ok ucast sample_stake_top"
    by (simp add: stake_ok_def) (simp add: sample_stake_top_def)
qed

theorem self_nominate_conserves_witness:
  "\<exists>t. self_nominate ucast 1 1 30 0 5 [] sample_stake_top = (Ok (), t) \<and>
     stake_ok ucast t \<and> ccc_total t = 150 \<and> total_ccs (action_data t) = 100 \<and>
     1 \<in> set (cand_addrs ucast (candidates (action_data t)))"
proof -
  let ?r = "fst (self_nominate ucast 1 1 30 0 5 [] sample_stake_top)"
    and ?t = "snd (self_nominate ucast 1 1 30 0 5 [] sample_stake_top)"
  have run: "self_nominate ucast 1 1 30 0 5 [] sample_stake_top = (?r, ?t)" by simp
  have "?r = Ok ()"
    by (simp add: self_nominate_def sample_stake_top_def sample_stake_def is_banned_def try_release_def
        sub_balance_def balance_of_def account_new_def get_account_def account_mut_def
        account_sub_balance_def sbind_apply add_deposit_def reprioritize_def remove_nth_def)
  then have ok: "\<nexists>e. ?r = Error e" by simp
  have nocoll: "\<forall>c\<in>set (candidates (action_data sample_stake_top)).
      (ucast (c_pubkey c) :: address) = ucast (1 :: public) \<longrightarrow> c_pubkey c = 1"
    by (simp add: sample_stake_top_def sample_stake_def)
  from self_nominate_conserves [OF sample_stake_ok(1) nocoll run ok] show ?thesis
    using run sample_stake_ok(2) sample_stake_inv(2) by (intro exI [of _ ?t]) (simp add: sample_stake_top_def)
qed


end
