(* ===== verification/Stake_Term.thy ===== *)
theory Stake_Term
  imports Stake_Roster
begin

text \<open>
  The end of a term (\<open>on_term_close\<close>): candidates are renewed or expire, prisoners are
  released, delegations to both are reverted, inactive validators are jailed, and the next
  validators are elected. Each step is shown to succeed and to keep the invariants of the
  stake data; then the whole.
\<close>

section \<open>Returning deposits\<close>

lemma add_balances_spec:
  assumes "total_ccc s + (\<Sum>x\<leftarrow>xs. unat (g x)) < 2 ^ 64"
  shows "\<exists>t. sforeach xs (\<lambda>x. add_balance (f x) (g x)) s = (Ok (), t) \<and> only_accounts s t \<and>
    total_ccc t = total_ccc s + (\<Sum>x\<leftarrow>xs. unat (g x))"
  using assms
proof (induction xs arbitrary: s)
  case Nil
  then show ?case by simp
next
  case (Cons x xs)
  have "total_ccc s + unat (g x) < 2 ^ 64" using Cons.prems by simp
  then obtain s1 where s1: "add_balance (f x) (g x) s = (Ok (), s1)" "only_accounts s s1"
    "total_ccc s1 = total_ccc s + unat (g x)" by (rule add_balance_total)
  moreover have "total_ccc s1 + (\<Sum>x\<leftarrow>xs. unat (g x)) < 2 ^ 64"
    using Cons.prems s1(3) by simp
  ultimately show ?case
    using Cons.IH [of s1] by (auto simp: sbind_apply add.assoc intro: only_accounts_trans)
qed

section \<open>Renewal and expiry of candidates\<close>

definition renewed :: "public set \<Rightarrow> u64 \<Rightarrow> candidate \<Rightarrow> candidate" where
  "renewed R ends c = (if c_pubkey c \<in> R then c\<lparr>nomination_ends_at := ends\<rparr> else c)"

lemma renewed_simps [simp]:
  "c_pubkey (renewed R ends c) = c_pubkey c" "c_deposit (renewed R ends c) = c_deposit c"
  by (simp_all add: renewed_def)

lemma renew_loop_spec:
  assumes "\<forall>c\<in>set cs. adr (c_pubkey c) \<notin> set bn"
  shows "renew_loop adr R ends bn cs = Ok (map (renewed R ends) cs)"
  using assms by (induction cs) (auto simp: renewed_def)

lemma cand_addrs_renewed [simp]: "cand_addrs adr (map (renewed R ends) cs) = cand_addrs adr cs"
  by simp

lemma renew_candidates_spec:
  fixes bn :: "address btree_set"
  assumes "distinct (cand_addrs adr cs)" "\<forall>c\<in>set cs. adr (c_pubkey c) \<notin> set bn"
  obtains cs' R where "(renew_candidates adr vs ends inactive bn cs :: ('e, _) result) = Ok cs'"
    "mset cs' = mset (map (renewed R ends) cs)" "\<forall>p\<in>R. adr p \<notin> set inactive"
proof -
  define R where "R = set (filter (\<lambda>p. adr p \<notin> set inactive) (map v_pubkey vs))"
  define cs1 where "cs1 = map (renewed R ends) cs"
  have addrs: "cand_addrs adr cs1 = cand_addrs adr cs" by (simp add: cs1_def)
  let ?ts = "cand_addrs adr (filter (\<lambda>c. c_pubkey c \<in> R) cs1)"
  have "distinct ?ts" using assms(1) addrs by (intro distinct_map_filter) simp
  moreover have "set ?ts \<subseteq> set (cand_addrs adr cs1)" by auto
  ultimately obtain cs' where cs': "(reprioritize adr ?ts cs1 :: ('e, _) result) = Ok cs'"
    "mset cs' = mset cs1" by (rule reprioritize_spec)
  have loop: "(renew_loop adr R ends bn cs :: ('e, _) result) = Ok cs1"
    using renew_loop_spec [OF assms(2)] cs1_def by simp
  show ?thesis
  proof (rule that)
    show "(renew_candidates adr vs ends inactive bn cs :: ('e, _) result) = Ok cs'"
      unfolding renew_candidates_def Let_def R_def [symmetric] loop using cs'(1) by simp
    show "mset cs' = mset (map (renewed R ends) cs)" using cs'(2) cs1_def by simp
    show "\<forall>p\<in>R. adr p \<notin> set inactive" by (simp add: R_def)
  qed
qed

lemma drain_expired_spec:
  assumes "drain_expired_candidates trm cs = (expired, rest)"
  shows "mset cs = mset (expired @ rest)" "c \<in> set cs \<Longrightarrow> nomination_ends_at c > trm \<Longrightarrow> c \<in> set rest"
    "c \<in> set cs \<Longrightarrow> nomination_ends_at c \<le> trm \<Longrightarrow> c \<in> set expired"
  using assms by (auto simp: drain_expired_candidates_def)

text \<open>Everyone who was a candidate either still is one or has expired; an inactive validator
  whose nomination lasts beyond the term is still a candidate.\<close>

lemma update_candidates_spec:
  assumes "roster_inv adr (action_data s)" "ccc_total s < 2 ^ 64"
  obtains E cs2 t where "update_candidates adr trm ex inactive s = (Ok E, t)"
    "action_data t = (action_data s)\<lparr>candidates := cs2\<rparr>" "md t = md s" "ccc_total t = ccc_total s"
    "distinct (cand_addrs adr cs2)" "set (cand_addrs adr cs2) \<inter> set E = {}"
    "set (cand_addrs adr (candidates (action_data s))) = set (cand_addrs adr cs2) \<union> set E"
    "\<forall>c\<in>set (candidates (action_data s)). adr (c_pubkey c) \<in> set inactive \<longrightarrow>
       nomination_ends_at c > trm \<longrightarrow> adr (c_pubkey c) \<in> set (cand_addrs adr cs2)"
    "\<forall>c\<in>set (candidates (action_data s)). adr (c_pubkey c) \<in> set inactive \<longrightarrow>
       nomination_ends_at c \<le> trm \<longrightarrow> adr (c_pubkey c) \<in> set E"
proof -
  let ?st = "action_data s" and ?cs = "candidates (action_data s)"
  note inv = roster_invD [OF assms(1)]
  have nb: "\<forall>c\<in>set ?cs. adr (c_pubkey c) \<notin> set (banned ?st)" using inv(6) by auto
  obtain cs1 R where cs1:
    "(renew_candidates adr (validators ?st) (trm + ex) inactive (banned ?st) ?cs :: (state_error, _) result) = Ok cs1"
    "mset cs1 = mset (map (renewed R (trm + ex)) ?cs)" "\<forall>p\<in>R. adr p \<notin> set inactive"
    by (rule renew_candidates_spec [OF inv(1) nb])
  obtain expired cs2 where dr: "drain_expired_candidates trm cs1 = (expired, cs2)" by force
  note dr' = drain_expired_spec [OF dr]
  have "mset (cand_addrs adr cs1) = mset (cand_addrs adr (map (renewed R (trm + ex)) ?cs))"
    using cs1(2) by (metis mset_map)
  then have "mset (cand_addrs adr cs1) = mset (cand_addrs adr ?cs)"
    by (simp only: cand_addrs_renewed)
  then have addrs: "mset (cand_addrs adr (expired @ cs2)) = mset (cand_addrs adr ?cs)"
    using dr'(1) by simp
  then have dist: "distinct (cand_addrs adr (expired @ cs2))"
    and sets: "set (cand_addrs adr (expired @ cs2)) = set (cand_addrs adr ?cs)"
    using inv(1) mset_eq_imp_distinct_iff [OF addrs] mset_eq_setD [OF addrs] by simp_all
  have "cand_deposits cs1 = cand_deposits ?cs"
    using cand_deposits_mset [OF cs1(2)] by (simp add: cand_deposits_def o_def)
  then have dep: "cand_deposits ?cs = cand_deposits expired + cand_deposits cs2"
    using cand_deposits_mset [OF dr'(1)] by (simp add: cand_deposits_def)
  then have "total_ccc s + (\<Sum>c\<leftarrow>expired. unat (c_deposit c)) < 2 ^ 64"
    using assms(2) by (simp add: ccc_total_def cand_deposits_def o_def)
  then obtain s1 where s1: "sforeach expired (\<lambda>c. add_balance (adr (c_pubkey c)) (c_deposit c)) s = (Ok (), s1)"
    "only_accounts s s1" "total_ccc s1 = total_ccc s + (\<Sum>c\<leftarrow>expired. unat (c_deposit c))"
    using add_balances_spec [of s c_deposit expired "\<lambda>c. adr (c_pubkey c)"] by auto
  note same = only_accounts_same [OF s1(2)]
  let ?t = "s1\<lparr>action_data := ?st\<lparr>candidates := cs2\<rparr>\<rparr>"
  have run: "update_candidates adr trm ex inactive s = (Ok (map (adr \<circ> c_pubkey) expired), ?t)"
    by (simp add: update_candidates_def cs1(1) dr sbind_apply s1(1) same(5))
  have "balance_of ?t = balance_of s1" by (rule balance_of_cong) simp
  then have sup: "ccc_total ?t = ccc_total s"
    using s1(3) dep by (simp add: ccc_total_def total_ccc_def cand_deposits_def o_def)
  have cs1': "c \<in> set cs1" if "c \<in> set ?cs" "adr (c_pubkey c) \<in> set inactive" for c
  proof -
    have "renewed R (trm + ex) c = c" using that(2) cs1(3) by (auto simp: renewed_def)
    then show ?thesis using that(1) mset_eq_setD [OF cs1(2)] by (force simp: image_iff)
  qed
  show ?thesis
  proof (rule that [OF run])
    show "md ?t = md s" using same(2) by simp
    show "ccc_total ?t = ccc_total s" by (fact sup)
    show "distinct (cand_addrs adr cs2)" using dist by simp
    show "set (cand_addrs adr cs2) \<inter> set (map (adr \<circ> c_pubkey) expired) = {}" using dist by auto
    show "set (cand_addrs adr ?cs) = set (cand_addrs adr cs2) \<union> set (map (adr \<circ> c_pubkey) expired)"
      using sets by auto
    show "\<forall>c\<in>set ?cs. adr (c_pubkey c) \<in> set inactive \<longrightarrow> nomination_ends_at c > trm \<longrightarrow>
        adr (c_pubkey c) \<in> set (cand_addrs adr cs2)" using cs1' dr'(2) by fastforce
    show "\<forall>c\<in>set ?cs. adr (c_pubkey c) \<in> set inactive \<longrightarrow> nomination_ends_at c \<le> trm \<longrightarrow>
        adr (c_pubkey c) \<in> set (map (adr \<circ> c_pubkey) expired)" using cs1' dr'(3) by fastforce
  qed simp
qed

section \<open>Release of prisoners\<close>

lemma drain_released_spec:
  assumes "bmap_inv j" "\<forall>a p. bmap_get j a = Some p \<longrightarrow> p_address p = a"
    and "drain_released_prisoners trm j = (released, j')"
  shows "j' = filter (\<lambda>kv. \<not> released_at (snd kv) \<le> trm) j"
    "released = map snd (filter (\<lambda>kv. released_at (snd kv) \<le> trm) j)"
    "map p_address released = map fst (filter (\<lambda>kv. released_at (snd kv) \<le> trm) j)"
proof -
  have addr: "p_address p = a" if "(a, p) \<in> set j" for a p
    using that assms(1,2) by (simp add: bmap_get_in)
  have rebuild: "map (\<lambda>p. (p_address p, p)) (filter P (map snd xs)) = filter (\<lambda>kv. P (snd kv)) xs"
    if "set xs \<subseteq> set j" for P xs
    using that addr by (induction xs) auto
  show rel: "released = map snd (filter (\<lambda>kv. released_at (snd kv) \<le> trm) j)"
    using assms(3) by (auto simp: drain_released_prisoners_def Let_def filter_map o_def split_beta)
  show "j' = filter (\<lambda>kv. \<not> released_at (snd kv) \<le> trm) j"
    using assms(3) rebuild [of j "\<lambda>p. \<not> released_at p \<le> trm"]
    by (auto simp: drain_released_prisoners_def Let_def o_def
        bmap_of_list_sorted [OF bmap_inv_filter [OF assms(1)]])
  show "map p_address released = map fst (filter (\<lambda>kv. released_at (snd kv) \<le> trm) j)"
    unfolding rel using addr by auto
qed

lemma jail_deposits_filter:
  "jail_deposits j = (\<Sum>p\<leftarrow>map snd (filter P j). unat (p_deposit p)) + jail_deposits (filter (\<lambda>x. \<not> P x) j)"
  unfolding jail_deposits_def by (induction j) auto

lemma release_spec:
  assumes "roster_inv adr (action_data s)" "ccc_total s < 2 ^ 64"
  obtains rl j' t where "release_jailed_prisoners trm s = (Ok rl, t)"
    "action_data t = (action_data s)\<lparr>jailed := j'\<rparr>" "md t = md s" "ccc_total t = ccc_total s"
    "bmap_inv j'" "\<forall>a p. bmap_get j' a = Some p \<longrightarrow> bmap_get (jailed (action_data s)) a = Some p"
    "\<forall>a. bmap_get (jailed (action_data s)) a \<noteq> None \<longrightarrow> bmap_get j' a \<noteq> None \<or> a \<in> set rl"
proof -
  let ?st = "action_data s" and ?j = "jailed (action_data s)"
  note inv = roster_invD [OF assms(1)]
  obtain released j' where dr: "drain_released_prisoners trm ?j = (released, j')" by force
  have addr: "\<forall>a p. bmap_get ?j a = Some p \<longrightarrow> p_address p = a" using inv(3) by blast
  note dr' = drain_released_spec [OF inv(2) addr dr]
  have dep: "jail_deposits ?j = (\<Sum>p\<leftarrow>released. unat (p_deposit p)) + jail_deposits j'"
    using jail_deposits_filter [of ?j "\<lambda>kv. released_at (snd kv) \<le> trm"] by (simp add: dr'(1,2) split_beta)
  then have "total_ccc s + (\<Sum>p\<leftarrow>released. unat (p_deposit p)) < 2 ^ 64"
    using assms(2) by (simp add: ccc_total_def)
  then obtain s1 where s1: "sforeach released (\<lambda>p. add_balance (p_address p) (p_deposit p)) s = (Ok (), s1)"
    "only_accounts s s1" "total_ccc s1 = total_ccc s + (\<Sum>p\<leftarrow>released. unat (p_deposit p))"
    using add_balances_spec [of s p_deposit released p_address] by auto
  note same = only_accounts_same [OF s1(2)]
  let ?t = "s1\<lparr>action_data := ?st\<lparr>jailed := j'\<rparr>\<rparr>"
  have run: "release_jailed_prisoners trm s = (Ok (map p_address released), ?t)"
    by (simp add: release_jailed_prisoners_def dr sbind_apply s1(1) same(5))
  have inv': "bmap_inv j'" unfolding dr'(1) by (rule bmap_inv_filter [OF inv(2)])
  have get: "bmap_get j' a = Some p \<longleftrightarrow> bmap_get ?j a = Some p \<and> \<not> released_at p \<le> trm" for a p
    using bmap_get_in [OF inv', of a p] bmap_get_in [OF inv(2), of a p] by (simp add: dr'(1))
  show ?thesis
  proof (rule that [OF run])
    show "md ?t = md s" using same(2) by simp
    have "balance_of ?t = balance_of s1" by (rule balance_of_cong) simp
    then show "ccc_total ?t = ccc_total s"
      using s1(3) dep by (simp add: ccc_total_def total_ccc_def)
    show "bmap_inv j'" by (fact inv')
    show "\<forall>a p. bmap_get j' a = Some p \<longrightarrow> bmap_get ?j a = Some p" using get by blast
    show "\<forall>a. bmap_get ?j a \<noteq> None \<longrightarrow> bmap_get j' a \<noteq> None \<or> a \<in> set (map p_address released)"
    proof (intro allI impI)
      fix a
      assume jailed: "bmap_get ?j a \<noteq> None"
      obtain p where p: "bmap_get ?j a = Some p" using jailed by blast
      then have "(a, p) \<in> set ?j" using bmap_get_in [OF inv(2)] by blast
      then have "a \<in> set (map p_address released)" if "released_at p \<le> trm"
        unfolding dr'(3) using that by force
      then show "bmap_get j' a \<noteq> None \<or> a \<in> set (map p_address released)" using get [of a p] p by auto
    qed
  qed simp
qed

section \<open>Jailing\<close>

text \<open>\<open>as\<close> have moved from the candidates \<open>cs\<close> to the jail \<open>j\<close>.\<close>

definition moved_to_jail :: "(public \<Rightarrow> address) \<Rightarrow> u64 \<Rightarrow> u64 \<Rightarrow> address list \<Rightarrow> candidate list \<times> jail_map \<Rightarrow>
    candidate list \<times> jail_map \<Rightarrow> bool" where
  "moved_to_jail adr cu ra as = (\<lambda>(cs, j) (cs', j').
     distinct (cand_addrs adr cs') \<and> set (cand_addrs adr cs') = set (cand_addrs adr cs) - set as \<and>
     bmap_inv j' \<and> (\<forall>a. a \<notin> set as \<longrightarrow> bmap_get j' a = bmap_get j a) \<and>
     (\<forall>a\<in>set as. \<exists>p. bmap_get j' a = Some p \<and> p_address p = a \<and> custody_until p = cu \<and> released_at p = ra) \<and>
     cand_deposits cs' + jail_deposits j' = cand_deposits cs + jail_deposits j)"

lemma moved_to_jailD:
  assumes "moved_to_jail adr cu ra as (cs, j) (cs', j')"
  shows "distinct (cand_addrs adr cs')" "set (cand_addrs adr cs') = set (cand_addrs adr cs) - set as"
    "bmap_inv j'" "a \<notin> set as \<Longrightarrow> bmap_get j' a = bmap_get j a"
    "a \<in> set as \<Longrightarrow> \<exists>p. bmap_get j' a = Some p \<and> p_address p = a \<and> custody_until p = cu \<and> released_at p = ra"
    "cand_deposits cs' + jail_deposits j' = cand_deposits cs + jail_deposits j"
  using assms by (auto simp: moved_to_jail_def)

lemma moved_to_jail_trans:
  assumes "moved_to_jail adr cu ra as (cs, j) (cs1, j1)" "moved_to_jail adr cu ra bs (cs1, j1) (cs2, j2)"
    and "set as \<inter> set bs = {}"
  shows "moved_to_jail adr cu ra (as @ bs) (cs, j) (cs2, j2)"
proof -
  note 1 = moved_to_jailD [OF assms(1)] and 2 = moved_to_jailD [OF assms(2)]
  have "\<exists>p. bmap_get j2 a = Some p \<and> p_address p = a \<and> custody_until p = cu \<and> released_at p = ra"
    if "a \<in> set (as @ bs)" for a
    using that 1(5) [of a] 2(4,5) [of a] assms(3) by (cases "a \<in> set bs") auto
  moreover have "bmap_get j2 a = bmap_get j a" if "a \<notin> set (as @ bs)" for a
    using that 1(4) [of a] 2(4) [of a] by simp
  moreover have "set (cand_addrs adr cs2) = set (cand_addrs adr cs) - set (as @ bs)"
    unfolding 2(2) 1(2) by auto
  moreover have "cand_deposits cs2 + jail_deposits j2 = cand_deposits cs + jail_deposits j"
    using 1(6) 2(6) by simp
  ultimately show ?thesis
    using 2(1,3) unfolding moved_to_jail_def prod.case by blast
qed

lemma moved_to_jail_Cons:
  assumes "distinct (cand_addrs adr cs)" "bmap_inv j" "cu \<le> ra"
    and "a \<in> set (cand_addrs adr cs)" "bmap_get j a = None"
  obtains c cs' j' where "candidates_remove adr a cs = (Some c, cs')"
    "(jail_add adr c cu ra j :: ('e, _) result) = Ok j'" "moved_to_jail adr cu ra [a] (cs, j) (cs', j')"
proof -
  obtain r cs' where rm: "candidates_remove adr a cs = (r, cs')" by force
  note rest = candidates_remove_rest [OF assms(1) rm]
  obtain c where r: "r = Some c" using rest(4) assms(4) by auto
  have c: "adr (c_pubkey c) = a" using candidates_remove_Some(2) rm r by blast
  let ?p = "\<lparr>p_address = a, p_deposit = c_deposit c, custody_until = cu, released_at = ra\<rparr>"
  show ?thesis
  proof (rule that)
    show "candidates_remove adr a cs = (Some c, cs')" using rm r by simp
    show "(jail_add adr c cu ra j :: ('e, _) result) = Ok (bmap_insert a ?p j)"
      using assms(3) by (simp add: jail_add_def c Let_def)
    show "moved_to_jail adr cu ra [a] (cs, j) (cs', bmap_insert a ?p j)"
      using rest assms(2) jail_deposits_insert [OF assms(2,5), of ?p]
      by (auto simp: moved_to_jail_def r)
  qed
qed

lemma jail_loop_spec:
  assumes "distinct (cand_addrs adr cs)" "bmap_inv j" "cu \<le> ra" "distinct as"
    and "\<forall>a\<in>set as. a \<in> set (cand_addrs adr cs) \<and> bmap_get j a = None"
  shows "\<exists>cs' j'. jail_loop adr cu ra as cs j = Ok (cs', j') \<and> moved_to_jail adr cu ra as (cs, j) (cs', j')"
  using assms
proof (induction as arbitrary: cs j)
  case Nil
  then show ?case by (simp add: moved_to_jail_def o_def)
next
  case (Cons a as)
  have a: "a \<in> set (cand_addrs adr cs)" "bmap_get j a = None" using Cons.prems(5) by (simp_all add: o_def)
  obtain c cs1 j1 where 1: "candidates_remove adr a cs = (Some c, cs1)"
    "(jail_add adr c cu ra j :: (state_error, _) result) = Ok j1"
    "moved_to_jail adr cu ra [a] (cs, j) (cs1, j1)"
    by (rule moved_to_jail_Cons [OF Cons.prems(1,2,3) a])
  have "b \<in> set (cand_addrs adr cs1) \<and> bmap_get j1 b = None" if "b \<in> set as" for b
  proof -
    have "b \<noteq> a" "b \<in> set (cand_addrs adr cs)" "bmap_get j b = None"
      using that Cons.prems(4,5) by auto
    then show ?thesis using 1(3) unfolding moved_to_jail_def by simp
  qed
  then have pre: "\<forall>b\<in>set as. b \<in> set (cand_addrs adr cs1) \<and> bmap_get j1 b = None" by blast
  have pre': "distinct (cand_addrs adr cs1)" "bmap_inv j1" "distinct as"
    using 1(3) Cons.prems(4) by (auto simp: moved_to_jail_def)
  from Cons.IH [OF pre'(1,2) Cons.prems(3) pre'(3) pre] obtain cs' j' where
    2: "jail_loop adr cu ra as cs1 j1 = Ok (cs', j')" "moved_to_jail adr cu ra as (cs1, j1) (cs', j')"
    by (elim exE conjE)
  have "a \<notin> set as" using Cons.prems(4) by simp
  then have "moved_to_jail adr cu ra (a # as) (cs, j) (cs', j')"
    using moved_to_jail_trans [OF 1(3) 2(2)] by simp
  with 1 2(1) show ?case by simp
qed

lemma jail_spec:
  assumes "stake_ok adr s" "cu \<le> ra" "distinct as"
    and "set as \<subseteq> set (cand_addrs adr (candidates (action_data s)))"
  obtains cs' j' t where "jail adr as cu ra s = (Ok (), t)" "stake_ok adr t" "ccc_total t = ccc_total s"
    "t = s\<lparr>action_data := (action_data s)\<lparr>candidates := cs', jailed := j'\<rparr>\<rparr>"
    "moved_to_jail adr cu ra as (candidates (action_data s), jailed (action_data s)) (cs', j')"
proof -
  let ?st = "action_data s"
  note ok = stake_okD [OF assms(1)]
  note inv = roster_invD [OF ok(2)]
  have "\<forall>a\<in>set as. a \<in> set (cand_addrs adr (candidates ?st)) \<and> bmap_get (jailed ?st) a = None"
    using assms(4) inv(5) by blast
  then obtain cs' j' where loop: "jail_loop adr cu ra as (candidates ?st) (jailed ?st) = Ok (cs', j')"
    and moved: "moved_to_jail adr cu ra as (candidates ?st, jailed ?st) (cs', j')"
    using jail_loop_spec [OF inv(1,2) assms(2,3)] by blast
  let ?t = "s\<lparr>action_data := ?st\<lparr>candidates := cs', jailed := j'\<rparr>\<rparr>"
  have run: "jail adr as cu ra s = (Ok (), ?t)"
    using loop by (cases "as = []") (auto simp: jail_def)
  have "balance_of ?t = balance_of s" by (rule balance_of_cong) simp
  then have sup: "ccc_total ?t = ccc_total s"
    using moved by (simp add: ccc_total_def total_ccc_def moved_to_jail_def)
  have m: "distinct (cand_addrs adr cs')" "bmap_inv j'"
    "set (cand_addrs adr cs') = set (cand_addrs adr (candidates ?st)) - set as"
    "\<And>a. a \<notin> set as \<Longrightarrow> bmap_get j' a = bmap_get (jailed ?st) a"
    "\<And>a. a \<in> set as \<Longrightarrow> \<exists>p. bmap_get j' a = Some p \<and> p_address p = a"
    using moved_to_jailD [OF moved] by blast+
  have "p_address p = a" if "bmap_get j' a = Some p" for a p
    using that inv(3) [of a p] m(4,5) [of a] by (cases "a \<in> set as") auto
  moreover have "bmap_get j' a = None \<and> a \<notin> set (banned ?st)" if "a \<in> set (cand_addrs adr cs')" for a
    using that inv(5,6) [of a] m(4) [of a] unfolding m(3) by auto
  moreover have "a \<notin> set (banned ?st)" if "bmap_get j' a \<noteq> None" for a
    using that inv(6,7) [of a] m(4) [of a] assms(4) by (cases "a \<in> set as") auto
  ultimately have "roster_inv adr (action_data ?t)"
    using m(1,2) inv(4) unfolding roster_inv_def by simp
  moreover have "link_inv adr {} (action_data ?t)"
    unfolding link_inv_def
  proof (intro allI impI)
    fix x k
    assume "bmap_get (delegations (action_data ?t) x) k \<noteq> None"
    then have "k \<in> set (cand_addrs adr (candidates ?st)) \<or> bmap_get (jailed ?st) k \<noteq> None"
      using ok(3) unfolding link_inv_def by simp
    then show "k \<in> set (cand_addrs adr (candidates (action_data ?t))) \<or>
        bmap_get (jailed (action_data ?t)) k \<noteq> None \<or> k \<in> {}"
      using m(3) m(4,5) [of k] by (cases "k \<in> set as") auto
  qed
  moreover have "ledger_inv (action_data ?t)" using ledger_same(1) [of "action_data ?t" ?st] ok(1) by simp
  ultimately have "stake_ok adr ?t" using sup ok(4) by (simp add: stake_ok_def)
  then show ?thesis using that run sup moved by blast
qed

section \<open>Closing a term\<close>

text \<open>The roster stays well-formed when candidates and prisoners only leave.\<close>

lemma roster_shrink:
  assumes "roster_inv adr st" "banned st' = banned st" "distinct (cand_addrs adr (candidates st'))"
    and "set (cand_addrs adr (candidates st')) \<subseteq> set (cand_addrs adr (candidates st))"
    and "bmap_inv (jailed st')" "\<And>a p. bmap_get (jailed st') a = Some p \<Longrightarrow> bmap_get (jailed st) a = Some p"
  shows "roster_inv adr st'"
proof -
  note inv = roster_invD [OF assms(1)]
  have jl: "bmap_get (jailed st) a = None \<Longrightarrow> bmap_get (jailed st') a = None" for a
    using assms(6) [of a] by (cases "bmap_get (jailed st') a") auto
  show ?thesis
    unfolding roster_inv_def assms(2)
  proof (intro conjI allI ballI impI)
    show "p_address p = a" if "bmap_get (jailed st') a = Some p" for a p
      using that assms(6) inv(3) by blast
    show "bmap_get (jailed st') a = None" "a \<notin> set (banned st)"
      if "a \<in> set (cand_addrs adr (candidates st'))" for a
      using that assms(4) inv(5,6) [of a] jl [of a] by blast+
    show "a \<notin> set (banned st)" if "bmap_get (jailed st') a \<noteq> None" for a
      using that inv(7) [of a] jl [of a] by (cases "bmap_get (jailed st) a") auto
  qed (use assms(3,5) inv(4) in auto)
qed

text \<open>Expiry and release, up to the reverted delegations.\<close>

lemma term_departures:
  assumes "stake_ok adr s"
  obtains E rl t1 t2 t where "update_candidates adr trm ex inactive s = (Ok E, t1)"
    "release_jailed_prisoners trm t1 = (Ok rl, t2)" "revert_delegations (E @ rl) t2 = (Ok (), t)"
    "stake_ok adr t" "ccc_total t = ccc_total s" "total_ccs (action_data t) = total_ccs (action_data s)"
    "md t = md s" "banned (action_data t) = banned (action_data s)"
    "\<forall>c\<in>set (candidates (action_data s)). adr (c_pubkey c) \<in> set inactive \<longrightarrow>
       nomination_ends_at c > trm \<longrightarrow> adr (c_pubkey c) \<in> set (cand_addrs adr (candidates (action_data t)))"
    "\<forall>c\<in>set (candidates (action_data s)). adr (c_pubkey c) \<in> set inactive \<longrightarrow>
       nomination_ends_at c \<le> trm \<longrightarrow> adr (c_pubkey c) \<notin> set (cand_addrs adr (candidates (action_data t)))"
proof -
  let ?st = "action_data s"
  note ok = stake_okD [OF assms]
  obtain E cs2 t1 where 1: "update_candidates adr trm ex inactive s = (Ok E, t1)"
    "action_data t1 = ?st\<lparr>candidates := cs2\<rparr>" "md t1 = md s" "ccc_total t1 = ccc_total s"
    "distinct (cand_addrs adr cs2)" "set (cand_addrs adr cs2) \<inter> set E = {}"
    "set (cand_addrs adr (candidates ?st)) = set (cand_addrs adr cs2) \<union> set E"
    "\<forall>c\<in>set (candidates ?st). adr (c_pubkey c) \<in> set inactive \<longrightarrow>
       nomination_ends_at c > trm \<longrightarrow> adr (c_pubkey c) \<in> set (cand_addrs adr cs2)"
    "\<forall>c\<in>set (candidates ?st). adr (c_pubkey c) \<in> set inactive \<longrightarrow>
       nomination_ends_at c \<le> trm \<longrightarrow> adr (c_pubkey c) \<in> set E"
    by (rule update_candidates_spec [OF ok(2,4)])
  have r1: "roster_inv adr (action_data t1)"
    by (rule roster_shrink [OF ok(2)]) (use 1(2,5,7) roster_invD(2) [OF ok(2)] in auto)
  have sup1: "ccc_total t1 < 2 ^ 64" using 1(4) ok(4) by simp
  obtain rl j' t2 where 2: "release_jailed_prisoners trm t1 = (Ok rl, t2)"
    "action_data t2 = (action_data t1)\<lparr>jailed := j'\<rparr>" "md t2 = md t1" "ccc_total t2 = ccc_total t1"
    "bmap_inv j'" "\<forall>a p. bmap_get j' a = Some p \<longrightarrow> bmap_get (jailed (action_data t1)) a = Some p"
    "\<forall>a. bmap_get (jailed (action_data t1)) a \<noteq> None \<longrightarrow> bmap_get j' a \<noteq> None \<or> a \<in> set rl"
    by (rule release_spec [OF r1 sup1, where trm = trm])
  have r2: "roster_inv adr (action_data t2)"
    by (rule roster_shrink [OF r1]) (use 2(2,5,6) roster_invD(1) [OF r1] in auto)
  have led2: "ledger_inv (action_data t2)" "total_ccs (action_data t2) = total_ccs ?st"
    using ledger_same [of "action_data t2" ?st] ok(1) 1(2) 2(2) by simp_all
  have link2: "link_inv adr (set (E @ rl)) (action_data t2)"
    unfolding link_inv_def
  proof (intro allI impI)
    fix x k
    assume "bmap_get (delegations (action_data t2) x) k \<noteq> None"
    then have "k \<in> set (cand_addrs adr (candidates ?st)) \<or> bmap_get (jailed ?st) k \<noteq> None"
      using ok(3) 1(2) 2(2) unfolding link_inv_def by simp
    then show "k \<in> set (cand_addrs adr (candidates (action_data t2))) \<or>
        bmap_get (jailed (action_data t2)) k \<noteq> None \<or> k \<in> set (E @ rl)"
      unfolding 1(7) using 2(7) by (auto simp: 1(2) 2(2))
  qed
  obtain t where 3: "revert_delegations (E @ rl) t2 = (Ok (), t)" "ledger_inv (action_data t)"
    "total_ccs (action_data t) = total_ccs (action_data t2)" "only_holdings t2 t"
    "link_inv adr {} (action_data t)"
    by (rule revert_delegations_link [OF led2(1) link2])
  note same = only_holdings_same [OF 3(4)]
  have sup: "ccc_total t = ccc_total s"
    using same(1,2,7) 1(4) 2(4) by (simp add: ccc_total_def total_ccc_def)
  moreover have "roster_inv adr (action_data t)" using r2 roster_same same(1-3) by blast
  ultimately have "stake_ok adr t" using 3(2,5) ok(4) by (simp add: stake_ok_def)
  moreover have "md t = md s" using same(6) 1(3) 2(3) by simp
  moreover have "total_ccs (action_data t) = total_ccs ?st" using 3(3) led2(2) by simp
  moreover have "banned (action_data t) = banned ?st" using same(3) 1(2) 2(2) by simp
  moreover have "candidates (action_data t) = cs2" using same(1) 1(2) 2(2) by simp
  ultimately show ?thesis using that [OF 1(1) 2(1) 3(1)] sup 1(6,8,9) by blast
qed

lemma elect_Ok:
  assumes "roster_inv adr st" "min_num_of_validators p \<le> max_num_of_validators p"
  shows "(elect adr p st :: ('e, _) result) = Ok (elect_from (max_num_of_validators p) (min_num_of_validators p)
    (delegation_threshold p) (prepare_validators adr (candidates st) (min_deposit p) (delegatees st)))"
proof -
  have "list_all (\<lambda>v. \<not> is_banned (adr (v_pubkey v)) (banned st))
      (prepare_validators adr (candidates st) (min_deposit p) (delegatees st))"
    using roster_invD(6) [OF assms(1)]
    by (fastforce simp: list_all_iff prepare_validators_def map_filter_def validator_new_def is_banned_def)
  with assms(2) show ?thesis by (simp add: elect_def Let_def)
qed

lemma elect_from_subset: "set (elect_from mx mn th vs) \<subseteq> set vs"
  by (auto simp: elect_from_def Let_def dest!: in_set_takeD in_set_dropD)

lemma prepare_validators_subset:
  "v \<in> set (prepare_validators adr cs dep dlgs) \<Longrightarrow> adr (v_pubkey v) \<in> set (cand_addrs adr cs)"
  by (auto simp: prepare_validators_def map_filter_def validator_new_def)

lemma jail_loop_panics:
  assumes "a \<in> set as" "a \<notin> set (cand_addrs adr cs)" "cu \<le> ra" "distinct (cand_addrs adr cs)"
  shows "\<exists>msg. jail_loop adr cu ra as cs j = Panics msg"
  using assms
proof (induction as arbitrary: cs j)
  case Nil
  then show ?case by simp
next
  case (Cons b as)
  obtain r cs1 where rm: "candidates_remove adr b cs = (r, cs1)" by force
  note rest = candidates_remove_rest [OF Cons.prems(4) rm]
  show ?case
  proof (cases r)
    case None
    with rm show ?thesis by simp
  next
    case (Some c)
    have "a \<in> set as" using Some rest(4) Cons.prems(1,2) by auto
    moreover have "a \<notin> set (cand_addrs adr cs1)" using rest(2) Cons.prems(2) by blast
    ultimately show ?thesis
      using Cons.IH [OF _ _ Cons.prems(3) rest(1)] rm Some Cons.prems(3) by (simp add: jail_add_def Let_def)
  qed
qed

lemma verified_params:
  assumes "params_verify p = Ok ()" "term_seconds p \<noteq> 0"
    and "unat trm + unat (release_period p) < 2 ^ 64"
  shows "nomination_expiration p \<noteq> 0" "custody_period p \<noteq> 0" "release_period p \<noteq> 0"
    "min_num_of_validators p \<le> max_num_of_validators p"
    "trm + custody_period p \<le> trm + release_period p"
proof -
  show "nomination_expiration p \<noteq> 0" "custody_period p \<noteq> 0" "release_period p \<noteq> 0"
    "min_num_of_validators p \<le> max_num_of_validators p"
    using assms(1,2) by (simp_all add: params_verify_Ok)
  have "unat (custody_period p) < unat (release_period p)"
    using assms(1,2) by (simp add: params_verify_Ok word_less_nat_alt)
  then show "trm + custody_period p \<le> trm + release_period p"
    using assms(3) by (simp add: word_le_nat_alt unat_word_ariths)
qed

lemma on_term_close_run:
  assumes "md s = Some m" "md_params m = Some p" "trm = current_term_id (md_term m)"
    and "nomination_expiration p \<noteq> 0" "custody_period p \<noteq> 0" "release_period p \<noteq> 0"
    and "update_candidates adr trm (nomination_expiration p) inactive s = (Ok E, t1)"
    and "release_jailed_prisoners trm t1 = (Ok rl, t2)" "revert_delegations (E @ rl) t2 = (Ok (), t)"
  shows "on_term_close adr n inactive s =
    sbind (jail adr inactive (trm + custody_period p) (trm + release_period p)) (\<lambda>_.
    sbind (load (elect adr p)) (\<lambda>elected. sbind (slift elected) (\<lambda>vs.
    sbind (save (\<lambda>st. st\<lparr>validators := vs\<rparr>)) (\<lambda>_. increase_term_id n)))) t"
  using assms by (simp add: on_term_close_def Let_def sbind_apply)

text \<open>The last steps: the election and the term counter.\<close>

lemma election_spec:
  assumes "stake_ok adr s" "md s = Some m" "min_num_of_validators p \<le> max_num_of_validators p"
    and "last_term_finished_block_num (md_term m) < n"
  obtains vs t where "sbind (load (elect adr p)) (\<lambda>elected. sbind (slift elected) (\<lambda>vs.
      sbind (save (\<lambda>st. st\<lparr>validators := vs\<rparr>)) (\<lambda>_. increase_term_id n))) s = (Ok (), t)"
    "stake_ok adr t" "ccc_total t = ccc_total s" "action_data t = (action_data s)\<lparr>validators := vs\<rparr>"
    "\<forall>v\<in>set vs. adr (v_pubkey v) \<in> set (cand_addrs adr (candidates (action_data s)))"
    "md t = Some (m\<lparr>md_term := \<lparr>last_term_finished_block_num = n, current_term_id = current_term_id (md_term m) + 1\<rparr>\<rparr>)"
proof -
  let ?eligible = "prepare_validators adr (candidates (action_data s)) (min_deposit p) (delegatees (action_data s))"
  define vs where "vs = elect_from (max_num_of_validators p) (min_num_of_validators p) (delegation_threshold p) ?eligible"
  have el: "(elect adr p (action_data s) :: (state_error, _) result) = Ok vs"
    unfolding vs_def by (rule elect_Ok [OF stake_okD(2) [OF assms(1)] assms(3)])
  let ?m = "m\<lparr>md_term := \<lparr>last_term_finished_block_num = n, current_term_id = current_term_id (md_term m) + 1\<rparr>\<rparr>"
  let ?t = "s\<lparr>action_data := (action_data s)\<lparr>validators := vs\<rparr>, md := Some ?m\<rparr>"
  show ?thesis
  proof (rule that)
    show "sbind (load (elect adr p)) (\<lambda>elected. sbind (slift elected) (\<lambda>vs.
      sbind (save (\<lambda>st. st\<lparr>validators := vs\<rparr>)) (\<lambda>_. increase_term_id n))) s = (Ok (), ?t)"
      using assms(2,4) el by (simp add: sbind_apply increase_term_id_def get_metadata_mut_def
          metadata_increase_term_id_def set_metadata_def)
    have "balance_of ?t = balance_of s" by (rule balance_of_cong) simp
    then show sup: "ccc_total ?t = ccc_total s" by (simp add: ccc_total_def total_ccc_def)
    have "ledger_inv (action_data ?t)" "roster_inv adr (action_data ?t)" "link_inv adr {} (action_data ?t)"
      using ledger_same(1) [of "action_data ?t" "action_data s"] stake_okD(1-3) [OF assms(1)]
      by (simp_all add: roster_inv_def link_inv_def)
    then show "stake_ok adr ?t" using sup stake_okD(4) [OF assms(1)] by (simp add: stake_ok_def)
    show "\<forall>v\<in>set vs. adr (v_pubkey v) \<in> set (cand_addrs adr (candidates (action_data s)))"
      unfolding vs_def using subsetD [OF elect_from_subset] prepare_validators_subset by blast
  qed simp_all
qed

text \<open>
  C12: closing a term succeeds: with parameters that pass verification and validators to jail
  whose nomination outlasts the term, no step fails or panics; the CCC in balances and
  deposits and the total stake are unchanged and the stake data stay well-formed; every
  inactive validator is jailed until its custody and release terms and is no candidate any
  more; the validators of the next term are candidates; and the term counter advances by one.
\<close>

theorem on_term_close_ok:
  assumes "stake_ok adr s" "md s = Some m" "md_params m = Some p" "trm = current_term_id (md_term m)"
    and "params_verify p = Ok ()" "term_seconds p \<noteq> 0" "unat trm + unat (release_period p) < 2 ^ 64"
    and "last_term_finished_block_num (md_term m) < n" "distinct inactive"
    and "\<forall>a\<in>set inactive. \<exists>c\<in>set (candidates (action_data s)).
      adr (c_pubkey c) = a \<and> nomination_ends_at c > trm"
  shows "\<exists>t. on_term_close adr n inactive s = (Ok (), t) \<and> stake_ok adr t \<and>
    ccc_total t = ccc_total s \<and> total_ccs (action_data t) = total_ccs (action_data s) \<and>
    (\<forall>a\<in>set inactive. a \<notin> set (cand_addrs adr (candidates (action_data t))) \<and>
       (\<exists>pr. bmap_get (jailed (action_data t)) a = Some pr \<and>
         custody_until pr = trm + custody_period p \<and> released_at pr = trm + release_period p)) \<and>
    (\<forall>v\<in>set (validators (action_data t)). adr (v_pubkey v) \<in> set (cand_addrs adr (candidates (action_data t)))) \<and>
    (\<exists>m'. md t = Some m' \<and> md_term m' = \<lparr>last_term_finished_block_num = n, current_term_id = trm + 1\<rparr>)"
proof -
  note pv = verified_params [OF assms(5-7)]
  obtain E rl t1 t2 t3 where dep: "update_candidates adr trm (nomination_expiration p) inactive s = (Ok E, t1)"
    "release_jailed_prisoners trm t1 = (Ok rl, t2)" "revert_delegations (E @ rl) t2 = (Ok (), t3)"
    and t3: "stake_ok adr t3" "ccc_total t3 = ccc_total s" "total_ccs (action_data t3) = total_ccs (action_data s)"
    "md t3 = md s" and kept: "\<forall>c\<in>set (candidates (action_data s)). adr (c_pubkey c) \<in> set inactive \<longrightarrow>
       nomination_ends_at c > trm \<longrightarrow> adr (c_pubkey c) \<in> set (cand_addrs adr (candidates (action_data t3)))"
    by (rule term_departures [OF assms(1), where trm = trm and ex = "nomination_expiration p" and inactive = inactive])
  have sub: "set inactive \<subseteq> set (cand_addrs adr (candidates (action_data t3)))"
  proof
    fix a
    assume a: "a \<in> set inactive"
    with assms(10) obtain c where "c \<in> set (candidates (action_data s))" "adr (c_pubkey c) = a"
      "nomination_ends_at c > trm" by blast
    with kept a show "a \<in> set (cand_addrs adr (candidates (action_data t3)))" by blast
  qed
  let ?st3 = "action_data t3"
  obtain cs4 j4 t4 where t4: "jail adr inactive (trm + custody_period p) (trm + release_period p) t3 = (Ok (), t4)"
    "stake_ok adr t4" "ccc_total t4 = ccc_total t3"
    "t4 = t3\<lparr>action_data := ?st3\<lparr>candidates := cs4, jailed := j4\<rparr>\<rparr>"
    "moved_to_jail adr (trm + custody_period p) (trm + release_period p) inactive
       (candidates ?st3, jailed ?st3) (cs4, j4)"
    by (rule jail_spec [OF t3(1) pv(5) assms(9) sub])
  have m4: "md t4 = Some m" using t4(4) t3(4) assms(2) by simp
  obtain vs t where t: "sbind (load (elect adr p)) (\<lambda>elected. sbind (slift elected) (\<lambda>vs.
      sbind (save (\<lambda>st. st\<lparr>validators := vs\<rparr>)) (\<lambda>_. increase_term_id n))) t4 = (Ok (), t)"
    "stake_ok adr t" "ccc_total t = ccc_total t4" "action_data t = (action_data t4)\<lparr>validators := vs\<rparr>"
    "\<forall>v\<in>set vs. adr (v_pubkey v) \<in> set (cand_addrs adr (candidates (action_data t4)))"
    "md t = Some (m\<lparr>md_term := \<lparr>last_term_finished_block_num = n, current_term_id = current_term_id (md_term m) + 1\<rparr>\<rparr>)"
    by (rule election_spec [OF t4(2) m4 pv(4) assms(8)])
  have run: "on_term_close adr n inactive s = (Ok (), t)"
    using t(1) by (simp add: on_term_close_run [OF assms(2-4) pv(1-3) dep] sbind_apply t4(1))
  have tot: "total_ccs (action_data t) = total_ccs (action_data s)"
    using ledger_same(2) [of "action_data t" ?st3] t3(3) by (simp add: t(4) t4(4))
  have jl: "a \<notin> set (cand_addrs adr (candidates (action_data t))) \<and>
      (\<exists>pr. bmap_get (jailed (action_data t)) a = Some pr \<and>
         custody_until pr = trm + custody_period p \<and> released_at pr = trm + release_period p)"
    if "a \<in> set inactive" for a
    using that moved_to_jailD(2) [OF t4(5)] moved_to_jailD(5) [OF t4(5) that] by (auto simp: t(4) t4(4))
  show ?thesis
    using run t(2,3,5,6) t4(3) t3(2) tot jl assms(4) by (intro exI [of _ t]) (simp add: t(4))
qed

text \<open>
  C13: the converse case panics. When an inactive validator's nomination expires in the very
  term that closes, the validator has left the candidates before it is to be jailed, and
  \<open>jail\<close> panics on \<open>There should be a candidate to jail\<close>.
\<close>

theorem on_term_close_panics:
  assumes "stake_ok adr s" "md s = Some m" "md_params m = Some p" "trm = current_term_id (md_term m)"
    and "params_verify p = Ok ()" "term_seconds p \<noteq> 0" "unat trm + unat (release_period p) < 2 ^ 64"
    and "c \<in> set (candidates (action_data s))" "adr (c_pubkey c) \<in> set inactive" "nomination_ends_at c \<le> trm"
  shows "\<exists>msg t. on_term_close adr n inactive s = (Panics msg, t)"
proof -
  note pv = verified_params [OF assms(5-7)]
  obtain E rl t1 t2 t3 where dep: "update_candidates adr trm (nomination_expiration p) inactive s = (Ok E, t1)"
    "release_jailed_prisoners trm t1 = (Ok rl, t2)" "revert_delegations (E @ rl) t2 = (Ok (), t3)"
    and ok3: "stake_ok adr t3" and gone: "\<forall>c\<in>set (candidates (action_data s)). adr (c_pubkey c) \<in> set inactive \<longrightarrow>
       nomination_ends_at c \<le> trm \<longrightarrow> adr (c_pubkey c) \<notin> set (cand_addrs adr (candidates (action_data t3)))"
    by (rule term_departures [OF assms(1), where trm = trm and ex = "nomination_expiration p" and inactive = inactive])
  have gone_c: "adr (c_pubkey c) \<notin> set (cand_addrs adr (candidates (action_data t3)))"
    using gone assms(8-10) by blast
  obtain msg where "jail_loop adr (trm + custody_period p) (trm + release_period p) inactive
      (candidates (action_data t3)) (jailed (action_data t3)) = Panics msg"
    using jail_loop_panics [OF assms(9) gone_c pv(5)] roster_invD(1) [OF stake_okD(2) [OF ok3]] by blast
  moreover have "inactive \<noteq> []" using assms(9) by auto
  ultimately have "jail adr inactive (trm + custody_period p) (trm + release_period p) t3 = (Panics msg, t3)"
    by (simp add: jail_def)
  then show ?thesis
    by (simp add: on_term_close_run [OF assms(2-4) pv(1-3) dep] sbind_apply)
qed

section \<open>Witnesses\<close>

definition sample_metadata :: "u64 \<Rightarrow> metadata" where
  "sample_metadata trm = (metadata_new 1)\<lparr>md_params := Some sample_params,
     md_term := \<lparr>last_term_finished_block_num = 90, current_term_id = trm\<rparr>\<rparr>"

definition sample_term_top :: "u64 \<Rightarrow> stake_data top_state" where
  "sample_term_top trm = sample_stake_top\<lparr>md := Some (sample_metadata trm)\<rparr>"

lemma sample_term_ok: "stake_ok ucast (sample_term_top trm)" "ccc_total (sample_term_top trm) = 150"
proof -
  have "balance_of (sample_term_top trm) = balance_of sample_stake_top"
    by (rule balance_of_cong) (simp add: sample_term_top_def)
  then have sup: "ccc_total (sample_term_top trm) = ccc_total sample_stake_top"
    by (simp add: ccc_total_def total_ccc_def sample_term_top_def)
  then show "ccc_total (sample_term_top trm) = 150" using sample_stake_ok(2) by simp
  show "stake_ok ucast (sample_term_top trm)"
    using sample_stake_ok(1) sup by (simp add: stake_ok_def sample_term_top_def)
qed

lemma sample_term_simps:
  "md (sample_term_top trm) = Some (sample_metadata trm)" "md_params (sample_metadata trm) = Some sample_params"
  "md_term (sample_metadata trm) = \<lparr>last_term_finished_block_num = 90, current_term_id = trm\<rparr>"
  "candidates (action_data (sample_term_top trm)) =
     [\<lparr>c_pubkey = 5, c_deposit = 50, nomination_ends_at = 10, c_metadata = []\<rparr>]"
  by (simp_all add: sample_term_top_def sample_metadata_def sample_stake_top_def sample_stake_def)

theorem on_term_close_ok_witness:
  "\<exists>t. on_term_close ucast 100 [5] (sample_term_top 2) = (Ok (), t) \<and> stake_ok ucast t \<and> ccc_total t = 150 \<and>
     (\<exists>pr. bmap_get (jailed (action_data t)) 5 = Some pr \<and> custody_until pr = 5 \<and> released_at pr = 11)"
proof -
  have "\<exists>t. on_term_close ucast 100 [5] (sample_term_top 2) = (Ok (), t) \<and> stake_ok ucast t \<and>
    ccc_total t = ccc_total (sample_term_top 2) \<and>
    total_ccs (action_data t) = total_ccs (action_data (sample_term_top 2)) \<and>
    (\<forall>a\<in>set [5]. a \<notin> set (cand_addrs ucast (candidates (action_data t))) \<and>
       (\<exists>pr. bmap_get (jailed (action_data t)) a = Some pr \<and>
         custody_until pr = 2 + custody_period sample_params \<and> released_at pr = 2 + release_period sample_params)) \<and>
    (\<forall>v\<in>set (validators (action_data t)). ucast (v_pubkey v) \<in> set (cand_addrs ucast (candidates (action_data t)))) \<and>
    (\<exists>m'. md t = Some m' \<and> md_term m' = \<lparr>last_term_finished_block_num = 100, current_term_id = 2 + 1\<rparr>)"
    by (rule on_term_close_ok [where m = "sample_metadata 2", OF sample_term_ok(1)])
      (simp_all add: sample_term_simps sample_params_ok)
  then show ?thesis by (auto simp: sample_params_ok sample_term_ok(2))
qed

theorem on_term_close_panics_witness:
  "\<exists>msg t. on_term_close ucast 100 [5] (sample_term_top 10) = (Panics msg, t)"
  by (rule on_term_close_panics [where m = "sample_metadata 10" and p = sample_params and trm = 10 and
        c = "\<lparr>c_pubkey = 5, c_deposit = 50, nomination_ends_at = 10, c_metadata = []\<rparr>", OF sample_term_ok(1)])
    (simp_all add: sample_term_simps sample_params_ok)

end
