(* ===== verification/Stake_Election.thy ===== *)
theory Stake_Election
  imports Stake_Roster
begin

text \<open>
  Elections and weights of validators, and changes of the consensus parameters: who is
  elected, that block production always finds a validator with weight, and what share of the
  stake a change of the parameters needs.
\<close>

section \<open>What every delegatee receives\<close>

lemma get_quantity_simps [simp]: "get_quantity [] a = 0"
  by (simp add: get_quantity_def)

lemma add_delegation_spec:
  assumes "bmap_inv res"
  shows "bmap_inv (add_delegation res (k, q))"
    "bmap_get (add_delegation res (k, q)) = (bmap_get res)(k \<mapsto> get_quantity res k + q)"
  using assms by (simp_all add: add_delegation_def get_quantity_def)

lemma add_delegations_spec:
  assumes "bmap_inv d" "bmap_inv res"
  shows "bmap_inv (foldl add_delegation res d) \<and>
    get_quantity (foldl add_delegation res d) a = get_quantity res a + get_quantity d a \<and>
    (bmap_get (foldl add_delegation res d) a = None \<longleftrightarrow> bmap_get res a = None \<and> bmap_get d a = None)"
  using assms
proof (induction d arbitrary: res)
  case Nil
  then show ?case by simp
next
  case (Cons kq d)
  obtain k q where kq: "kq = (k, q)" by (cases kq)
  have d: "bmap_inv d" "bmap_get d k = None"
    using Cons.prems(1) by (auto simp: kq bmap_inv_Cons intro!: bmap_get_fresh)
  note ad = add_delegation_spec [OF Cons.prems(2), of k q]
  have "bmap_get ((k, q) # d) a = (if a = k then Some q else bmap_get d a)"
    by (simp add: bmap_get_def)
  then show ?case
    using Cons.IH [OF d(1) ad(1)] ad d(2) by (auto simp: kq get_quantity_def)
qed

lemma delegatees_spec:
  assumes "ledger_inv st"
  shows "get_quantity (delegatees st) a =
      (\<Sum>sh\<leftarrow>stakeholders st. get_quantity (delegations st sh) a)"
    "bmap_get (delegatees st) a = None \<longleftrightarrow> (\<forall>sh\<in>set (stakeholders st). bmap_get (delegations st sh) a = None)"
proof -
  let ?f = "\<lambda>res sh. foldl add_delegation res (delegations st sh)"
  have "bmap_inv (foldl ?f res shs) \<and>
      get_quantity (foldl ?f res shs) a = get_quantity res a + (\<Sum>sh\<leftarrow>shs. get_quantity (delegations st sh) a) \<and>
      (bmap_get (foldl ?f res shs) a = None \<longleftrightarrow>
        bmap_get res a = None \<and> (\<forall>sh\<in>set shs. bmap_get (delegations st sh) a = None))"
    if "bmap_inv res" for res shs
    using that
  proof (induction shs arbitrary: res)
    case Nil
    then show ?case by simp
  next
    case (Cons sh shs)
    from add_delegations_spec [OF ledger_invD(2) [OF assms] Cons.prems, of sh a] Cons.IH
    show ?case by (auto simp: add.assoc)
  qed
  from this [of "[]" "stakeholders st"]
  show "get_quantity (delegatees st) a = (\<Sum>sh\<leftarrow>stakeholders st. get_quantity (delegations st sh) a)"
    "bmap_get (delegatees st) a = None \<longleftrightarrow> (\<forall>sh\<in>set (stakeholders st). bmap_get (delegations st sh) a = None)"
    by (simp_all add: delegatees_def)
qed

section \<open>Election\<close>

lemma filter_descending:
  fixes f :: "'a \<Rightarrow> 'b::linorder"
  assumes "sorted_wrt (\<lambda>x y. f y \<le> f x) xs"
  shows "filter (\<lambda>x. th \<le> f x) xs = take (length (filter (\<lambda>x. th \<le> f x) xs)) xs"
  using assms
proof (induction xs)
  case Nil
  then show ?case by simp
next
  case (Cons x xs)
  have "filter (\<lambda>x. th \<le> f x) xs = []" if "\<not> th \<le> f x"
    using that Cons.prems by (auto simp: filter_empty_conv)
  then show ?case using Cons by auto
qed

lemma take_or_over_threshold:
  fixes f :: "'a \<Rightarrow> 'b::linorder"
  assumes "sorted_wrt (\<lambda>x y. f y \<le> f x) xs"
  shows "take n xs @ filter (\<lambda>x. th \<le> f x) (drop n xs) =
    take (max n (length (filter (\<lambda>x. th \<le> f x) xs))) xs"
  using assms
proof (induction xs arbitrary: n)
  case Nil
  then show ?case by simp
next
  case (Cons x xs)
  show ?case
  proof (cases n)
    case 0
    then show ?thesis using filter_descending [OF Cons.prems, of th] by simp
  next
    case (Suc m)
    have "length (filter (\<lambda>x. th \<le> f x) xs) = 0" if "\<not> th \<le> f x"
      using that Cons.prems by (auto simp: filter_empty_conv)
    then show ?thesis using Cons.IH [of m] Cons.prems Suc by (auto simp: max_def)
  qed
qed

lemma length_filter_take_descending:
  fixes f :: "'a \<Rightarrow> 'b::linorder"
  assumes "sorted_wrt (\<lambda>x y. f y \<le> f x) xs"
  shows "length (filter (\<lambda>x. th \<le> f x) (take m xs)) = min m (length (filter (\<lambda>x. th \<le> f x) xs))"
  using assms
proof (induction xs arbitrary: m)
  case Nil
  then show ?case by simp
next
  case (Cons x xs)
  have "\<forall>y\<in>set xs. \<not> th \<le> f y" if "\<not> th \<le> f x" using that Cons.prems by auto
  then have "filter (\<lambda>x. th \<le> f x) xs = []" "filter (\<lambda>x. th \<le> f x) (take k xs) = []" if "\<not> th \<le> f x" for k
    using that by (auto simp: filter_empty_conv dest: in_set_takeD)
  then show ?case using Cons by (cases m) auto
qed

text \<open>With the eligible candidates in ascending order, the elected are the last ones of the
  list: as many as reach the threshold, but at least the minimum and at most the maximum.\<close>

definition seats :: "nat \<Rightarrow> nat \<Rightarrow> u64 \<Rightarrow> validator list \<Rightarrow> nat" where
  "seats max_num min_num threshold el =
     min max_num (max (min min_num (length el)) (length (filter (\<lambda>v. threshold \<le> v_delegation v) el)))"

lemma elect_from_eq:
  assumes "sorted (map (\<lambda>v. (v_delegation v, v_deposit v)) el)" "min_num \<le> max_num"
  shows "elect_from max_num min_num threshold el = drop (length el - seats max_num min_num threshold el) el"
proof -
  let ?ok = "\<lambda>v. threshold \<le> v_delegation v" and ?xs = "take max_num (rev el)"
  have "sorted_wrt (\<lambda>v w. v_delegation v \<le> v_delegation w) el"
    using assms(1) unfolding sorted_map
    by (rule sorted_wrt_mono_rel [rotated]) (auto simp: less_eq_prod_def)
  then have desc: "sorted_wrt (\<lambda>v w. v_delegation w \<le> v_delegation v) (rev el)"
    by (simp add: sorted_wrt_rev)
  then have desc': "sorted_wrt (\<lambda>v w. v_delegation w \<le> v_delegation v) ?xs"
    by (rule sorted_wrt_take)
  have "length (filter ?ok ?xs) = min max_num (length (filter ?ok el))"
    using length_filter_take_descending [OF desc, of threshold max_num] by (simp add: rev_filter [symmetric])
  moreover have "min min_num (length ?xs) = min min_num (length el)" using assms(2) by simp
  ultimately have "take (min min_num (length ?xs)) ?xs @ filter ?ok (drop (min min_num (length ?xs)) ?xs) =
      take (seats max_num min_num threshold el) (rev el)"
    using take_or_over_threshold [OF desc', of "min min_num (length ?xs)" threshold] assms(2)
    by (auto simp: seats_def min_def max_def)
  then show ?thesis
    unfolding elect_from_def Let_def by (simp only: take_rev) simp
qed

lemma set_prepare_validators:
  "v \<in> set (prepare_validators adr cs dep dlgs) \<longleftrightarrow>
     (\<exists>c\<in>set cs. dep \<le> c_deposit c \<and> (\<exists>dlg. bmap_get dlgs (adr (c_pubkey c)) = Some dlg \<and>
        v = validator_new dlg (c_deposit c) (c_pubkey c)))"
  unfolding prepare_validators_def map_filter_def set_sort set_map set_filter
  by (auto simp: image_iff)

text \<open>The candidates that can be elected, in ascending order.\<close>

definition eligible :: "(public \<Rightarrow> address) \<Rightarrow> common_params \<Rightarrow> stake_data \<Rightarrow> validator list" where
  "eligible adr p st = prepare_validators adr (candidates st) (min_deposit p) (delegatees st)"

lemma set_eligible:
  assumes "ledger_inv st"
  shows "v \<in> set (eligible adr p st) \<longleftrightarrow> (\<exists>c\<in>set (candidates st). min_deposit p \<le> c_deposit c \<and>
      (\<exists>sh\<in>set (stakeholders st). bmap_get (delegations st sh) (adr (c_pubkey c)) \<noteq> None) \<and>
      v = validator_new (\<Sum>sh\<leftarrow>stakeholders st. get_quantity (delegations st sh) (adr (c_pubkey c)))
        (c_deposit c) (c_pubkey c))"
proof -
  have "(\<exists>dlg. bmap_get (delegatees st) a = Some dlg \<and> P dlg) \<longleftrightarrow>
      (\<exists>sh\<in>set (stakeholders st). bmap_get (delegations st sh) a \<noteq> None) \<and>
      P (\<Sum>sh\<leftarrow>stakeholders st. get_quantity (delegations st sh) a)" for a P
    using delegatees_spec [OF assms, of a] by (auto simp: get_quantity_def split: option.splits)
  then show ?thesis unfolding eligible_def set_prepare_validators by simp
qed

text \<open>
  C14: who is elected. The eligible are the candidates with the minimum deposit that somebody
  delegates to, ordered by what is delegated to them in total (then by deposit); the elected are
  the highest of them, as many as reach the delegation threshold but never more than the
  maximum and, when there are enough eligible, never fewer than the minimum. No banned account
  is among them, and the election does not panic.
\<close>

theorem elect_takes_best:
  assumes "ledger_inv st" "roster_inv adr st" "min_num_of_validators p \<le> max_num_of_validators p"
  shows "(elect adr p st :: ('e, _) result) = Ok (drop (length (eligible adr p st) -
      seats (max_num_of_validators p) (min_num_of_validators p) (delegation_threshold p) (eligible adr p st))
      (eligible adr p st)) \<and>
    sorted (map (\<lambda>v. (v_delegation v, v_deposit v)) (eligible adr p st)) \<and>
    (\<forall>v. v \<in> set (eligible adr p st) \<longleftrightarrow> (\<exists>c\<in>set (candidates st). min_deposit p \<le> c_deposit c \<and>
      (\<exists>sh\<in>set (stakeholders st). bmap_get (delegations st sh) (adr (c_pubkey c)) \<noteq> None) \<and>
      v = validator_new (\<Sum>sh\<leftarrow>stakeholders st. get_quantity (delegations st sh) (adr (c_pubkey c)))
        (c_deposit c) (c_pubkey c))) \<and>
    (\<forall>v\<in>set (eligible adr p st). adr (v_pubkey v) \<notin> set (banned st))"
proof -
  have srt: "sorted (map (\<lambda>v. (v_delegation v, v_deposit v)) (eligible adr p st))"
    by (simp add: eligible_def prepare_validators_def)
  have "\<exists>c\<in>set (candidates st). v_pubkey v = c_pubkey c" if "v \<in> set (eligible adr p st)" for v
    using that unfolding set_eligible [OF assms(1)] by (auto simp: validator_new_def)
  then have nb: "\<forall>v\<in>set (eligible adr p st). adr (v_pubkey v) \<notin> set (banned st)"
    using roster_invD(6) [OF assms(2)] by fastforce
  then have "(elect adr p st :: ('e, _) result) = Ok (elect_from (max_num_of_validators p)
      (min_num_of_validators p) (delegation_threshold p) (eligible adr p st))"
    using assms(3) by (simp add: elect_def eligible_def Let_def list_all_iff is_banned_def)
  then show ?thesis
    using elect_from_eq [OF srt assms(3)] srt nb set_eligible [OF assms(1), of _ adr p] by simp
qed

section \<open>Weights\<close>

lemma saturating_sub_le: "saturating_sub a b \<le> a"
  by (simp add: saturating_sub_def word_sub_le)

text \<open>Everything but the weight of a validator.\<close>

definition without_weight :: "validator \<Rightarrow> validator" where
  "without_weight v = v\<lparr>v_weight := 0\<rparr>"

lemma weigh_spec:
  "map without_weight (weigh adr author mind vs) = map without_weight vs"
  "list_all2 (\<lambda>v w. v_weight w \<le> v_weight v) vs (weigh adr author mind vs)"
  by (induction vs) (auto simp: without_weight_def saturating_sub_le list_all2_refl)

definition weights_ok :: "validator list \<Rightarrow> bool" where
  "weights_ok vs \<longleftrightarrow> (\<forall>v\<in>set vs. v_weight v \<le> v_delegation v)"

lemma without_weight_simps [simp]:
  "v_delegation (without_weight v) = v_delegation v" "without_weight (validator_reset v) = without_weight v"
  by (simp_all add: without_weight_def validator_reset_def)

lemma delegations_without_weight:
  "map without_weight vs = map without_weight ws \<Longrightarrow> map v_delegation vs = map v_delegation ws"
proof -
  assume "map without_weight vs = map without_weight ws"
  then have "map (v_delegation \<circ> without_weight) vs = map (v_delegation \<circ> without_weight) ws"
    by (metis map_map)
  then show ?thesis by (simp add: o_def)
qed

lemma weigh_weights_ok: "weights_ok vs \<Longrightarrow> weights_ok (weigh adr author mind vs)"
proof (induction vs)
  case (Cons v vs)
  have "saturating_sub (v_weight v) x \<le> v_delegation v" for x
    using saturating_sub_le [of "v_weight v" x] Cons.prems order_trans by (auto simp: weights_ok_def)
  with Cons show ?case by (auto simp: weights_ok_def)
qed simp

text \<open>
  C15: after every block somebody can be chosen to author the next one. Updating the weights
  changes nothing but weights, leaves the validators in the order of their weights, keeps every
  weight within the validator's delegation, and, when anything is delegated at all, leaves some
  validator with a positive weight: when all weights are used up they are all reset.
\<close>

theorem update_weight_progress:
  assumes "weights_ok vs" "\<exists>v\<in>set vs. v_delegation v \<noteq> 0"
  shows "\<exists>vs'. (update_weight adr author vs :: ('e, _) result) = Ok vs' \<and>
    mset (map without_weight vs') = mset (map without_weight vs) \<and> sorted (map validator_key vs') \<and>
    weights_ok vs' \<and> (\<exists>v\<in>set vs'. v_weight v \<noteq> 0)"
proof -
  have ne: "vs \<noteq> []" using assms(2) by auto
  define mind where "mind = Min (set (map v_delegation vs))"
  define vs1 where "vs1 = rev (weigh adr author mind (rev vs))"
  define vs2 where "vs2 = (if list_all (\<lambda>v. v_weight v = 0) vs1 then map validator_reset vs1 else vs1)"
  have run: "(update_weight adr author vs :: ('e, _) result) = Ok (sort_key validator_key vs2)"
    using ne by (simp add: update_weight_def min_delegation_def mind_def vs1_def vs2_def Let_def)
  have same1: "map without_weight vs1 = map without_weight vs"
    using weigh_spec(1) [of adr author mind "rev vs"] by (simp add: vs1_def rev_map [symmetric])
  have same2: "map without_weight vs2 = map without_weight vs"
    using same1 by (simp add: vs2_def o_def)
  have "weights_ok vs1"
    using weigh_weights_ok [of "rev vs" adr author mind] assms(1) by (simp add: vs1_def weights_ok_def)
  then have ok: "weights_ok vs2" by (auto simp: vs2_def weights_ok_def validator_reset_def)
  have "\<exists>v\<in>set vs2. v_weight v \<noteq> 0"
  proof (cases "list_all (\<lambda>v. v_weight v = 0) vs1")
    case True
    have same_set: "set (map v_delegation vs1) = set (map v_delegation vs)"
      by (simp only: delegations_without_weight [OF same1])
    from assms(2) obtain v where "v \<in> set vs" "v_delegation v \<noteq> 0" by blast
    then have "v_delegation v \<in> set (map v_delegation vs1)" unfolding same_set by simp
    then have "\<exists>w\<in>set vs1. v_delegation w \<noteq> 0" using \<open>v_delegation v \<noteq> 0\<close> by auto
    then show ?thesis using True by (simp add: vs2_def validator_reset_def)
  next
    case False
    then show ?thesis by (auto simp: vs2_def list_all_iff)
  qed
  moreover have "image_mset without_weight (mset vs2) = image_mset without_weight (mset vs)"
    using arg_cong [OF same2, of mset] by simp
  ultimately show ?thesis using run ok
    by (intro exI [of _ "sort_key validator_key vs2"]) (simp add: weights_ok_def)
qed

section \<open>Changing the parameters\<close>

lemma get_stakes_spec:
  assumes "ledger_inv st"
  shows "bmap_inv (get_stakes st)"
    "bmap_get (get_stakes st) a = (if a \<in> set (stakeholders st) then Some (of_nat (holding st a)) else None)"
    "bmap_total (get_stakes st) = total_ccs st"
proof -
  let ?q = "\<lambda>a. ccs st a + delegation_sum (delegations st a)"
  have q: "?q a = of_nat (holding st a)" for a
  proof -
    have "bmap_total (delegations st a) < 2 ^ 64"
      using ledger_invD(6) [OF assms, of a] by (simp add: holding_def)
    then have "unat (delegation_sum (delegations st a)) = bmap_total (delegations st a)"
      by (simp add: delegation_sum_def bmap_sum_unat)
    then have "(of_nat (bmap_total (delegations st a)) :: u64) = of_nat (unat (delegation_sum (delegations st a)))"
      by (simp only:)
    then show ?thesis by (simp add: holding_def)
  qed
  let ?f = "\<lambda>res sh. bmap_insert sh (?q sh) res"
  have fold: "bmap_inv (foldl ?f res shs) \<and>
      (\<forall>a. bmap_get (foldl ?f res shs) a = (if a \<in> set shs then Some (?q a) else bmap_get res a))"
    if "bmap_inv res" for res shs
    using that by (induction shs arbitrary: res) auto
  show inv: "bmap_inv (get_stakes st)" using fold [of "[]" "stakeholders st"] by (simp add: get_stakes_def)
  show get: "bmap_get (get_stakes st) a = (if a \<in> set (stakeholders st) then Some (of_nat (holding st a)) else None)" for a
    using fold [of "[]" "stakeholders st"] by (simp add: get_stakes_def q)
  have keys: "set (map fst (get_stakes st)) = set (stakeholders st)"
    using get unfolding bmap_keys by (auto simp: dom_def)
  have "unat (of_nat (holding st a) :: u64) = holding st a" for a
    using ledger_invD(6) [OF assms, of a] by (simp add: unat_of_nat take_bit_nat_eq_self)
  then have "bmap_total (get_stakes st) = (\<Sum>a\<in>set (stakeholders st). holding st a)"
    unfolding bmap_total_as_sum [OF inv] keys by (intro sum.cong) (simp_all add: get)
  also have "\<dots> = total_ccs st"
    unfolding total_ccs_def using ledger_invD(4) [OF assms] by (intro sum.mono_neutral_left) auto
  finally show "bmap_total (get_stakes st) = total_ccs st" .
qed

definition signer :: "key_lib \<Rightarrow> h256 \<Rightarrow> signature \<Rightarrow> address" where
  "signer kl msg sig = public_to_address kl (the (recover kl sig msg))"

lemma sum_signed_spec:
  assumes "\<forall>sig\<in>set sigs. recover kl sig msg \<noteq> None"
  shows "sum_signed kl msg stakes sigs acc = Ok r \<longleftrightarrow>
    (\<forall>sig\<in>set sigs. bmap_get stakes (signer kl msg sig) \<noteq> None) \<and>
    r = acc + (\<Sum>sig\<leftarrow>sigs. the (bmap_get stakes (signer kl msg sig)))"
  using assms
proof (induction sigs arbitrary: acc)
  case Nil
  then show ?case by auto
next
  case (Cons sig sigs)
  then show ?case
    by (cases "recover kl sig msg"; cases "bmap_get stakes (signer kl msg sig)")
      (auto simp: signer_def Let_def add.assoc)
qed

text \<open>What decides a change of the parameters: the number of signed stakes, one count per
  signature.\<close>

lemma change_params_iff:
  fixes s :: "(stake_data, 'x) top_state_scheme"
  assumes "ledger_inv (action_data s)" "md s = Some m"
    and rec: "\<forall>sig\<in>set sigs. recover kl sig (enc mseq params) \<noteq> None"
    and small: "(\<Sum>sig\<leftarrow>sigs. holding (action_data s) (signer kl (enc mseq params) sig)) < 2 ^ 64"
  shows "change_params kl enc mseq params sigs s = (Ok (), t) \<longleftrightarrow>
    md_seq m = mseq \<and>
    (\<forall>sig\<in>set sigs. holding (action_data s) (signer kl (enc mseq params) sig) \<noteq> 0) \<and>
    total_ccs (action_data s) < 2 * (\<Sum>sig\<leftarrow>sigs. holding (action_data s) (signer kl (enc mseq params) sig)) \<and>
    t = s\<lparr>md := Some (m\<lparr>md_params := Some params, md_seq := md_seq m + 1\<rparr>)\<rparr>"
proof -
  let ?st = "action_data s" and ?sg = "signer kl (enc mseq params)"
  let ?s1 = "s\<lparr>md := Some (m\<lparr>md_params := Some params, md_seq := md_seq m + 1\<rparr>)\<rparr>"
  note gs = get_stakes_spec [OF assms(1)]
  have known: "bmap_get (get_stakes ?st) a \<noteq> None \<longleftrightarrow> holding ?st a \<noteq> 0" for a
    using gs(2) [of a] ledger_invD(4) [OF assms(1), of a] by simp
  let ?sum = "\<Sum>sig\<leftarrow>sigs. the (bmap_get (get_stakes ?st) (?sg sig))"
  have sum: "unat ?sum = (\<Sum>sig\<leftarrow>sigs. holding ?st (?sg sig))"
    if "\<forall>sig\<in>set sigs. holding ?st (?sg sig) \<noteq> 0"
  proof -
    have "unat (the (bmap_get (get_stakes ?st) (?sg sig))) = holding ?st (?sg sig)" if "sig \<in> set sigs" for sig
      using that \<open>\<forall>sig\<in>set sigs. holding ?st (?sg sig) \<noteq> 0\<close> gs(2) [of "?sg sig"]
        ledger_invD(4,6) [OF assms(1), of "?sg sig"] by (simp add: unat_of_nat take_bit_nat_eq_self)
    then have eq: "(\<Sum>sig\<leftarrow>sigs. unat (the (bmap_get (get_stakes ?st) (?sg sig)))) = (\<Sum>sig\<leftarrow>sigs. holding ?st (?sg sig))"
      by (simp cong: map_cong)
    then show ?thesis
      using unat_sum_list_le [of "map (\<lambda>sig. the (bmap_get (get_stakes ?st) (?sg sig))) sigs"] small eq
      by (simp add: o_def)
  qed
  have total: "unat (bmap_sum (get_stakes ?st)) = total_ccs ?st"
    using bmap_sum_unat [of "get_stakes ?st"] gs(3) ledger_invD(5) [OF assms(1)] by simp
  have maj: "bmap_sum (get_stakes ?st) div 2 \<ge> x \<longleftrightarrow> \<not> total_ccs ?st < 2 * unat x" for x
    using total by (auto simp: word_le_nat_alt unat_div)
  have upd: "update_params mseq params s = (if md_seq m = mseq then (Ok (), ?s1) else (Error (InvalidSeq (md_seq m) mseq), s))"
    using assms(2) by (simp add: update_params_def get_metadata_mut_def set_metadata_def sbind_apply
        metadata_increase_seq_def metadata_set_params_def)
  show ?thesis
  proof (cases "md_seq m = mseq \<and> (\<forall>sig\<in>set sigs. holding ?st (?sg sig) \<noteq> 0)")
    case True
    then have "sum_signed kl (enc mseq params) (get_stakes ?st) sigs 0 = Ok ?sum"
      using sum_signed_spec [OF rec, of "get_stakes ?st" 0 ?sum] known by simp
    with True show ?thesis
      by (auto simp: change_params_def sbind_apply upd maj sum)
  next
    case False
    have "sum_signed kl (enc mseq params) (get_stakes ?st) sigs 0 \<noteq> Ok r"
      if "\<not> (\<forall>sig\<in>set sigs. holding ?st (?sg sig) \<noteq> 0)" for r
      using sum_signed_spec [OF rec, of "get_stakes ?st" 0 r] known that by blast
    then show ?thesis using False
      by (auto simp: change_params_def sbind_apply upd split: sum.splits)
  qed
qed

lemma sum_holding_le:
  assumes "distinct as"
  shows "(\<Sum>a\<leftarrow>as. holding st a) \<le> total_ccs st"
  unfolding total_ccs_def sum_list_distinct_conv_sum_set [OF assms] by (rule sum_mono2) simp_all

text \<open>
  C16: signed once each, a change of the parameters needs stakeholders with a strict majority of
  all stake: it goes through exactly when it names the current sequence number of the metadata,
  every signer is a stakeholder and together the signers hold more than half of all CCS,
  delegated stake included. It then installs the parameters, counts up the sequence number and
  changes nothing else.
\<close>

theorem change_params_majority:
  fixes s :: "(stake_data, 'x) top_state_scheme"
  assumes "ledger_inv (action_data s)" "md s = Some m"
    and "\<forall>sig\<in>set sigs. recover kl sig (enc mseq params) \<noteq> None"
    and "distinct (map (signer kl (enc mseq params)) sigs)"
  shows "change_params kl enc mseq params sigs s = (Ok (), t) \<longleftrightarrow>
    md_seq m = mseq \<and>
    (\<forall>sig\<in>set sigs. holding (action_data s) (signer kl (enc mseq params) sig) \<noteq> 0) \<and>
    total_ccs (action_data s) < 2 * (\<Sum>sig\<leftarrow>sigs. holding (action_data s) (signer kl (enc mseq params) sig)) \<and>
    t = s\<lparr>md := Some (m\<lparr>md_params := Some params, md_seq := md_seq m + 1\<rparr>)\<rparr>"
proof (rule change_params_iff [where enc = enc, OF assms(1-3)])
  show "(\<Sum>sig\<leftarrow>sigs. holding (action_data s) (signer kl (enc mseq params) sig)) < 2 ^ 64"
    using sum_holding_le [OF assms(4), of "action_data s"] ledger_invD(5) [OF assms(1)] by (simp add: o_def)
qed

text \<open>
  C17: but a signature can be repeated, and is counted again each time. A single stakeholder with
  any positive stake, however small, passes a change of the parameters by repeating their
  signature often enough.
\<close>

theorem change_params_repeated_signature:
  fixes s :: "(stake_data, 'x) top_state_scheme"
  assumes "ledger_inv (action_data s)" "md s = Some m" "md_seq m = mseq"
    and "recover kl sig (enc mseq params) = Some pub" "holding (action_data s) (public_to_address kl pub) = q" "q \<noteq> 0"
    and "total_ccs (action_data s) < 2 * (k * q)" "k * q < 2 ^ 64"
  shows "\<exists>t. change_params kl enc mseq params (replicate k sig) s = (Ok (), t) \<and>
    (\<exists>m'. md t = Some m' \<and> md_params m' = Some params)"
proof -
  have sg: "signer kl (enc mseq params) sig = public_to_address kl pub"
    using assms(4) by (simp add: signer_def)
  have sum: "(\<Sum>sig\<leftarrow>replicate k sig. holding (action_data s) (signer kl (enc mseq params) sig)) = k * q"
    using assms(5) by (simp add: sg map_replicate sum_list_replicate)
  have rec: "\<forall>sig\<in>set (replicate k sig). recover kl sig (enc mseq params) \<noteq> None"
    using assms(4) by simp
  show ?thesis
    using change_params_iff [where enc = enc, OF assms(1,2) rec] sum sg assms(3,5-8) by simp
qed

section \<open>Witnesses\<close>

definition sample_holders :: stake_data where
  "sample_holders = sample_stake\<lparr>ccs := (\<lambda>_. 0)(1 := 10, 2 := 50), stakeholders := [1, 2],
     delegations := (\<lambda>_. [])(2 := [(5, 40)])\<rparr>"

lemma sample_holding: "holding sample_holders a = (if a = 1 then 10 else if a = 2 then 90 else 0)"
  by (simp add: holding_def sample_holders_def)

lemma sample_holders_inv: "ledger_inv sample_holders" "total_ccs sample_holders = 100"
proof -
  have "total_ccs sample_holders = (\<Sum>a\<in>{1, 2}. holding sample_holders a)"
    unfolding total_ccs_def by (rule sum.mono_neutral_right) (auto simp: sample_holding)
  then show tot: "total_ccs sample_holders = 100" by (simp add: sample_holding)
  have "bmap_inv (delegations sample_holders a)" "bmap_get (delegations sample_holders a) k \<noteq> Some 0" for a k
    by (simp_all add: sample_holders_def bmap_inv_def bmap_get_def)
  then show "ledger_inv sample_holders"
    unfolding ledger_inv_def tot sample_holding
    by (simp add: sample_holders_def bset_inv_def)
qed

lemma sample_holders_roster: "roster_inv ucast sample_holders"
  by (simp add: roster_inv_def sample_holders_def sample_stake_def)

definition sample_holders_top :: "stake_data top_state" where
  "sample_holders_top = sample_stake_top\<lparr>action_data := sample_holders\<rparr>"

lemma sample_holders_top_simps:
  "action_data sample_holders_top = sample_holders" "md sample_holders_top = Some (metadata_new 1)"
  by (simp_all add: sample_holders_top_def sample_stake_top_def)

theorem elect_takes_best_witness:
  "(elect ucast sample_params sample_holders :: (state_error, _) result) =
     Ok (drop (length (eligible ucast sample_params sample_holders) - seats 30 4 10 (eligible ucast sample_params sample_holders))
       (eligible ucast sample_params sample_holders)) \<and>
   validator_new 40 50 5 \<in> set (eligible ucast sample_params sample_holders)"
proof -
  have p: "min_num_of_validators sample_params \<le> max_num_of_validators sample_params"
    "min_num_of_validators sample_params = 4" "max_num_of_validators sample_params = 30"
    "delegation_threshold sample_params = 10" "min_deposit sample_params = 20"
    by (simp_all add: sample_params_def)
  have el: "validator_new 40 50 5 \<in> set (eligible ucast sample_params sample_holders)"
    unfolding set_eligible [OF sample_holders_inv(1)]
    by (simp add: sample_holders_def sample_stake_def p(5) bmap_get_def get_quantity_def)
  from elect_takes_best [OF sample_holders_inv(1) sample_holders_roster p(1), where 'e = state_error] el show ?thesis
    by (simp add: p(2-4))
qed

theorem update_weight_progress_witness:
  "\<exists>vs'. (update_weight ucast 5 [validator_new 40 50 5] :: (state_error, _) result) = Ok vs' \<and>
     mset (map without_weight vs') = {#without_weight (validator_new 40 50 5)#} \<and> (\<exists>v\<in>set vs'. v_weight v \<noteq> 0)"
proof -
  have "weights_ok [validator_new 40 50 5]" "\<exists>v\<in>set [validator_new 40 50 5]. v_delegation v \<noteq> 0"
    by (simp_all add: weights_ok_def validator_new_def)
  from update_weight_progress [OF this, of ucast 5, where 'e = state_error] show ?thesis by auto
qed

lemma sample_signer: "signer sample_keys 0 sig = ucast (ucast sig :: public)" "recover sample_keys sig 0 \<noteq> None"
  by (simp_all add: signer_def sample_keys_def)

theorem change_params_majority_witness:
  "\<exists>t. change_params sample_keys (\<lambda>_ _. 0) 0 sample_params [2] sample_holders_top = (Ok (), t)"
proof -
  let ?t = "sample_holders_top\<lparr>md := Some ((metadata_new 1)\<lparr>md_params := Some sample_params, md_seq := md_seq (metadata_new 1) + 1\<rparr>)\<rparr>"
  have "change_params sample_keys (\<lambda>_ _. 0) 0 sample_params [2] sample_holders_top = (Ok (), ?t) \<longleftrightarrow>
    md_seq (metadata_new 1) = 0 \<and>
    (\<forall>sig\<in>set [2]. holding (action_data sample_holders_top) (signer sample_keys 0 sig) \<noteq> 0) \<and>
    total_ccs (action_data sample_holders_top) <
      2 * (\<Sum>sig\<leftarrow>[2]. holding (action_data sample_holders_top) (signer sample_keys 0 sig)) \<and> ?t = ?t"
    by (rule change_params_majority)
      (simp_all add: sample_holders_top_simps sample_holders_inv sample_signer)
  then show ?thesis
    by (auto simp: sample_holders_top_simps sample_holders_inv sample_signer sample_holding metadata_new_def)
qed

theorem change_params_repeated_signature_witness:
  "\<exists>t. change_params sample_keys (\<lambda>_ _. 0) 0 sample_params (replicate 6 1) sample_holders_top = (Ok (), t) \<and>
    (\<exists>m'. md t = Some m' \<and> md_params m' = Some sample_params)"
  by (rule change_params_repeated_signature [where m = "metadata_new 1" and pub = 1 and q = 10])
    (simp_all add: sample_holders_top_simps sample_holders_inv sample_holding metadata_new_def sample_keys_def)

end
