(* ===== verification/Tx_Syntax.thy ===== *)
theory Tx_Syntax
  imports Tx_Types State_Items BTree_Collections "HOL-Library.Product_Lexorder"
begin

text \<open>
  The syntactic checks a transaction has to pass before it is executed
  (\<open>Action::verify\<close>, \<open>verify_with_params\<close> and \<open>verify_with_signer_address\<close> in
  \<open>types/src/transaction/action.rs\<close>) and the orders of a transfer
  (\<open>types/src/transaction/order.rs\<close>).

  The hash maps of the source are the sorted maps of \<open>BTree_Collections\<close>: no check depends on
  their iteration order. The hash of an order and the recovery of a signer are parameters.
  Quantities of an order are added up in \<open>u64\<close> and wrap; the balance of a transfer is
  computed in \<open>u128\<close>.
\<close>

section \<open>Errors\<close>

datatype syntax_error =
    DuplicatedPreviousOutput h256 nat
  | EmptyInput
  | EmptyOutput
  | EmptyShardOwners shard_id
  | InconsistentTransactionInOut
  | InconsistentTransactionInOutWithOrders
  | InsufficientFee u64 u64
  | InvalidAssetType h160
  | InvalidComposedOutputAmount u64
  | InvalidCustomAction string
  | InvalidDecomposedInputAmount h160 shard_id u64
  | InvalidNetworkId network_id
  | InvalidOrderAssetQuantities u64 u64 u64
  | InvalidOrderAssetTypes
  | InvalidAssetTypesWithOrder string nat
  | InvalidAssetOwnerWithOrder string nat
  | InvalidOrderInOutIndices
  | InvalidOrderLockScriptHash h160
  | InvalidOrderParameters "bytes list"
  | SyntaxInvalidOriginOutputs h256
  | InvalidApproval string
  | MetadataTooBig
  | OrderRecipientsAreSame
  | TextContentTooBig
  | TooManyOutputs nat
  | TransactionIsTooBig
  | ZeroQuantity
  | CannotChangeWcccAssetScheme
  | DisabledTransaction
  | InvalidSignerOfWrapCCC
  | InvalidSpentQuantity u64 u64

section \<open>Orders\<close>

definition order_verify :: "(asset_order \<Rightarrow> h256) \<Rightarrow> asset_order \<Rightarrow> (syntax_error, unit) result" where
  "order_verify order_hash ord =
     (if asset_type_from ord = asset_type_to ord \<and> shard_id_from ord = shard_id_to ord
      then Error InvalidOrderAssetTypes
      else if (asset_quantity_from ord = 0) \<noteq> (asset_quantity_to ord = 0)
      then Error (InvalidOrderAssetQuantities (asset_quantity_from ord) (asset_quantity_to ord) (asset_quantity_fee ord))
      else if asset_quantity_from ord = 0 \<and> asset_quantity_fee ord \<noteq> 0 \<or>
        asset_quantity_from ord \<noteq> 0 \<and> asset_quantity_fee ord mod asset_quantity_from ord \<noteq> 0
      then Error (InvalidOrderAssetQuantities (asset_quantity_from ord) (asset_quantity_to ord) (asset_quantity_fee ord))
      else if asset_quantity_fee ord \<noteq> 0 \<and> lock_script_hash_fee ord = lock_script_hash_from ord \<and>
        parameters_fee ord = parameters_from ord
      then Error OrderRecipientsAreSame
      else if origin_outputs ord = [] then Error (SyntaxInvalidOriginOutputs (order_hash ord))
      else if list_ex (\<lambda>o'. (op_asset_type o' \<noteq> asset_type_from ord \<or> op_shard_id o' \<noteq> shard_id_from ord) \<and>
          (op_asset_type o' \<noteq> asset_type_fee ord \<or> op_shard_id o' \<noteq> shard_id_fee ord)) (origin_outputs ord)
      then Error (SyntaxInvalidOriginOutputs (order_hash ord))
      else Ok ())"

definition check_transfer_output :: "asset_order \<Rightarrow> asset_transfer_output \<Rightarrow> (syntax_error, bool) result" where
  "check_transfer_output ord out =
     (if asset_quantity_fee ord \<noteq> 0 \<and> asset_type_fee ord = out_asset_type out \<and>
        shard_id_fee ord = out_shard_id out \<and> lock_script_hash_fee ord = out_lock_script_hash out \<and>
        parameters_fee ord = out_parameters out
      then Ok False
      else if lock_script_hash_from ord \<noteq> out_lock_script_hash out
      then Error (InvalidOrderLockScriptHash (lock_script_hash_from ord))
      else if parameters_from ord \<noteq> out_parameters out
      then Error (InvalidOrderParameters (parameters_from ord))
      else Ok True)"

text \<open>\<open>quantity * part / from\<close> in \<open>u128\<close>, cut to \<open>u64\<close>; a division by zero panics.\<close>

definition proportional :: "u64 \<Rightarrow> u64 \<Rightarrow> u64 \<Rightarrow> ('e, u64) result" where
  "proportional quantity part from' =
     (if from' = 0 then Panics ''attempt to divide by zero''
      else Ok (ucast ((ucast quantity * ucast part :: u128) div ucast from')))"

definition order_consume :: "u64 \<Rightarrow> asset_order \<Rightarrow> ('e, asset_order) result" where
  "order_consume quantity ord =
     rbind (proportional quantity (asset_quantity_to ord) (asset_quantity_from ord)) (\<lambda>to'.
     rbind (proportional quantity (asset_quantity_fee ord) (asset_quantity_from ord)) (\<lambda>fee'.
     Ok (ord\<lparr>asset_quantity_from := asset_quantity_from ord - quantity,
             asset_quantity_to := asset_quantity_to ord - to',
             asset_quantity_fee := asset_quantity_fee ord - fee'\<rparr>)))"

section \<open>Inputs and outputs\<close>

type_synonym shard_asset = "h160 \<times> shard_id"

abbreviation input_asset :: "asset_transfer_input \<Rightarrow> shard_asset" where
  "input_asset i \<equiv> (op_asset_type (in_prev_out i), op_shard_id (in_prev_out i))"

abbreviation input_quantity :: "asset_transfer_input \<Rightarrow> u64" where
  "input_quantity i \<equiv> op_quantity (in_prev_out i)"

abbreviation output_asset :: "asset_transfer_output \<Rightarrow> shard_asset" where
  "output_asset out \<equiv> (out_asset_type out, out_shard_id out)"

definition add_input :: "(shard_asset, u128) btree_map \<Rightarrow> asset_transfer_input \<Rightarrow> (shard_asset, u128) btree_map" where
  "add_input bal i = bmap_insert (input_asset i)
     ((case bmap_get bal (input_asset i) of None \<Rightarrow> 0 | Some q \<Rightarrow> q) + ucast (input_quantity i)) bal"

text \<open>The loop over the outputs; \<open>None\<close> is its \<open>return false\<close>.\<close>

fun subtract_outputs :: "asset_transfer_output list \<Rightarrow> (shard_asset, u128) btree_map \<Rightarrow>
    (shard_asset, u128) btree_map option" where
  "subtract_outputs [] bal = Some bal"
| "subtract_outputs (out # outs) bal = (case bmap_get bal (output_asset out) of
     None \<Rightarrow> None
   | Some current \<Rightarrow>
       if current < ucast (out_quantity out) then None
       else subtract_outputs outs (bmap_insert (output_asset out) (current - ucast (out_quantity out)) bal))"

definition is_input_and_output_consistent :: "asset_transfer_input list \<Rightarrow> asset_transfer_output list \<Rightarrow> bool" where
  "is_input_and_output_consistent inputs outputs =
     (case subtract_outputs outputs (foldl add_input [] inputs) of
        None \<Rightarrow> False
      | Some bal \<Rightarrow> list_all (\<lambda>(_, q). q = 0) bal)"

fun check_duplication_loop :: "asset_transfer_input list \<Rightarrow> (h256 \<times> nat) set \<Rightarrow> (syntax_error, unit) result" where
  "check_duplication_loop [] seen = Ok ()"
| "check_duplication_loop (i # is) seen =
     (let prev_out = (op_tracker (in_prev_out i), op_index (in_prev_out i)) in
      if prev_out \<in> seen then Error (DuplicatedPreviousOutput (fst prev_out) (snd prev_out))
      else check_duplication_loop is (insert prev_out seen))"

definition check_duplication_in_prev_out :: "asset_transfer_input list \<Rightarrow> asset_transfer_input list \<Rightarrow>
    (syntax_error, unit) result" where
  "check_duplication_in_prev_out burns inputs = check_duplication_loop (inputs @ burns) {}"

fun check_indices :: "nat list \<Rightarrow> bool list \<Rightarrow> (syntax_error, bool list) result" where
  "check_indices [] check = Ok check"
| "check_indices (idx # idxs) check =
     (if idx \<ge> length check \<or> check ! idx then Error InvalidOrderInOutIndices
      else check_indices idxs (check[idx := True]))"

definition order_inputs :: "order_on_transfer \<Rightarrow> nat list" where
  "order_inputs ot = input_from_indices ot @ input_fee_indices ot"

definition order_outputs :: "order_on_transfer \<Rightarrow> nat list" where
  "order_outputs ot = output_from_indices ot @ output_to_indices ot @ output_owned_fee_indices ot @
     output_transferred_fee_indices ot"

fun order_indices_loop :: "order_on_transfer list \<Rightarrow> bool list \<Rightarrow> bool list \<Rightarrow> (syntax_error, unit) result" where
  "order_indices_loop [] input_check output_check = Ok ()"
| "order_indices_loop (ot # ots) input_check output_check =
     rbind (check_indices (order_inputs ot) input_check) (\<lambda>input_check'.
     rbind (check_indices (order_outputs ot) output_check) (\<lambda>output_check'.
     order_indices_loop ots input_check' output_check'))"

definition verify_order_indices :: "order_on_transfer list \<Rightarrow> nat \<Rightarrow> nat \<Rightarrow> (syntax_error, unit) result" where
  "verify_order_indices orders input_len output_len =
     order_indices_loop orders (replicate input_len False) (replicate output_len False)"

section \<open>Transfers with orders\<close>

definition at :: "'a list \<Rightarrow> nat \<Rightarrow> ('e, 'a) result" where
  "at xs i = (if i < length xs then Ok (xs ! i) else Panics ''index out of bounds'')"

fun sum_order_inputs :: "string \<Rightarrow> shard_asset \<Rightarrow> asset_transfer_input list \<Rightarrow> nat list \<Rightarrow> u64 \<Rightarrow>
    (syntax_error, u64) result" where
  "sum_order_inputs nm asset inputs [] acc = Ok acc"
| "sum_order_inputs nm asset inputs (idx # idxs) acc =
     rbind (at inputs idx) (\<lambda>i.
     if input_asset i = asset then sum_order_inputs nm asset inputs idxs (acc + input_quantity i)
     else Error (InvalidAssetTypesWithOrder nm idx))"

text \<open>The outputs of one list of indices: all owned by the maker (\<open>maker\<close>) or all not.\<close>

fun sum_order_outputs :: "asset_order \<Rightarrow> bool \<Rightarrow> string \<Rightarrow> shard_asset \<Rightarrow> asset_transfer_output list \<Rightarrow>
    nat list \<Rightarrow> u64 \<Rightarrow> (syntax_error, u64) result" where
  "sum_order_outputs ord maker nm asset outputs [] acc = Ok acc"
| "sum_order_outputs ord maker nm asset outputs (idx # idxs) acc =
     rbind (at outputs idx) (\<lambda>out.
     rbind (check_transfer_output ord out) (\<lambda>owned_by_maker.
     if owned_by_maker \<noteq> maker then Error (InvalidAssetOwnerWithOrder nm idx)
     else if output_asset out = asset
     then sum_order_outputs ord maker nm asset outputs idxs (acc + out_quantity out)
     else Error (InvalidAssetTypesWithOrder nm idx)))"

definition is_ratio_equal :: "u64 \<Rightarrow> u64 \<Rightarrow> u64 \<Rightarrow> u64 \<Rightarrow> bool" where
  "is_ratio_equal from' fee spent fee_given \<longleftrightarrow>
     (ucast from' * ucast fee_given :: u128) = ucast fee * ucast spent"

definition is_ratio_greater_or_equal :: "u64 \<Rightarrow> u64 \<Rightarrow> u64 \<Rightarrow> u64 \<Rightarrow> bool" where
  "is_ratio_greater_or_equal from' to spent output \<longleftrightarrow>
     (ucast from' * ucast output :: u128) \<ge> ucast to * ucast spent"

definition verify_one_order :: "asset_transfer_input list \<Rightarrow> asset_transfer_output list \<Rightarrow>
    order_on_transfer \<Rightarrow> (syntax_error, unit) result" where
  "verify_one_order inputs outputs ot =
     (let ord = ot_order ot;
          asset_from = (asset_type_from ord, shard_id_from ord);
          asset_to = (asset_type_to ord, shard_id_to ord);
          asset_fee = (asset_type_fee ord, shard_id_fee ord) in
      if spent_quantity ot > asset_quantity_from ord
      then Error (InvalidSpentQuantity (asset_quantity_from ord) (spent_quantity ot))
      else
      rbind (sum_order_inputs ''INPUT FROM'' asset_from inputs (input_from_indices ot) 0) (\<lambda>in_from.
      rbind (sum_order_inputs ''INPUT FEE'' asset_fee inputs (input_fee_indices ot) 0) (\<lambda>in_fee.
      rbind (sum_order_outputs ord True ''OUTPUT FROM'' asset_from outputs (output_from_indices ot) 0) (\<lambda>out_from.
      rbind (sum_order_outputs ord True ''OUTPUT TO'' asset_to outputs (output_to_indices ot) 0) (\<lambda>out_to.
      rbind (sum_order_outputs ord True ''OUTPUT OWNED FEE'' asset_fee outputs (output_owned_fee_indices ot) 0) (\<lambda>fee_remaining.
      rbind (sum_order_outputs ord False ''OUTPUT TRANSFERRED FEE'' asset_fee outputs
              (output_transferred_fee_indices ot) 0) (\<lambda>fee_given.
      if in_from \<le> out_from \<or> in_from - out_from \<noteq> spent_quantity ot
      then Error InconsistentTransactionInOutWithOrders
      else if \<not> is_ratio_greater_or_equal (asset_quantity_from ord) (asset_quantity_to ord) (spent_quantity ot) out_to
      then Error InconsistentTransactionInOutWithOrders
      else if in_fee < fee_remaining \<or> in_fee - fee_remaining \<noteq> fee_given \<or>
        \<not> is_ratio_equal (asset_quantity_from ord) (asset_quantity_fee ord) (spent_quantity ot) fee_given
      then Error InconsistentTransactionInOutWithOrders
      else Ok ())))))))"

fun rforeach :: "('a \<Rightarrow> ('e, unit) result) \<Rightarrow> 'a list \<Rightarrow> ('e, unit) result" where
  "rforeach f [] = Ok ()"
| "rforeach f (x # xs) = rbind (f x) (\<lambda>_. rforeach f xs)"

definition verify_input_and_output_consistent_with_order :: "order_on_transfer list \<Rightarrow>
    asset_transfer_input list \<Rightarrow> asset_transfer_output list \<Rightarrow> (syntax_error, unit) result" where
  "verify_input_and_output_consistent_with_order orders inputs outputs =
     rforeach (verify_one_order inputs outputs) orders"

section \<open>Actions\<close>

definition verify_transfer :: "(asset_order \<Rightarrow> h256) \<Rightarrow> asset_transfer_input list \<Rightarrow>
    asset_transfer_input list \<Rightarrow> asset_transfer_output list \<Rightarrow> order_on_transfer list \<Rightarrow>
    (syntax_error, unit) result" where
  "verify_transfer order_hash burns inputs outputs orders =
     (if length outputs > 512 then Error (TooManyOutputs (length outputs))
      else if \<not> is_input_and_output_consistent inputs outputs then Error InconsistentTransactionInOut
      else if list_ex (\<lambda>i. input_quantity i = 0) burns then Error ZeroQuantity
      else if list_ex (\<lambda>i. input_quantity i = 0) inputs then Error ZeroQuantity
      else rbind (check_duplication_in_prev_out burns inputs) (\<lambda>_.
        if list_ex (\<lambda>out. out_quantity out = 0) outputs then Error ZeroQuantity
        else rbind (rforeach (\<lambda>ot. order_verify order_hash (ot_order ot)) orders) (\<lambda>_.
          rbind (verify_order_indices orders (length inputs) (length outputs)) (\<lambda>_.
          verify_input_and_output_consistent_with_order orders inputs outputs))))"

text \<open>The composition and decomposition of assets are disabled: their remaining checks are not
  reached.\<close>

fun action_verify :: "(asset_order \<Rightarrow> h256) \<Rightarrow> action \<Rightarrow> (syntax_error, unit) result" where
  "action_verify oh (MintAsset _ _ _ _ _ _ output _) =
     (if mo_supply output = 0 then Error ZeroQuantity else Ok ())"
| "action_verify oh (TransferAsset _ burns inputs outputs orders _ _ _) =
     verify_transfer oh burns inputs outputs orders"
| "action_verify oh (ChangeAssetScheme _ _ asset_type _ _ _ _ _ _) =
     (if asset_type = 0 then Error CannotChangeWcccAssetScheme else Ok ())"
| "action_verify oh (IncreaseAssetSupply _ _ asset_type _ output _) =
     (if mo_supply output = 0 then Error ZeroQuantity
      else if asset_type = 0 then Error CannotChangeWcccAssetScheme else Ok ())"
| "action_verify oh (ComposeAsset _ _ _ _ _ _ inputs output _) =
     (if True then Error DisabledTransaction
      else if inputs = [] then Error EmptyInput
      else if list_ex (\<lambda>i. input_quantity i = 0) inputs then Error ZeroQuantity
      else rbind (check_duplication_in_prev_out [] inputs) (\<lambda>_.
        if mo_supply output \<noteq> 1 then Error (InvalidComposedOutputAmount (mo_supply output)) else Ok ()))"
| "action_verify oh (DecomposeAsset _ input outputs _) =
     (if True then Error DisabledTransaction
      else if input_quantity input \<noteq> 1
      then Error (InvalidDecomposedInputAmount (op_asset_type (in_prev_out input)) (op_shard_id (in_prev_out input))
             (input_quantity input))
      else if outputs = [] then Error EmptyOutput
      else if list_ex (\<lambda>out. out_quantity out = 0) outputs then Error ZeroQuantity else Ok ())"
| "action_verify oh (UnwrapCCC _ burn _) =
     (if input_quantity burn = 0 then Error ZeroQuantity
      else if op_asset_type (in_prev_out burn) \<noteq> 0 then Error (InvalidAssetType (op_asset_type (in_prev_out burn)))
      else Ok ())"
| "action_verify oh (WrapCCC _ _ _ quantity _) = (if quantity = 0 then Error ZeroQuantity else Ok ())"
| "action_verify oh _ = Ok ()"

fun action_network_id :: "action \<Rightarrow> network_id option" where
  "action_network_id (MintAsset n _ _ _ _ _ _ _) = Some n"
| "action_network_id (TransferAsset n _ _ _ _ _ _ _) = Some n"
| "action_network_id (ChangeAssetScheme n _ _ _ _ _ _ _ _) = Some n"
| "action_network_id (IncreaseAssetSupply n _ _ _ _ _) = Some n"
| "action_network_id (ComposeAsset n _ _ _ _ _ _ _ _) = Some n"
| "action_network_id (DecomposeAsset n _ _ _) = Some n"
| "action_network_id (UnwrapCCC n _ _) = Some n"
| "action_network_id _ = None"

fun action_approvals :: "action \<Rightarrow> signature list option" where
  "action_approvals (MintAsset _ _ _ _ _ _ _ approvals) = Some approvals"
| "action_approvals (TransferAsset _ _ _ _ _ _ approvals _) = Some approvals"
| "action_approvals (ChangeAssetScheme _ _ _ _ _ _ _ _ approvals) = Some approvals"
| "action_approvals (IncreaseAssetSupply _ _ _ _ _ approvals) = Some approvals"
| "action_approvals (ComposeAsset _ _ _ _ _ _ _ _ approvals) = Some approvals"
| "action_approvals (DecomposeAsset _ _ _ approvals) = Some approvals"
| "action_approvals _ = None"

fun verify_sizes :: "common_params \<Rightarrow> bool \<Rightarrow> action \<Rightarrow> (syntax_error, unit) result" where
  "verify_sizes p od (MintAsset _ _ metadata _ _ _ _ _) =
     (if length metadata > max_asset_scheme_metadata_size p then Error MetadataTooBig else Ok ())"
| "verify_sizes p od (TransferAsset _ _ _ _ orders metadata _ _) =
     (if length metadata > max_transfer_metadata_size p then Error MetadataTooBig
      else if od \<and> orders \<noteq> [] then Error DisabledTransaction else Ok ())"
| "verify_sizes p od (ChangeAssetScheme _ _ _ _ metadata _ _ _ _) =
     (if length metadata > max_asset_scheme_metadata_size p then Error MetadataTooBig else Ok ())"
| "verify_sizes p od (ComposeAsset _ _ metadata _ _ _ _ _ _) =
     (if length metadata > max_asset_scheme_metadata_size p then Error MetadataTooBig else Ok ())"
| "verify_sizes p od (Store content _ _) =
     (if length content > max_text_content_size p then Error TextContentTooBig else Ok ())"
| "verify_sizes p od _ = Ok ()"

definition verify_with_params :: "common_params \<Rightarrow> bool \<Rightarrow> action \<Rightarrow> (syntax_error, unit) result" where
  "verify_with_params p is_order_disabled a =
     rbind (case action_network_id a of
        Some n \<Rightarrow> if n \<noteq> params_network_id p then Error (InvalidNetworkId n) else Ok ()
      | None \<Rightarrow> Ok ()) (\<lambda>_. verify_sizes p is_order_disabled a)"

text \<open>\<open>recover sig msg\<close> is \<open>None\<close> for a signature the library cannot recover a key from;
  \<open>tracker\<close> is the hash of the shard transaction of the action.\<close>

definition verify_with_signer_address :: "(shard_transaction \<Rightarrow> h256) \<Rightarrow> (signature \<Rightarrow> h256 \<Rightarrow> public option) \<Rightarrow>
    address \<Rightarrow> action \<Rightarrow> (syntax_error, unit) result" where
  "verify_with_signer_address blake_rlp recover_key signer a =
     rbind (case a of
        WrapCCC _ _ _ _ payer \<Rightarrow> if payer \<noteq> signer then Error InvalidSignerOfWrapCCC else Ok ()
      | _ \<Rightarrow> Ok ()) (\<lambda>_.
     case action_approvals a of
       None \<Rightarrow> Ok ()
     | Some approvals \<Rightarrow>
         rbind (expect ''called Option::unwrap() on a None value''
                  (map_option (shard_tracker blake_rlp) (asset_transaction a))) (\<lambda>tracker.
         rforeach (\<lambda>approval. case recover_key approval tracker of
             None \<Rightarrow> Error (InvalidApproval ''cannot recover'') | Some _ \<Rightarrow> Ok ()) approvals))"

end
