(* ===== verification/Tx_Verified.thy ===== *)
theory Tx_Verified
  imports Tx_Syntax
begin

text \<open>
  What the syntactic checks guarantee: a transfer that passes them neither creates nor destroys
  assets, spends no output twice, and its orders give the maker at least the price asked for;
  no check panics.
\<close>

section \<open>Inputs against outputs\<close>

definition in_total :: "asset_transfer_input list \<Rightarrow> shard_asset \<Rightarrow> nat" where
  "in_total is k = (\<Sum>i\<leftarrow>filter (\<lambda>i. input_asset i = k) is. unat (input_quantity i))"

definition out_total :: "asset_transfer_output list \<Rightarrow> shard_asset \<Rightarrow> nat" where
  "out_total outs k = (\<Sum>out\<leftarrow>filter (\<lambda>out. output_asset out = k) outs. unat (out_quantity out))"

lemma in_total_simps [simp]:
  "in_total [] k = 0"
  "in_total (i # is) k = (if input_asset i = k then unat (input_quantity i) else 0) + in_total is k"
  "in_total (is @ js) k = in_total is k + in_total js k"
  by (simp_all add: in_total_def)

lemma out_total_simps [simp]:
  "out_total [] k = 0"
  "out_total (out # outs) k = (if output_asset out = k then unat (out_quantity out) else 0) + out_total outs k"
  by (simp_all add: out_total_def)

lemma in_total_less: "length is < 2 ^ 64 \<Longrightarrow> in_total is k < 2 ^ 128"
proof -
  have "in_total is k \<le> length is * (2 ^ 64 - 1)"
  proof (induction "is")
    case (Cons i "is")
    have "unat (input_quantity i) \<le> 2 ^ 64 - 1" using unat_u64_less [of "input_quantity i"] by simp
    with Cons show ?case by simp
  qed simp
  also assume "length is < 2 ^ 64"
  then have "length is * (2 ^ 64 - 1) \<le> (2 ^ 64 - 1) * (2 ^ 64 - 1)" by (intro mult_le_mono1) simp
  finally show ?thesis by simp
qed

definition held :: "(shard_asset, u128) btree_map \<Rightarrow> shard_asset \<Rightarrow> nat" where
  "held m k = (case bmap_get m k of None \<Rightarrow> 0 | Some q \<Rightarrow> unat q)"

lemma held_insert: "bmap_inv m \<Longrightarrow> held (bmap_insert k q m) = (held m)(k := unat q)"
  by (auto simp: held_def fun_eq_iff)

lemma unat_ucast_u128 [simp]: "unat (ucast (q :: u64) :: u128) = unat q"
  using unat_u64_less [of q] by (simp add: unsigned_ucast_eq take_bit_nat_eq_self)

lemma add_inputs_spec:
  assumes "length is < 2 ^ 64"
  shows "bmap_inv (foldl add_input [] is) \<and> held (foldl add_input [] is) = in_total is \<and>
    (\<forall>k. bmap_get (foldl add_input [] is) k \<noteq> None \<longleftrightarrow> k \<in> input_asset ` set is)"
  using assms
proof (induction "is" rule: rev_induct)
  case Nil
  then show ?case by (simp add: held_def fun_eq_iff)
next
  case (snoc i "is")
  let ?m = "foldl add_input [] is" and ?k = "input_asset i"
  have IH: "bmap_inv ?m" "held ?m = in_total is" "\<And>k. bmap_get ?m k \<noteq> None \<longleftrightarrow> k \<in> input_asset ` set is"
    using snoc by auto
  let ?old = "case bmap_get ?m ?k of None \<Rightarrow> 0 | Some q \<Rightarrow> q"
  have old: "unat ?old = in_total is ?k"
    using fun_cong [OF IH(2), of ?k] by (simp add: held_def split: option.splits)
  have "in_total (is @ [i]) ?k < 2 ^ 128" using snoc.prems by (rule in_total_less)
  then have "unat (?old + ucast (input_quantity i)) = in_total is ?k + unat (input_quantity i)"
    by (simp add: unat_word_ariths old)
  then have "held (add_input ?m i) = in_total (is @ [i])"
    using IH(1,2) by (auto simp: add_input_def held_insert fun_eq_iff)
  moreover have "bmap_inv (add_input ?m i)" using IH(1) by (simp add: add_input_def)
  moreover have "bmap_get (add_input ?m i) k \<noteq> None \<longleftrightarrow> k \<in> input_asset ` set (is @ [i])" for k
    using IH(1) IH(3) [of k] by (auto simp: add_input_def)
  ultimately show ?case by simp
qed

lemma subtract_outputs_spec:
  assumes "bmap_inv m"
  shows "case subtract_outputs outs m of
      None \<Rightarrow> \<not> ((\<forall>out\<in>set outs. bmap_get m (output_asset out) \<noteq> None) \<and> (\<forall>k. out_total outs k \<le> held m k))
    | Some m' \<Rightarrow> (\<forall>out\<in>set outs. bmap_get m (output_asset out) \<noteq> None) \<and> (\<forall>k. out_total outs k \<le> held m k) \<and>
        bmap_inv m' \<and> (\<forall>k. held m' k = held m k - out_total outs k)"
  using assms
proof (induction outs arbitrary: m)
  case Nil
  then show ?case by simp
next
  case (Cons out outs)
  let ?k = "output_asset out"
  show ?case
  proof (cases "bmap_get m ?k")
    case None
    then show ?thesis by simp
  next
    case (Some current)
    show ?thesis
    proof (cases "current < ucast (out_quantity out)")
      case True
      then have "held m ?k < unat (out_quantity out)"
        using Some by (simp add: held_def word_less_nat_alt)
      then have "\<not> out_total (out # outs) ?k \<le> held m ?k" by simp
      then show ?thesis using True Some by auto
    next
      case False
      let ?m = "bmap_insert ?k (current - ucast (out_quantity out)) m"
      have cur: "unat (out_quantity out) \<le> unat current" "held m ?k = unat current"
        using False Some by (simp_all add: word_less_nat_alt held_def)
      have "unat (current - ucast (out_quantity out)) = unat current - unat (out_quantity out)"
        using False by (simp add: unat_sub_if' word_less_nat_alt)
      then have hm: "held ?m k = held m k - (if ?k = k then unat (out_quantity out) else 0)" for k
        using Cons.prems cur(2) by (auto simp: held_insert)
      have get: "bmap_get ?m k \<noteq> None \<longleftrightarrow> bmap_get m k \<noteq> None" for k
        using Cons.prems Some by auto
      have le: "(\<forall>k. out_total (out # outs) k \<le> held m k) \<longleftrightarrow> (\<forall>k. out_total outs k \<le> held ?m k)"
      proof -
        have "out_total (out # outs) k \<le> held m k \<longleftrightarrow> out_total outs k \<le> held ?m k" for k
          using cur hm [of k] by auto
        then show ?thesis by simp
      qed
      have left: "held ?m k - out_total outs k = held m k - out_total (out # outs) k" for k
        using hm [of k] by simp
      have doms: "(\<forall>o'\<in>set (out # outs). bmap_get m (output_asset o') \<noteq> None) \<longleftrightarrow>
          (\<forall>o'\<in>set outs. bmap_get ?m (output_asset o') \<noteq> None)"
        unfolding get using Some by simp
      have run: "subtract_outputs (out # outs) m = subtract_outputs outs ?m" using Some False by simp
      have "bmap_inv ?m" using Cons.prems by simp
      from Cons.IH [OF this] show ?thesis unfolding run doms le left .
    qed
  qed
qed

lemma is_input_and_output_consistent_iff:
  assumes "length inputs < 2 ^ 64"
  shows "is_input_and_output_consistent inputs outputs \<longleftrightarrow>
    (\<forall>k. in_total inputs k = out_total outputs k) \<and> output_asset ` set outputs \<subseteq> input_asset ` set inputs"
proof -
  let ?m = "foldl add_input [] inputs"
  have m: "bmap_inv ?m" "held ?m = in_total inputs" "\<And>k. bmap_get ?m k \<noteq> None \<longleftrightarrow> k \<in> input_asset ` set inputs"
    using add_inputs_spec [OF assms] by auto
  have zero: "list_all (\<lambda>(_, q). q = 0) m' \<longleftrightarrow> (\<forall>k. held m' k = 0)" if "bmap_inv m'" for m'
  proof -
    have "list_all (\<lambda>(_, q). q = 0) m' \<longleftrightarrow> (\<forall>k q. bmap_get m' k = Some q \<longrightarrow> q = 0)"
      unfolding list_all_iff by (subst bmap_get_in [OF that, symmetric]) auto
    also have "\<dots> \<longleftrightarrow> (\<forall>k. held m' k = 0)"
      by (auto simp: held_def unsigned_eq_0_iff split: option.splits)
    finally show ?thesis .
  qed
  note sub = subtract_outputs_spec [OF m(1), of outputs]
  have doms: "(\<forall>out\<in>set outputs. bmap_get ?m (output_asset out) \<noteq> None) \<longleftrightarrow>
      output_asset ` set outputs \<subseteq> input_asset ` set inputs"
    using m(3) by blast
  show ?thesis
  proof (cases "subtract_outputs outputs ?m")
    case None
    then have "\<not> ((\<forall>k. in_total inputs k = out_total outputs k) \<and> output_asset ` set outputs \<subseteq> input_asset ` set inputs)"
      using sub doms m(2) by auto
    then show ?thesis using None by (simp add: is_input_and_output_consistent_def)
  next
    case (Some m')
    then have "output_asset ` set outputs \<subseteq> input_asset ` set inputs" "\<forall>k. out_total outputs k \<le> in_total inputs k"
      "bmap_inv m'" "\<forall>k. held m' k = in_total inputs k - out_total outputs k"
      using sub doms m(2) by auto
    then show ?thesis
      using Some zero [of m'] by (auto simp: is_input_and_output_consistent_def le_antisym)
  qed
qed

section \<open>Spending no output twice\<close>

abbreviation prev_out_id :: "asset_transfer_input \<Rightarrow> h256 \<times> nat" where
  "prev_out_id i \<equiv> (op_tracker (in_prev_out i), op_index (in_prev_out i))"

lemma check_duplication_loop_Ok:
  "check_duplication_loop is seen = Ok () \<longleftrightarrow> distinct (map prev_out_id is) \<and> prev_out_id ` set is \<inter> seen = {}"
  by (induction "is" arbitrary: seen) (auto simp: Let_def)

lemma check_duplication_no_panic [simp]: "check_duplication_loop is seen \<noteq> Panics m"
  by (induction "is" arbitrary: seen) (auto simp: Let_def)

lemma check_duplication_Ok:
  "check_duplication_in_prev_out burns inputs = Ok () \<longleftrightarrow> distinct (map prev_out_id (inputs @ burns))"
  by (simp add: check_duplication_in_prev_out_def check_duplication_loop_Ok)

section \<open>The indices of orders\<close>

definition fits :: "nat list \<Rightarrow> bool list \<Rightarrow> bool" where
  "fits idxs chk \<longleftrightarrow> distinct idxs \<and> (\<forall>i\<in>set idxs. i < length chk \<and> \<not> chk ! i)"

lemma fits_Cons: "fits (i # idxs) chk \<longleftrightarrow> i < length chk \<and> \<not> chk ! i \<and> fits idxs (chk[i := True])"
  by (auto simp: fits_def nth_list_update split: if_splits)

lemma check_indices_fits:
  "fits (idxs @ js) chk \<longleftrightarrow> (\<exists>chk'. check_indices idxs chk = Ok chk' \<and> fits js chk')"
  by (induction idxs arbitrary: chk) (simp_all add: fits_Cons not_le)

lemma check_indices_no_panic [simp]: "check_indices idxs chk \<noteq> Panics m"
  by (induction idxs arbitrary: chk) simp_all

lemma order_indices_loop_Ok:
  "order_indices_loop ots ic oc = Ok () \<longleftrightarrow>
     fits (concat (map order_inputs ots)) ic \<and> fits (concat (map order_outputs ots)) oc"
  by (induction ots arbitrary: ic oc) (auto simp: check_indices_fits rbind_eq_Ok_iff fits_def [of "[]"])

lemma order_indices_loop_no_panic [simp]: "order_indices_loop ots ic oc \<noteq> Panics m"
  by (induction ots arbitrary: ic oc) (auto simp: rbind_eq_Inl_iff)

lemma verify_order_indices_Ok:
  "verify_order_indices orders n k = Ok () \<longleftrightarrow>
     distinct (concat (map order_inputs orders)) \<and> (\<forall>i\<in>set (concat (map order_inputs orders)). i < n) \<and>
     distinct (concat (map order_outputs orders)) \<and> (\<forall>i\<in>set (concat (map order_outputs orders)). i < k)"
  unfolding verify_order_indices_def order_indices_loop_Ok fits_def by auto

section \<open>The quantities of orders\<close>

lemma at_simps [simp]: "at xs i = Inr x \<longleftrightarrow> i < length xs \<and> x = xs ! i" "i < length xs \<Longrightarrow> at xs i = Inr (xs ! i)"
  by (auto simp: at_def)

definition index_total :: "('a \<Rightarrow> u64) \<Rightarrow> 'a list \<Rightarrow> nat list \<Rightarrow> nat" where
  "index_total q xs idxs = (\<Sum>i\<leftarrow>idxs. unat (q (xs ! i)))"

lemma sum_order_inputs_Ok:
  assumes "sum_order_inputs nm asset inputs idxs acc = Ok r"
  shows "(\<forall>i\<in>set idxs. i < length inputs \<and> input_asset (inputs ! i) = asset) \<and>
    r = acc + (\<Sum>i\<leftarrow>idxs. input_quantity (inputs ! i))"
  using assms
proof (induction idxs arbitrary: acc)
  case (Cons i idxs)
  have i: "i < length inputs" "input_asset (inputs ! i) = asset"
    using Cons.prems by (auto simp: rbind_eq_Ok_iff split: if_splits)
  then have "sum_order_inputs nm asset inputs idxs (acc + input_quantity (inputs ! i)) = Ok r"
    using Cons.prems by simp
  from Cons.IH [OF this] i show ?case by (simp add: add.assoc)
qed simp

lemma sum_order_outputs_Ok:
  assumes "sum_order_outputs ord maker nm asset outputs idxs acc = Ok r"
  shows "(\<forall>i\<in>set idxs. i < length outputs \<and> output_asset (outputs ! i) = asset \<and>
      check_transfer_output ord (outputs ! i) = Ok maker) \<and>
    r = acc + (\<Sum>i\<leftarrow>idxs. out_quantity (outputs ! i))"
  using assms
proof (induction idxs arbitrary: acc)
  case (Cons i idxs)
  have i: "i < length outputs" "output_asset (outputs ! i) = asset" "check_transfer_output ord (outputs ! i) = Ok maker"
    using Cons.prems by (auto simp: rbind_eq_Ok_iff split: if_splits)
  then have "sum_order_outputs ord maker nm asset outputs idxs (acc + out_quantity (outputs ! i)) = Ok r"
    using Cons.prems by simp
  from Cons.IH [OF this] i show ?case by (simp add: add.assoc)
qed simp

lemma unat_index_sum:
  fixes q :: "'a \<Rightarrow> u64"
  assumes "index_total q xs idxs < 2 ^ 64"
  shows "unat (\<Sum>i\<leftarrow>idxs. q (xs ! i)) = index_total q xs idxs"
  using unat_sum_list_le [of "map (\<lambda>i. q (xs ! i)) idxs"] assms by (simp add: index_total_def o_def)

lemma unat_mult_u128: "unat (ucast (a :: u64) * ucast (b :: u64) :: u128) = unat a * unat b"
proof -
  have "unat a * unat b \<le> (2 ^ 64 - 1) * (2 ^ 64 - 1)"
    using unat_u64_less [of a] unat_u64_less [of b] by (intro mult_le_mono) simp_all
  then show ?thesis by (simp add: unat_word_ariths)
qed

lemma ratios:
  "is_ratio_equal a b c d \<longleftrightarrow> unat a * unat d = unat b * unat c"
  "is_ratio_greater_or_equal a b c d \<longleftrightarrow> unat b * unat c \<le> unat a * unat d"
  by (simp_all add: is_ratio_equal_def is_ratio_greater_or_equal_def word_le_nat_alt word_unat_eq_iff unat_mult_u128)

text \<open>An output that the maker of the order owns: it carries the lock script and the parameters
  that the order names.\<close>

definition owned_by_maker :: "asset_order \<Rightarrow> asset_transfer_output \<Rightarrow> bool" where
  "owned_by_maker ord out \<longleftrightarrow>
     out_lock_script_hash out = lock_script_hash_from ord \<and> out_parameters out = parameters_from ord"

lemma check_transfer_output_True: "check_transfer_output ord out = Ok True \<Longrightarrow> owned_by_maker ord out"
  by (auto simp: check_transfer_output_def owned_by_maker_def split: if_splits)

section \<open>Verified transfers\<close>

lemma rforeach_Ok: "rforeach f xs = Ok () \<longleftrightarrow> (\<forall>x\<in>set xs. f x = Ok ())"
  by (induction xs) (auto simp: rbind_eq_Ok_iff)

lemma rforeach_no_panic: "(\<And>x. x \<in> set xs \<Longrightarrow> f x \<noteq> Panics m) \<Longrightarrow> rforeach f xs \<noteq> Panics m"
  by (induction xs) (auto simp: rbind_eq_Inl_iff)

lemma verify_transfer_parts:
  "verify_transfer oh burns inputs outputs orders = Ok () \<longleftrightarrow>
     length outputs \<le> 512 \<and> is_input_and_output_consistent inputs outputs \<and>
     (\<forall>i\<in>set (inputs @ burns). input_quantity i \<noteq> 0) \<and> (\<forall>out\<in>set outputs. out_quantity out \<noteq> 0) \<and>
     distinct (map prev_out_id (inputs @ burns)) \<and>
     (\<forall>ot\<in>set orders. order_verify oh (ot_order ot) = Ok ()) \<and>
     verify_order_indices orders (length inputs) (length outputs) = Ok () \<and>
     (\<forall>ot\<in>set orders. verify_one_order inputs outputs ot = Ok ())"
  unfolding verify_transfer_def verify_input_and_output_consistent_with_order_def
  by (auto simp: rbind_eq_Ok_iff check_duplication_Ok rforeach_Ok list_ex_iff not_less)

text \<open>
  C18: exactly which transfers pass verification: at most 512 outputs; for every asset type in
  every shard the inputs add up to the outputs (counted without overflow); no quantity is zero;
  no previous output is spent or burnt twice; every order is well-formed; and the orders use
  disjoint inputs and outputs of the transaction, each consistently with the order.
\<close>

theorem transfer_verify_iff:
  assumes "length inputs < 2 ^ 64"
  shows "action_verify oh (TransferAsset n burns inputs outputs orders mdata approvals expi) = Ok () \<longleftrightarrow>
    length outputs \<le> 512 \<and> (\<forall>k. in_total inputs k = out_total outputs k) \<and>
    (\<forall>i\<in>set (inputs @ burns). input_quantity i \<noteq> 0) \<and> (\<forall>out\<in>set outputs. out_quantity out \<noteq> 0) \<and>
    distinct (map prev_out_id (inputs @ burns)) \<and>
    (\<forall>ot\<in>set orders. order_verify oh (ot_order ot) = Ok ()) \<and>
    distinct (concat (map order_inputs orders)) \<and> (\<forall>i\<in>set (concat (map order_inputs orders)). i < length inputs) \<and>
    distinct (concat (map order_outputs orders)) \<and> (\<forall>i\<in>set (concat (map order_outputs orders)). i < length outputs) \<and>
    (\<forall>ot\<in>set orders. verify_one_order inputs outputs ot = Ok ())"
proof -
  have known: "output_asset ` set outputs \<subseteq> input_asset ` set inputs"
    if eq: "\<forall>k. in_total inputs k = out_total outputs k" and pos: "\<forall>out\<in>set outputs. out_quantity out \<noteq> 0"
  proof
    fix k
    assume "k \<in> output_asset ` set outputs"
    then obtain out where out: "out \<in> set outputs" "output_asset out = k" by auto
    then have "unat (out_quantity out) \<le> out_total outputs k"
      unfolding out_total_def by (intro member_le_sum_list) auto
    moreover have "unat (out_quantity out) \<noteq> 0" using pos out(1) by (simp add: unsigned_eq_0_iff)
    ultimately have "in_total inputs k \<noteq> 0" using spec [OF eq, of k] by simp
    then have "filter (\<lambda>i. input_asset i = k) inputs \<noteq> []"
      unfolding in_total_def by (cases "filter (\<lambda>i. input_asset i = k) inputs") simp_all
    then show "k \<in> input_asset ` set inputs" by (auto simp: filter_empty_conv)
  qed
  have bal: "is_input_and_output_consistent inputs outputs \<longleftrightarrow> (\<forall>k. in_total inputs k = out_total outputs k)"
    if "\<forall>out\<in>set outputs. out_quantity out \<noteq> 0"
    using is_input_and_output_consistent_iff [OF assms] known [OF _ that] by blast
  show ?thesis
  proof (cases "\<forall>out\<in>set outputs. out_quantity out \<noteq> 0")
    case True
    then show ?thesis
      unfolding action_verify.simps verify_transfer_parts verify_order_indices_Ok bal [OF True] by (simp only: conj_assoc)
  next
    case False
    then show ?thesis
      unfolding action_verify.simps verify_transfer_parts by (simp only: simp_thms)
  qed
qed

lemma verify_one_order_parts:
  assumes "verify_one_order inputs outputs ot = Ok ()" "ord = ot_order ot"
  shows "\<exists>in_from in_fee out_from out_to fee_remaining fee_given.
    spent_quantity ot \<le> asset_quantity_from ord \<and>
    sum_order_inputs ''INPUT FROM'' (asset_type_from ord, shard_id_from ord) inputs (input_from_indices ot) 0 = Ok in_from \<and>
    sum_order_inputs ''INPUT FEE'' (asset_type_fee ord, shard_id_fee ord) inputs (input_fee_indices ot) 0 = Ok in_fee \<and>
    sum_order_outputs ord True ''OUTPUT FROM'' (asset_type_from ord, shard_id_from ord) outputs (output_from_indices ot) 0 = Ok out_from \<and>
    sum_order_outputs ord True ''OUTPUT TO'' (asset_type_to ord, shard_id_to ord) outputs (output_to_indices ot) 0 = Ok out_to \<and>
    sum_order_outputs ord True ''OUTPUT OWNED FEE'' (asset_type_fee ord, shard_id_fee ord) outputs (output_owned_fee_indices ot) 0 = Ok fee_remaining \<and>
    sum_order_outputs ord False ''OUTPUT TRANSFERRED FEE'' (asset_type_fee ord, shard_id_fee ord) outputs
      (output_transferred_fee_indices ot) 0 = Ok fee_given \<and>
    out_from < in_from \<and> in_from - out_from = spent_quantity ot \<and>
    is_ratio_greater_or_equal (asset_quantity_from ord) (asset_quantity_to ord) (spent_quantity ot) out_to \<and>
    fee_remaining \<le> in_fee \<and> in_fee - fee_remaining = fee_given \<and>
    is_ratio_equal (asset_quantity_from ord) (asset_quantity_fee ord) (spent_quantity ot) fee_given"
  using assms unfolding verify_one_order_def Let_def
  by (force simp: rbind_eq_Ok_iff not_le not_less split: if_splits)

lemma unat_diff_eq:
  assumes "(b :: u64) \<le> a" "a - b = c"
  shows "unat a = unat b + unat c"
  using assms by (auto simp: unat_sub_if' word_le_nat_alt)


section \<open>No check panics\<close>

lemma sum_order_inputs_no_panic:
  "\<forall>i\<in>set idxs. i < length inputs \<Longrightarrow> sum_order_inputs nm asset inputs idxs acc \<noteq> Panics m"
  by (induction idxs arbitrary: acc) auto

lemma check_transfer_output_no_panic [simp]: "check_transfer_output ord out \<noteq> Panics m"
  by (simp add: check_transfer_output_def)

lemma sum_order_outputs_no_panic:
  "\<forall>i\<in>set idxs. i < length outputs \<Longrightarrow> sum_order_outputs ord maker nm asset outputs idxs acc \<noteq> Panics m"
  by (induction idxs arbitrary: acc) (auto simp: rbind_eq_Inl_iff)

lemma verify_one_order_no_panic:
  assumes "\<forall>i\<in>set (order_inputs ot). i < length inputs" "\<forall>i\<in>set (order_outputs ot). i < length outputs"
  shows "verify_one_order inputs outputs ot \<noteq> Panics m"
proof -
  have ins: "sum_order_inputs nm asset inputs (input_from_indices ot) acc \<noteq> Panics m"
    "sum_order_inputs nm asset inputs (input_fee_indices ot) acc \<noteq> Panics m" for nm asset acc
    using assms(1) by (intro sum_order_inputs_no_panic; simp add: order_inputs_def)+
  have outs: "sum_order_outputs ord maker nm asset outputs (output_from_indices ot) acc \<noteq> Panics m"
    "sum_order_outputs ord maker nm asset outputs (output_to_indices ot) acc \<noteq> Panics m"
    "sum_order_outputs ord maker nm asset outputs (output_owned_fee_indices ot) acc \<noteq> Panics m"
    "sum_order_outputs ord maker nm asset outputs (output_transferred_fee_indices ot) acc \<noteq> Panics m"
    for ord maker nm asset acc
    using assms(2) by (intro sum_order_outputs_no_panic; simp add: order_outputs_def)+
  show ?thesis
    unfolding verify_one_order_def Let_def by (simp add: rbind_eq_Inl_iff ins outs)
qed

lemma order_verify_no_panic: "order_verify oh ord \<noteq> Panics m"
  by (simp add: order_verify_def)

lemma verify_orders_no_panic:
  assumes "verify_order_indices orders (length inputs) (length outputs) = Ok ()"
  shows "verify_input_and_output_consistent_with_order orders inputs outputs \<noteq> Panics m"
  unfolding verify_input_and_output_consistent_with_order_def
  using assms unfolding verify_order_indices_Ok
  by (intro rforeach_no_panic verify_one_order_no_panic) auto

text \<open>
  Verifying an action never panics, whatever the action: the indices an order names are
  checked before they are used.
\<close>

theorem action_verify_no_panic: "action_verify oh a \<noteq> Panics m"
proof (cases a)
  case (TransferAsset n burns inputs outputs orders mdata approvals expi)
  have "verify_order_indices orders (length inputs) (length outputs) \<noteq> Panics m"
    by (simp add: verify_order_indices_def)
  then show ?thesis
    using verify_orders_no_panic [of orders inputs outputs m] order_verify_no_panic
      rforeach_no_panic [of orders "\<lambda>ot. order_verify oh (ot_order ot)" m]
    by (auto simp: TransferAsset verify_transfer_def rbind_eq_Inl_iff check_duplication_in_prev_out_def)
qed simp_all

section \<open>What is left of an order\<close>

lemma proportional_Ok:
  assumes "from' \<noteq> 0" "quantity \<le> from'"
  obtains w where "(proportional quantity part from' :: ('e, _) result) = Ok w"
    "unat w = unat quantity * unat part div unat from'" "w \<le> part"
proof -
  let ?w = "ucast ((ucast quantity * ucast part :: u128) div ucast from') :: u64"
  have pos: "unat from' \<noteq> 0" using assms(1) by (simp add: unsigned_eq_0_iff)
  have "unat quantity * unat part div unat from' \<le> unat from' * unat part div unat from'"
    using assms(2) by (intro div_le_mono mult_le_mono1) (simp add: word_le_nat_alt)
  then have le: "unat quantity * unat part div unat from' \<le> unat part" using pos by simp
  have "unat ((ucast quantity * ucast part :: u128) div ucast from') = unat quantity * unat part div unat from'"
    by (simp add: unat_div unat_mult_u128)
  then have w: "unat ?w = unat quantity * unat part div unat from'"
    using le unat_u64_less [of part] by (simp add: unsigned_ucast_eq take_bit_nat_eq_self)
  show ?thesis
    by (rule that [of ?w]) (use assms(1) w le in \<open>simp_all add: proportional_def word_le_nat_alt\<close>)
qed

text \<open>The arithmetic of a partly filled order, on natural numbers.\<close>

lemma filled_order:
  fixes F T K Q :: nat
  assumes "Q \<le> F" "0 < F" "0 < T"
  shows "T * (F - Q) \<le> (T - Q * T div F) * F" "(F - Q = 0) \<longleftrightarrow> (T - Q * T div F = 0)"
    "K * F - Q * (K * F) div F = K * (F - Q)"
proof -
  have W: "Q * T div F * F \<le> Q * T" by (rule div_times_less_eq_dividend)
  have "T * (F - Q) = T * F - Q * T" by (simp add: diff_mult_distrib2 mult.commute)
  also have "\<dots> \<le> T * F - Q * T div F * F" using W by (rule diff_le_mono2)
  finally show "T * (F - Q) \<le> (T - Q * T div F) * F" by (simp add: diff_mult_distrib)
  show "(F - Q = 0) \<longleftrightarrow> (T - Q * T div F = 0)"
  proof (cases "Q = F")
    case True
    then show ?thesis using assms(2) by simp
  next
    case False
    then have "Q * T < T * F" using assms by (simp add: mult.commute)
    then have "Q * T div F < T" by (simp add: less_mult_imp_div_less)
    then show ?thesis using False assms(1) by simp
  qed
  have "Q * (K * F) div F = Q * K" using assms(2) by simp
  then show "K * F - Q * (K * F) div F = K * (F - Q)" by (simp add: diff_mult_distrib2 mult.commute)
qed

lemma order_verify_Ok:
  "order_verify oh ord = Ok () \<longleftrightarrow>
     \<not> (asset_type_from ord = asset_type_to ord \<and> shard_id_from ord = shard_id_to ord) \<and>
     (asset_quantity_from ord = 0 \<longleftrightarrow> asset_quantity_to ord = 0) \<and>
     (if asset_quantity_from ord = 0 then asset_quantity_fee ord = 0
      else unat (asset_quantity_from ord) dvd unat (asset_quantity_fee ord)) \<and>
     \<not> (asset_quantity_fee ord \<noteq> 0 \<and> lock_script_hash_fee ord = lock_script_hash_from ord \<and>
        parameters_fee ord = parameters_from ord) \<and>
     origin_outputs ord \<noteq> [] \<and>
     \<not> list_ex (\<lambda>o'. (op_asset_type o' \<noteq> asset_type_from ord \<or> op_shard_id o' \<noteq> shard_id_from ord) \<and>
          (op_asset_type o' \<noteq> asset_type_fee ord \<or> op_shard_id o' \<noteq> shard_id_fee ord)) (origin_outputs ord)"
proof -
  have "asset_quantity_fee ord mod asset_quantity_from ord = 0 \<longleftrightarrow>
      unat (asset_quantity_from ord) dvd unat (asset_quantity_fee ord)"
    by (simp add: word_unat_eq_iff unat_mod dvd_eq_mod_eq_0)
  then show ?thesis by (simp add: order_verify_def)
qed

text \<open>
  The remainder of a partly filled order. Consuming part of what a well-formed order offers
  neither panics nor divides by zero and leaves a well-formed order: what is still offered is
  reduced by the quantity, the price the maker asks per unit does not fall, and the fee per unit
  stays the same.
\<close>

theorem order_consume_valid:
  assumes "order_verify oh ord = Ok ()" "0 < q" "q \<le> asset_quantity_from ord"
  shows "\<exists>ord'. (order_consume q ord :: ('e, _) result) = Ok ord' \<and> order_verify oh ord' = Ok () \<and>
    unat (asset_quantity_from ord') = unat (asset_quantity_from ord) - unat q \<and>
    unat (asset_quantity_to ord) * unat (asset_quantity_from ord') \<le>
      unat (asset_quantity_to ord') * unat (asset_quantity_from ord) \<and>
    unat (asset_quantity_fee ord) * unat (asset_quantity_from ord') =
      unat (asset_quantity_fee ord') * unat (asset_quantity_from ord) \<and>
    ord' = ord\<lparr>asset_quantity_from := asset_quantity_from ord', asset_quantity_to := asset_quantity_to ord',
      asset_quantity_fee := asset_quantity_fee ord'\<rparr>"
proof -
  let ?F = "unat (asset_quantity_from ord)" and ?T = "unat (asset_quantity_to ord)"
  have nz: "asset_quantity_from ord \<noteq> 0" using assms(2,3) by auto
  then have pos: "0 < ?F" "0 < ?T"
    using assms(1) by (auto simp: order_verify_Ok unat_gt_0)
  have "?F dvd unat (asset_quantity_fee ord)" using assms(1) nz by (simp add: order_verify_Ok)
  then obtain K where K: "unat (asset_quantity_fee ord) = K * ?F" by (metis dvd_def mult.commute)
  have le: "unat q \<le> ?F" using assms(3) by (simp add: word_le_nat_alt)
  obtain wt where wt: "(proportional q (asset_quantity_to ord) (asset_quantity_from ord) :: ('e, _) result) = Ok wt"
    "unat wt = unat q * ?T div ?F" "wt \<le> asset_quantity_to ord"
    by (rule proportional_Ok [OF nz assms(3)])
  obtain wf where wf: "(proportional q (asset_quantity_fee ord) (asset_quantity_from ord) :: ('e, _) result) = Ok wf"
    "unat wf = unat q * unat (asset_quantity_fee ord) div ?F" "wf \<le> asset_quantity_fee ord"
    by (rule proportional_Ok [OF nz assms(3)])
  note fill = filled_order [OF le pos]
  define ord' where "ord' = ord\<lparr>asset_quantity_from := asset_quantity_from ord - q,
    asset_quantity_to := asset_quantity_to ord - wt, asset_quantity_fee := asset_quantity_fee ord - wf\<rparr>"
  have run: "(order_consume q ord :: ('e, _) result) = Ok ord'"
    by (simp add: order_consume_def wt(1) wf(1) ord'_def)
  have sub: "unat (a - b) = unat a - unat b" if "b \<le> a" for a b :: u64
    using that by (simp add: unat_sub_if' word_le_nat_alt)
  have q': "unat (asset_quantity_from ord') = ?F - unat q" "unat (asset_quantity_to ord') = ?T - unat q * ?T div ?F"
    "unat (asset_quantity_fee ord') = K * (?F - unat q)"
    using sub [OF assms(3)] sub [OF wt(3)] sub [OF wf(3)] wt(2) wf(2) fill(3) [of K] by (simp_all add: ord'_def K)
  have z: "w = 0 \<longleftrightarrow> unat w = 0" for w :: u64 by (simp add: unsigned_eq_0_iff)
  have zero: "asset_quantity_from ord' = 0 \<longleftrightarrow> asset_quantity_to ord' = 0"
    unfolding z q' using fill(2) by simp
  have fee0: "asset_quantity_fee ord' = 0" if "asset_quantity_from ord' = 0 \<or> asset_quantity_fee ord = 0"
    using that K pos(1) unfolding z q' by auto
  have dvd: "unat (asset_quantity_from ord') dvd unat (asset_quantity_fee ord')" unfolding q' by simp
  have "order_verify oh ord' = Ok ()"
    using assms(1) zero fee0 dvd unfolding order_verify_Ok by (auto simp: ord'_def)
  with run show ?thesis
    using q' fill(1) by (intro exI [of _ ord']) (simp add: ord'_def K)
qed

section \<open>Witnesses\<close>

definition sample_prev_out :: "nat \<Rightarrow> h160 \<Rightarrow> u64 \<Rightarrow> asset_out_point" where
  "sample_prev_out index ty q = \<lparr>op_tracker = 3, op_index = index, op_asset_type = ty, op_shard_id = 0, op_quantity = q\<rparr>"

definition sample_inputs :: "asset_transfer_input list" where
  "sample_inputs = map (\<lambda>prev. \<lparr>in_prev_out = prev, in_timelock = None, in_lock_script = [], in_unlock_script = []\<rparr>)
     [sample_prev_out 0 1 10, sample_prev_out 1 2 20]"

definition sample_outputs :: "asset_transfer_output list" where
  "sample_outputs =
     [\<lparr>out_lock_script_hash = 7, out_parameters = [], out_asset_type = 2, out_shard_id = 0, out_quantity = 20\<rparr>,
      \<lparr>out_lock_script_hash = 8, out_parameters = [], out_asset_type = 1, out_shard_id = 0, out_quantity = 10\<rparr>]"

definition sample_order :: asset_order where
  "sample_order = \<lparr>asset_type_from = 1, asset_type_to = 2, asset_type_fee = 1, shard_id_from = 0, shard_id_to = 0,
     shard_id_fee = 0, asset_quantity_from = 10, asset_quantity_to = 20, asset_quantity_fee = 0,
     origin_outputs = [sample_prev_out 0 1 10], order_expiration = 0, lock_script_hash_from = 7,
     parameters_from = [], lock_script_hash_fee = 0, parameters_fee = []\<rparr>"

definition sample_on_transfer :: order_on_transfer where
  "sample_on_transfer = \<lparr>ot_order = sample_order, spent_quantity = 10, input_from_indices = [0],
     input_fee_indices = [], output_from_indices = [], output_to_indices = [0],
     output_owned_fee_indices = [], output_transferred_fee_indices = []\<rparr>"

definition sample_transfer :: action where
  "sample_transfer = TransferAsset 17 [] sample_inputs sample_outputs [sample_on_transfer] [] [] None"

lemma sample_one_order: "verify_one_order sample_inputs sample_outputs sample_on_transfer = Ok ()"
  by (simp add: verify_one_order_def sample_on_transfer_def sample_order_def sample_inputs_def sample_outputs_def
      sample_prev_out_def check_transfer_output_def is_ratio_equal_def is_ratio_greater_or_equal_def)

lemma sample_order_verified: "order_verify oh sample_order = Ok ()"
  by (simp add: order_verify_def sample_order_def sample_prev_out_def)

theorem transfer_verify_iff_witness:
  "action_verify (\<lambda>_. 0) (TransferAsset 17 [] sample_inputs sample_outputs [sample_on_transfer] [] [] None) = Ok ()"
proof -
  have "in_total sample_inputs k = out_total sample_outputs k" for k
    by (simp add: sample_inputs_def sample_outputs_def sample_prev_out_def in_total_def out_total_def)
  moreover have "length sample_inputs < 2 ^ 64" by (simp add: sample_inputs_def)
  ultimately show ?thesis
    using transfer_verify_iff [of sample_inputs "\<lambda>_. 0" 17 "[]" sample_outputs "[sample_on_transfer]" "[]" "[]" None]
      sample_one_order sample_order_verified [of "\<lambda>_. 0"]
    by (simp add: sample_on_transfer_def order_inputs_def order_outputs_def)
      (simp add: sample_inputs_def sample_outputs_def sample_prev_out_def)
qed

lemma sample_transfer_verified: "verify_transfer oh [] sample_inputs sample_outputs [sample_on_transfer] = Ok ()"
proof -
  have "is_input_and_output_consistent sample_inputs sample_outputs"
    by (subst is_input_and_output_consistent_iff)
      (simp_all add: sample_inputs_def sample_outputs_def sample_prev_out_def in_total_def out_total_def)
  then show ?thesis
    unfolding verify_transfer_parts verify_order_indices_Ok
    using sample_one_order sample_order_verified [of oh]
    by (simp add: sample_on_transfer_def order_inputs_def order_outputs_def)
      (simp add: sample_inputs_def sample_outputs_def sample_prev_out_def)
qed


theorem order_consume_valid_witness:
  "\<exists>ord'. (order_consume 4 sample_order :: (syntax_error, _) result) = Ok ord' \<and> order_verify (\<lambda>_. 0) ord' = Ok () \<and>
    unat (asset_quantity_from ord') = 6"
proof -
  have "(0 :: u64) < 4" "4 \<le> asset_quantity_from sample_order" by (simp_all add: sample_order_def)
  from order_consume_valid [OF sample_order_verified [of "\<lambda>_. 0"] this, where 'e = syntax_error] show ?thesis
    by (auto simp: sample_order_def)
qed

end
