(* ===== verification/Shard_State.thy ===== *)
theory Shard_State
  imports Script_VM Tx_Syntax State_Items BTree_Collections State_Hoare
begin

text \<open>
  The state of one shard (\<open>state/src/impls/shard_level.rs\<close>) with its items
  (\<open>state/src/item/asset.rs\<close>, \<open>asset_scheme.rs\<close>): what each shard transaction does to the
  asset schemes and the assets.

  Schemes and assets are the views of the shard's two write-back caches (theory \<open>Write_Back\<close>
  shows that a cache behaves like that map with a stack of snapshots). A scheme is stored under
  a hash of its asset type, an asset under a hash of tracker and index; the maps are indexed by
  what is hashed. \<open>WriteBack::create\<close> asserts that nothing is cached at the address: the model
  panics whenever something is stored there, cached or not, so that what is proved free of
  panics also never overwrites an item. The library functions (hashes of transactions, orders
  and scripts, signatures, the chain's time information) are collected in \<open>shard_lib\<close>; the
  fields of \<open>lib_vm\<close> that belong to one execution are set by the caller. Two hash maps of the
  code are iterated (the pool of a composed asset); they are sorted maps here.
\<close>

section \<open>Assets\<close>

record asset_item =
  asset_type :: h160
  quantity :: u64

record owned_asset = asset_item +
  oa_lock_script_hash :: h160
  oa_parameters :: "bytes list"
  oa_order_hash :: "h256 option"

definition owned_asset_new :: "h160 \<Rightarrow> h160 \<Rightarrow> bytes list \<Rightarrow> u64 \<Rightarrow> h256 option \<Rightarrow> owned_asset" where
  "owned_asset_new ty lsh params q oh =
     \<lparr>asset_type = ty, quantity = q, oa_lock_script_hash = lsh, oa_parameters = params,
      oa_order_hash = oh\<rparr>"

section \<open>Asset schemes\<close>

record asset_scheme =
  as_metadata :: bytes
  as_supply :: u64
  as_approver :: "address option"
  as_registrar :: "address option"
  as_allowed_script_hashes :: "h160 list"
  as_pool :: "asset_item list"
  as_seq :: nat

definition new_with_pool :: "bytes \<Rightarrow> u64 \<Rightarrow> address option \<Rightarrow> address option \<Rightarrow> h160 list \<Rightarrow>
    asset_item list \<Rightarrow> asset_scheme" where
  "new_with_pool metadata spl approver registrar allowed pool =
     \<lparr>as_metadata = metadata, as_supply = spl, as_approver = approver, as_registrar = registrar,
      as_allowed_script_hashes = allowed, as_pool = pool, as_seq = 0\<rparr>"

definition default_scheme :: asset_scheme where
  "default_scheme = new_with_pool [] 0 None None [] []"

definition is_regulated :: "asset_scheme \<Rightarrow> bool" where
  "is_regulated sc \<longleftrightarrow> as_registrar sc \<noteq> None"

definition is_allowed_script_hash :: "h160 \<Rightarrow> asset_scheme \<Rightarrow> bool" where
  "is_allowed_script_hash h sc \<longleftrightarrow>
     as_allowed_script_hashes sc = [] \<or> h \<in> set (as_allowed_script_hashes sc)"

definition change_data :: "bytes \<Rightarrow> address option \<Rightarrow> address option \<Rightarrow> h160 list \<Rightarrow>
    asset_scheme \<Rightarrow> asset_scheme" where
  "change_data metadata approver registrar allowed sc =
     sc\<lparr>as_metadata := metadata, as_approver := approver, as_registrar := registrar,
        as_allowed_script_hashes := allowed\<rparr>"

definition increase_supply :: "u64 \<Rightarrow> asset_scheme \<Rightarrow> (state_error, asset_scheme) result" where
  "increase_supply q sc =
     (let headroom = - 1 - as_supply sc in
      if q > headroom then Error AssetSupplyOverflow
      else Ok (sc\<lparr>as_supply := as_supply sc + q\<rparr>))"

definition increase_seq :: "asset_scheme \<Rightarrow> asset_scheme" where
  "increase_seq sc = sc\<lparr>as_seq := as_seq sc + 1\<rparr>"

definition reduce_supply :: "u64 \<Rightarrow> asset_scheme \<Rightarrow> ('e, asset_scheme) result" where
  "reduce_supply q sc =
     rbind (rassert ''AssetScheme supply shouldn't be depleted'' (as_supply sc \<ge> q)) (\<lambda>_.
     Ok (sc\<lparr>as_supply := as_supply sc - q\<rparr>))"

section \<open>The state of a shard\<close>

type_synonym scheme_map = "h160 \<Rightarrow> asset_scheme option"
type_synonym asset_map = "h256 \<times> nat \<Rightarrow> owned_asset option"

record shard_level =
  sl_shard_id :: shard_id
  sl_schemes :: scheme_map
  sl_assets :: asset_map
  sl_snaps :: "(scheme_map \<times> asset_map) list"
  id_of_checkpoints :: "nat list"

type_synonym 'a shard_op = "(shard_level, state_error, 'a) sop"

text \<open>\<open>ShardLevelState::from_existing\<close>: a shard's caches with no checkpoint of its own.\<close>

definition from_existing :: "shard_id \<Rightarrow> scheme_map \<Rightarrow> asset_map \<Rightarrow> shard_level" where
  "from_existing sid sch ast =
     \<lparr>sl_shard_id = sid, sl_schemes = sch, sl_assets = ast, sl_snaps = [], id_of_checkpoints = []\<rparr>"

record shard_lib =
  lib_vm :: vm_env
  lib_blake_rlp :: "shard_transaction \<Rightarrow> h256"
  lib_asset_type :: "h256 \<Rightarrow> h160"
  lib_order_hash :: "asset_order \<Rightarrow> h256"
  lib_hash_with_tag :: "bytes \<Rightarrow> shard_transaction \<Rightarrow> h256"

abbreviation tracker_of :: "shard_lib \<Rightarrow> shard_transaction \<Rightarrow> h256" where
  "tracker_of lib \<equiv> shard_tracker (lib_blake_rlp lib)"

definition asset_scheme_of :: "h160 \<Rightarrow> asset_scheme option shard_op" where
  "asset_scheme_of ty = sget (\<lambda>s. sl_schemes s ty)"

definition asset_of :: "h256 \<Rightarrow> nat \<Rightarrow> owned_asset option shard_op" where
  "asset_of tracker index = sget (\<lambda>s. sl_assets s (tracker, index))"

definition kill_asset :: "h256 \<Rightarrow> nat \<Rightarrow> unit shard_op" where
  "kill_asset tracker index = smodify (\<lambda>s. s\<lparr>sl_assets := (sl_assets s)((tracker, index) := None)\<rparr>)"

definition set_scheme :: "h160 \<Rightarrow> asset_scheme \<Rightarrow> unit shard_op" where
  "set_scheme ty sc = smodify (\<lambda>s. s\<lparr>sl_schemes := (sl_schemes s)(ty \<mapsto> sc)\<rparr>)"

definition create_asset_scheme :: "h160 \<Rightarrow> asset_scheme \<Rightarrow> unit shard_op" where
  "create_asset_scheme ty sc =
     sbind (asset_scheme_of ty) (\<lambda>old.
     sbind (sassert ''cached.item.is_none()'' (old = None)) (\<lambda>_.
     set_scheme ty sc))"

definition create_asset :: "h256 \<Rightarrow> nat \<Rightarrow> owned_asset \<Rightarrow> unit shard_op" where
  "create_asset tracker index a =
     sbind (asset_of tracker index) (\<lambda>old.
     sbind (sassert ''cached.item.is_none()'' (old = None)) (\<lambda>_.
     smodify (\<lambda>s. s\<lparr>sl_assets := (sl_assets s)((tracker, index) \<mapsto> a)\<rparr>)))"

text \<open>A mutable reference to a scheme: a missing one is created with the default first. What
  the caller writes through the reference is \<open>set_scheme\<close>.\<close>

definition get_asset_scheme_mut :: "h160 \<Rightarrow> asset_scheme shard_op" where
  "get_asset_scheme_mut ty =
     sbind (asset_scheme_of ty) (\<lambda>old.
       let sc = (case old of None \<Rightarrow> default_scheme | Some sc \<Rightarrow> sc) in
       sbind (set_scheme ty sc) (\<lambda>_. sreturn sc))"

section \<open>Checkpoints\<close>

definition create_checkpoint :: "nat \<Rightarrow> unit shard_op" where
  "create_checkpoint i = smodify (\<lambda>s. s\<lparr>id_of_checkpoints := id_of_checkpoints s @ [i],
     sl_snaps := (sl_schemes s, sl_assets s) # sl_snaps s\<rparr>)"

definition pop_checkpoint :: "nat \<Rightarrow> unit shard_op" where
  "pop_checkpoint i =
     sbind (sget id_of_checkpoints) (\<lambda>ids.
       if ids = [] then spanic ''The checkpoint must exist''
       else sbind (smodify (\<lambda>s. s\<lparr>id_of_checkpoints := butlast ids\<rparr>)) (\<lambda>_.
         sassert ''expected == id'' (last ids = i)))"

definition discard_checkpoint :: "nat \<Rightarrow> unit shard_op" where
  "discard_checkpoint i =
     sbind (pop_checkpoint i) (\<lambda>_. smodify (\<lambda>s. s\<lparr>sl_snaps := tl (sl_snaps s)\<rparr>))"

definition revert_to_checkpoint :: "nat \<Rightarrow> unit shard_op" where
  "revert_to_checkpoint i =
     sbind (pop_checkpoint i) (\<lambda>_. smodify (\<lambda>s. case sl_snaps s of
         [] \<Rightarrow> s
       | (sch, ast) # snaps \<Rightarrow> s\<lparr>sl_schemes := sch, sl_assets := ast, sl_snaps := snaps\<rparr>))"

definition TRANSACTION_CHECKPOINT :: nat where
  "TRANSACTION_CHECKPOINT = 456"

section \<open>Permissions and scripts\<close>

definition get_scheme_or_fail :: "h160 \<Rightarrow> asset_scheme shard_op" where
  "get_scheme_or_fail ty =
     sbind (asset_scheme_of ty) (\<lambda>found. sbind (sget sl_shard_id) (\<lambda>sid.
       slift (ok_or (AssetSchemeNotFound ty sid) found)))"

definition approved_by_registrar :: "h160 \<Rightarrow> address \<Rightarrow> address list \<Rightarrow> bool shard_op" where
  "approved_by_registrar ty sender approvers =
     sbind (get_scheme_or_fail ty) (\<lambda>sc.
       sreturn (case as_registrar sc of
           Some registrar \<Rightarrow> registrar = sender \<or> registrar \<in> set approvers
         | None \<Rightarrow> False))"

definition check_approver :: "asset_transfer_input \<Rightarrow> address \<Rightarrow> address list \<Rightarrow> unit shard_op" where
  "check_approver input sender approvers =
     sbind (get_scheme_or_fail (op_asset_type (in_prev_out input))) (\<lambda>sc.
       case as_approver sc of
         Some approver \<Rightarrow>
           if sender \<noteq> approver \<and> approver \<notin> set approvers then sfail (NotApproved approver)
           else sreturn ()
       | None \<Rightarrow> sreturn ())"

definition check_input_asset :: "asset_transfer_input \<Rightarrow> address \<Rightarrow> address list \<Rightarrow>
    (owned_asset \<times> bool) shard_op" where
  "check_input_asset input sender approvers =
     (let p = in_prev_out input; sid = op_shard_id p in
      sbind (sget sl_shard_id) (\<lambda>own.
      sbind (sassert ''self.shard_id == shard_id'' (own = sid)) (\<lambda>_.
      sbind (approved_by_registrar (op_asset_type p) sender approvers) (\<lambda>by_regulator.
      sbind (if by_regulator then sreturn () else check_approver input sender approvers) (\<lambda>_.
      sbind (asset_of (op_tracker p) (op_index p)) (\<lambda>found.
      sbind (slift (ok_or (AssetNotFound sid (op_tracker p) (op_index p)) found)) (\<lambda>a.
      if quantity a \<noteq> op_quantity p then
        sfail (InvalidAssetQuantity sid (op_tracker p) (op_index p) (quantity a) (op_quantity p))
      else if asset_type a \<noteq> op_asset_type p then
        sfail (UnexpectedAssetType (op_index p) (asset_type a) (op_asset_type p))
      else sreturn (a, by_regulator))))))))"

definition check_output_script_hash :: "asset_transfer_output \<Rightarrow> address \<Rightarrow> address list \<Rightarrow> unit shard_op" where
  "check_output_script_hash out sender approvers =
     sbind (sget sl_shard_id) (\<lambda>own.
     sbind (sassert ''self.shard_id == output.shard_id'' (own = out_shard_id out)) (\<lambda>_.
     sbind (get_scheme_or_fail (out_asset_type out)) (\<lambda>sc.
       if (case as_registrar sc of
             Some registrar \<Rightarrow> sender = registrar \<or> registrar \<in> set approvers
           | None \<Rightarrow> False) then sreturn ()
       else if is_allowed_script_hash (out_lock_script_hash out) sc then sreturn ()
       else sfail (ScriptNotAllowed (out_lock_script_hash out)))))"

text \<open>What the scripts are run on: the hash of the transaction, or of the order.\<close>

definition input_env :: "shard_lib \<Rightarrow> shard_transaction \<Rightarrow> asset_order option \<Rightarrow>
    asset_transfer_input \<Rightarrow> bool \<Rightarrow> vm_env" where
  "input_env lib t ord input burn =
     (lib_vm lib)\<lparr>env_hash_partially := (case ord of
         None \<Rightarrow> shard_hash_partially (lib_hash_with_tag lib) t
       | Some ord' \<Rightarrow> order_hash_partially (lib_order_hash lib) ord'),
       env_cur := input, env_burn := burn\<rparr>"

fun judge_script :: "(runtime_error, script_result) result \<Rightarrow> bool \<Rightarrow> (unlock_failure, unit) result" where
  "judge_script (Inr Burnt) True = Ok ()"
| "judge_script (Inr Burnt) False = Error ScriptShouldBeBurnt"
| "judge_script (Inr Unlocked) False = Ok ()"
| "judge_script (Inr Unlocked) True = Error ScriptShouldNotBeBurnt"
| "judge_script (Inr ScriptFail) _ = Error ScriptError"
| "judge_script (Inl (Err _)) _ = Error ScriptError"
| "judge_script (Inl (Panic m)) _ = Panics m"

definition run_input_script :: "shard_lib \<Rightarrow> asset_transfer_input \<Rightarrow> shard_transaction \<Rightarrow>
    asset_order option \<Rightarrow> bool \<Rightarrow> shard_id \<Rightarrow> owned_asset \<Rightarrow> (state_error, unit) result" where
  "run_input_script lib input t ord burn sid a =
     (let h = env_blake160 (lib_vm lib) (in_lock_script input) in
      if oa_lock_script_hash a \<noteq> h then Error (ScriptHashMismatch (oa_lock_script_hash a) h)
      else case (decode (in_lock_script input), decode (in_unlock_script input)) of
          (Inr lock, Inr unlock) \<Rightarrow>
            map_err (FailedToUnlock sid (op_tracker (in_prev_out input)) (op_index (in_prev_out input)))
              (judge_script
                (execute (input_env lib t ord input burn) default_max_memory unlock
                  (oa_parameters a) lock) burn)
        | _ \<Rightarrow> Error InvalidScript)"

definition check_and_run_input_script :: "shard_lib \<Rightarrow> asset_transfer_input \<Rightarrow> shard_transaction \<Rightarrow>
    asset_order option \<Rightarrow> bool \<Rightarrow> address \<Rightarrow> address list \<Rightarrow> unit shard_op" where
  "check_and_run_input_script lib input t ord burn sender approvers =
     sbind (check_input_asset input sender approvers) (\<lambda>(a, from_regulator).
       if from_regulator then sreturn ()
       else if (case (ord, oa_order_hash a) of
                  (Some ord', Some h) \<Rightarrow> h = lib_order_hash lib ord'
                | _ \<Rightarrow> False) then sreturn ()
       else sbind (sget sl_shard_id) (\<lambda>sid. slift (run_input_script lib input t ord burn sid a)))"

section \<open>Minting, changing and increasing\<close>

definition mint_asset :: "shard_lib \<Rightarrow> h256 \<Rightarrow> bytes \<Rightarrow> asset_mint_output \<Rightarrow> address option \<Rightarrow>
    address list \<Rightarrow> address option \<Rightarrow> h160 list \<Rightarrow> address \<Rightarrow> address list \<Rightarrow> asset_item list \<Rightarrow>
    unit shard_op" where
  "mint_asset lib tracker metadata out approver approvers registrar allowed sender shard_users pool =
     (if shard_users \<noteq> [] \<and> set shard_users \<inter> set (sender # approvers) = {}
      then sfail InsufficientPermission
      else let ty = lib_asset_type lib tracker in
        sbind (asset_scheme_of ty) (\<lambda>old.
        sbind (sget sl_shard_id) (\<lambda>sid.
        if old \<noteq> None then sfail (AssetSchemeDuplicated tracker sid)
        else sbind (create_asset_scheme ty
               (new_with_pool metadata (mo_supply out) approver registrar allowed pool)) (\<lambda>_.
             create_asset tracker 0
               (owned_asset_new ty (mo_lock_script_hash out) (mo_parameters out) (mo_supply out) None)))))"

definition change_asset_scheme :: "address \<Rightarrow> address list \<Rightarrow> h160 \<Rightarrow> nat \<Rightarrow> bytes \<Rightarrow> address option \<Rightarrow>
    address option \<Rightarrow> h160 list \<Rightarrow> unit shard_op" where
  "change_asset_scheme sender approvers ty seq metadata approver registrar allowed =
     sbind (approved_by_registrar ty sender approvers) (\<lambda>approved.
       if \<not> approved then sfail InsufficientPermission
       else sbind (get_asset_scheme_mut ty) (\<lambda>sc.
         if as_seq sc \<noteq> seq then
           sbind (sget sl_shard_id) (\<lambda>sid. sfail (InvalidSeqOfAssetScheme ty sid (as_seq sc) seq))
         else set_scheme ty (increase_seq (change_data metadata approver registrar allowed sc))))"

definition increase_asset_supply :: "h256 \<Rightarrow> nat \<Rightarrow> address \<Rightarrow> address list \<Rightarrow> h160 \<Rightarrow>
    asset_mint_output \<Rightarrow> unit shard_op" where
  "increase_asset_supply tracker seq sender approvers ty out =
     sbind (approved_by_registrar ty sender approvers) (\<lambda>approved.
       if \<not> approved then sfail InsufficientPermission
       else sbind (sassert ''Supply increasing quantity must be specified and greater than 0''
                    (mo_supply out > 0)) (\<lambda>_.
         sbind (get_asset_scheme_mut ty) (\<lambda>sc.
         if seq \<noteq> as_seq sc then
           sbind (sget sl_shard_id) (\<lambda>sid. sfail (InvalidSeqOfAssetScheme ty sid (as_seq sc) seq))
         else sbind (slift (increase_supply (mo_supply out) sc)) (\<lambda>sc'.
           sbind (set_scheme ty (increase_seq sc')) (\<lambda>_.
           create_asset tracker 0
             (owned_asset_new ty (mo_lock_script_hash out) (mo_parameters out) (mo_supply out) None))))))"

section \<open>Transfers\<close>

text \<open>\<open>vec[idx] = v\<close> for each of the indices; out of range it panics.\<close>

fun set_indices :: "'a \<Rightarrow> nat list \<Rightarrow> 'a list \<Rightarrow> ('e, 'a list) result" where
  "set_indices v [] xs = Ok xs"
| "set_indices v (i # is) xs =
     (if i < length xs then set_indices v is (xs[i := v]) else Panics ''index out of bounds'')"

definition values_to_hash :: "order_on_transfer list \<Rightarrow> nat \<Rightarrow>
    ('e, asset_order option list) result" where
  "values_to_hash orders n =
     rfold (\<lambda>ot. set_indices (Some (ot_order ot)) (order_inputs ot)) orders (replicate n None)"

text \<open>The consumed order is hashed once per index; without an index it is not computed.\<close>

definition mark_outputs :: "shard_lib \<Rightarrow> order_on_transfer \<Rightarrow> h256 option list \<Rightarrow>
    ('e, h256 option list) result" where
  "mark_outputs lib ot hs =
     (if order_outputs ot = [] then Ok hs
      else rbind (order_consume (spent_quantity ot) (ot_order ot)) (\<lambda>ord.
        set_indices (Some (lib_order_hash lib ord)) (order_outputs ot) hs))"

definition output_order_hashes :: "shard_lib \<Rightarrow> order_on_transfer list \<Rightarrow> nat \<Rightarrow>
    ('e, h256 option list) result" where
  "output_order_hashes lib orders n = rfold (mark_outputs lib) orders (replicate n None)"

fun count_origins :: "shard_lib \<Rightarrow> asset_order \<Rightarrow> asset_transfer_input list \<Rightarrow> nat list \<Rightarrow> nat \<Rightarrow>
    nat shard_op" where
  "count_origins lib ord inputs [] counter = sreturn counter"
| "count_origins lib ord inputs (i # is) counter =
     sbind (slift (at inputs i)) (\<lambda>input.
     sbind (sget sl_shard_id) (\<lambda>sid.
     let p = in_prev_out input in
     if op_shard_id p \<noteq> sid then count_origins lib ord inputs is counter
     else sbind (asset_of (op_tracker p) (op_index p)) (\<lambda>found.
       sbind (slift (ok_or (AssetNotFound sid (op_tracker p) (op_index p)) found)) (\<lambda>a.
       if oa_order_hash a = Some (lib_order_hash lib ord) then count_origins lib ord inputs is counter
       else if p \<in> set (origin_outputs ord) then count_origins lib ord inputs is (counter + 1)
       else sfail (InvalidOriginOutputs (lib_order_hash lib ord))))))"

definition check_order :: "shard_lib \<Rightarrow> asset_transfer_input list \<Rightarrow> order_on_transfer \<Rightarrow> unit shard_op" where
  "check_order lib inputs ot =
     sbind (count_origins lib (ot_order ot) inputs (order_inputs ot) 0) (\<lambda>counter.
       if counter > 0 \<and> counter \<noteq> length (origin_outputs (ot_order ot))
       then sfail (InvalidOriginOutputs (lib_order_hash lib (ot_order ot)))
       else sreturn ())"

definition check_orders :: "shard_lib \<Rightarrow> order_on_transfer list \<Rightarrow> asset_transfer_input list \<Rightarrow> unit shard_op" where
  "check_orders lib orders inputs = sforeach orders (check_order lib inputs)"

text \<open>The loops skip what belongs to another shard.\<close>

definition in_this_shard :: "shard_id \<Rightarrow> unit shard_op \<Rightarrow> unit shard_op" where
  "in_this_shard sid m = sbind (sget sl_shard_id) (\<lambda>own. if sid \<noteq> own then sreturn () else m)"

definition kill_input :: "asset_transfer_input \<Rightarrow> unit shard_op" where
  "kill_input input = in_this_shard (input_shard input)
     (kill_asset (op_tracker (in_prev_out input)) (op_index (in_prev_out input)))"

definition create_output :: "h256 \<Rightarrow> address \<Rightarrow> address list \<Rightarrow>
    nat \<times> asset_transfer_output \<times> h256 option \<Rightarrow> unit shard_op" where
  "create_output tracker sender approvers = (\<lambda>(index, out, oh).
     in_this_shard (out_shard_id out)
       (sbind (check_output_script_hash out sender approvers) (\<lambda>_.
        create_asset tracker index
          (owned_asset_new (out_asset_type out) (out_lock_script_hash out) (out_parameters out)
            (out_quantity out) oh))))"

definition burn_supply :: "asset_transfer_input \<Rightarrow> unit shard_op" where
  "burn_supply b = in_this_shard (input_shard b)
     (sbind (get_asset_scheme_mut (op_asset_type (in_prev_out b))) (\<lambda>sc.
      sbind (slift (reduce_supply (op_quantity (in_prev_out b)) sc)) (\<lambda>sc'.
      set_scheme (op_asset_type (in_prev_out b)) sc')))"

definition check_spent :: "shard_lib \<Rightarrow> shard_transaction \<Rightarrow> address \<Rightarrow> address list \<Rightarrow>
    asset_transfer_input \<times> asset_order option \<times> bool \<Rightarrow> unit shard_op" where
  "check_spent lib t sender approvers = (\<lambda>(input, ord, burn).
     in_this_shard (input_shard input)
       (check_and_run_input_script lib input t ord burn sender approvers))"

definition transfer_asset :: "shard_lib \<Rightarrow> shard_transaction \<Rightarrow> address \<Rightarrow> address list \<Rightarrow>
    asset_transfer_input list \<Rightarrow> asset_transfer_input list \<Rightarrow> asset_transfer_output list \<Rightarrow>
    order_on_transfer list \<Rightarrow> unit shard_op" where
  "transfer_asset lib t sender approvers burns inputs outputs orders =
     sbind (slift (values_to_hash orders (length inputs))) (\<lambda>values.
     sbind (sforeach (map (\<lambda>(input, ord). (input, ord, False)) (zip inputs values) @
                      map (\<lambda>b. (b, None, True)) burns) (check_spent lib t sender approvers)) (\<lambda>_.
     sbind (check_orders lib orders inputs) (\<lambda>_.
     sbind (slift (output_order_hashes lib orders (length outputs))) (\<lambda>hashes.
     sbind (sforeach (inputs @ burns) kill_input) (\<lambda>_.
     sbind (sforeach (zip [0..<length outputs] (zip outputs hashes))
              (create_output (tracker_of lib t) sender approvers)) (\<lambda>_.
     sforeach burns burn_supply))))))"

section \<open>Composing and decomposing\<close>

definition add_quantity_to :: "'k::linorder \<Rightarrow> u64 \<Rightarrow> ('k, u64) btree_map \<Rightarrow> ('k, u64) btree_map" where
  "add_quantity_to k q m = bmap_insert k ((case bmap_get m k of None \<Rightarrow> 0 | Some w \<Rightarrow> w) + q) m"

fun compose_inputs :: "shard_lib \<Rightarrow> shard_transaction \<Rightarrow> address \<Rightarrow> address list \<Rightarrow>
    asset_transfer_input list \<Rightarrow> (h160, u64) btree_map \<Rightarrow> (h160, u64) btree_map shard_op" where
  "compose_inputs lib t sender approvers [] pool = sreturn pool"
| "compose_inputs lib t sender approvers (input # inputs) pool =
     sbind (sget sl_shard_id) (\<lambda>sid. let p = in_prev_out input in
     if op_shard_id p \<noteq> sid then compose_inputs lib t sender approvers inputs pool
     else sbind (check_and_run_input_script lib input t None False sender approvers) (\<lambda>_.
       sbind (get_scheme_or_fail (op_asset_type p)) (\<lambda>sc.
       if is_regulated sc then sfail CannotComposeRegulatedAsset
       else sbind (kill_asset (op_tracker p) (op_index p)) (\<lambda>_.
         compose_inputs lib t sender approvers inputs
           (add_quantity_to (op_asset_type p) (op_quantity p) pool)))))"

definition compose_asset :: "shard_lib \<Rightarrow> shard_transaction \<Rightarrow> bytes \<Rightarrow> address option \<Rightarrow>
    address option \<Rightarrow> h160 list \<Rightarrow> asset_transfer_input list \<Rightarrow> asset_mint_output \<Rightarrow> address \<Rightarrow>
    address list \<Rightarrow> address list \<Rightarrow> shard_id \<Rightarrow> unit shard_op" where
  "compose_asset lib t metadata approver registrar allowed inputs out sender approvers shard_users
       out_sid =
     sbind (compose_inputs lib t sender approvers inputs []) (\<lambda>pool.
     in_this_shard out_sid
       (mint_asset lib (tracker_of lib t) metadata out approver approvers registrar allowed sender
         shard_users (map (\<lambda>(ty, q). \<lparr>asset_type = ty, quantity = q\<rparr>) pool)))"

fun match_pool :: "shard_id \<Rightarrow> asset_item list \<Rightarrow> (h160, u64) btree_map \<Rightarrow>
    (state_error, (h160, u64) btree_map) result" where
  "match_pool sid [] sums = Ok sums"
| "match_pool sid (a # pool) sums = (case bmap_get sums (asset_type a) of
     None \<Rightarrow> Error (InvalidDecomposedOutput (asset_type a) sid (quantity a) 0)
   | Some value \<Rightarrow>
       if value \<noteq> quantity a
       then Error (InvalidDecomposedOutput (asset_type a) sid (quantity a) value)
       else match_pool sid pool (bmap_remove (asset_type a) sums))"

definition check_decomposed :: "shard_id \<Rightarrow> h160 \<Rightarrow> shard_id \<Rightarrow> asset_scheme \<Rightarrow>
    asset_transfer_output list \<Rightarrow> (state_error, unit) result" where
  "check_decomposed own ty sid sc outputs =
     (if as_pool sc = [] then Error (InvalidDecomposedInput ty sid 0)
      else rbind (match_pool own (as_pool sc)
          (foldl (\<lambda>m out. add_quantity_to (out_asset_type out) (out_quantity out) m) [] outputs))
        (\<lambda>rest. if rest = [] then Ok ()
           else Error (InvalidDecomposedOutput (fst (last rest)) own 0 (snd (last rest)))))"

definition decompose_asset :: "shard_lib \<Rightarrow> shard_transaction \<Rightarrow> asset_transfer_input \<Rightarrow>
    asset_transfer_output list \<Rightarrow> address \<Rightarrow> address list \<Rightarrow> unit shard_op" where
  "decompose_asset lib t input outputs sender approvers =
     (let p = in_prev_out input in
      sbind (in_this_shard (op_shard_id p)
        (sbind (get_scheme_or_fail (op_asset_type p)) (\<lambda>sc.
         sbind (slift (check_decomposed (op_shard_id p) (op_asset_type p) (op_shard_id p) sc outputs)) (\<lambda>_.
         sbind (check_and_run_input_script lib input t None False sender approvers) (\<lambda>_.
         sbind (kill_asset (op_tracker p) (op_index p)) (\<lambda>_.
         sbind (get_asset_scheme_mut (op_asset_type p)) (\<lambda>sc'.
         sbind (slift (reduce_supply (op_quantity p) sc')) (\<lambda>sc''.
         set_scheme (op_asset_type p) sc'')))))))) (\<lambda>_.
      sforeach (zip [0..<length outputs] (zip outputs (replicate (length outputs) None)))
        (create_output (tracker_of lib t) sender approvers)))"

section \<open>Wrapped CCC\<close>

definition wrap_ccc :: "h256 \<Rightarrow> h160 \<Rightarrow> bytes list \<Rightarrow> u64 \<Rightarrow> unit shard_op" where
  "wrap_ccc tx_hash lsh params q =
     sbind (asset_scheme_of 0) (\<lambda>old.
     sbind (if old = None then create_asset_scheme 0 (new_with_pool [] 0 None None [] [])
            else sreturn ()) (\<lambda>_.
     sbind (get_asset_scheme_mut 0) (\<lambda>sc.
     sbind (slift (increase_supply q sc)) (\<lambda>sc'.
     sbind (set_scheme 0 sc') (\<lambda>_.
     create_asset tx_hash 0 (owned_asset_new 0 lsh params q None))))))"

definition unwrap_ccc :: "shard_lib \<Rightarrow> shard_transaction \<Rightarrow> address \<Rightarrow> asset_transfer_input \<Rightarrow> unit shard_op" where
  "unwrap_ccc lib t sender b =
     sbind (check_and_run_input_script lib b t None True sender []) (\<lambda>_.
     sbind (kill_asset (op_tracker (in_prev_out b)) (op_index (in_prev_out b))) (\<lambda>_.
     sbind (get_asset_scheme_mut 0) (\<lambda>sc.
     sbind (slift (reduce_supply (op_quantity (in_prev_out b)) sc)) (\<lambda>sc'.
     set_scheme 0 sc'))))"

section \<open>Applying a transaction\<close>

definition assert_shard :: "shard_id \<Rightarrow> unit shard_op" where
  "assert_shard sid = sbind (sget sl_shard_id) (\<lambda>own. sassert ''shard_id == self.shard_id'' (sid = own))"

fun shard_apply_internal :: "shard_lib \<Rightarrow> shard_transaction \<Rightarrow> address \<Rightarrow> address list \<Rightarrow>
    address list \<Rightarrow> unit shard_op" where
  "shard_apply_internal lib (ShardMintAsset n sid metadata approver registrar allowed out) sender
       shard_users approvers =
     sbind (assert_shard sid) (\<lambda>_.
     mint_asset lib (tracker_of lib (ShardMintAsset n sid metadata approver registrar allowed out))
       metadata out approver approvers registrar allowed sender shard_users [])"
| "shard_apply_internal lib (ShardTransferAsset n burns inputs outputs orders) sender shard_users
       approvers =
     transfer_asset lib (ShardTransferAsset n burns inputs outputs orders) sender approvers burns
       inputs outputs orders"
| "shard_apply_internal lib (ShardChangeAssetScheme n sid ty seq metadata approver registrar allowed)
       sender shard_users approvers =
     sbind (assert_shard sid) (\<lambda>_.
     change_asset_scheme sender approvers ty seq metadata approver registrar allowed)"
| "shard_apply_internal lib (ShardIncreaseAssetSupply n sid ty seq out) sender shard_users approvers =
     sbind (assert_shard sid) (\<lambda>_.
     increase_asset_supply (tracker_of lib (ShardIncreaseAssetSupply n sid ty seq out)) seq sender
       approvers ty out)"
| "shard_apply_internal lib (ShardComposeAsset n sid metadata approver registrar allowed inputs out)
       sender shard_users approvers =
     compose_asset lib (ShardComposeAsset n sid metadata approver registrar allowed inputs out)
       metadata approver registrar allowed inputs out sender approvers shard_users sid"
| "shard_apply_internal lib (ShardDecomposeAsset n input outputs) sender shard_users approvers =
     decompose_asset lib (ShardDecomposeAsset n input outputs) input outputs sender approvers"
| "shard_apply_internal lib (ShardUnwrapCCC n b receiver) sender shard_users approvers =
     sbind (assert_shard (input_shard b)) (\<lambda>_.
     unwrap_ccc lib (ShardUnwrapCCC n b receiver) sender b)"
| "shard_apply_internal lib (ShardWrapCCC n sid tx_hash out) sender shard_users approvers =
     sbind (assert_shard sid) (\<lambda>_.
     wrap_ccc tx_hash (wo_lock_script_hash out) (wo_parameters out) (wo_quantity out))"

definition shard_apply :: "shard_lib \<Rightarrow> shard_transaction \<Rightarrow> address \<Rightarrow> address list \<Rightarrow>
    address list \<Rightarrow> unit shard_op" where
  "shard_apply lib t sender shard_users approvers =
     sbind (create_checkpoint TRANSACTION_CHECKPOINT) (\<lambda>_ s.
       case shard_apply_internal lib t sender shard_users approvers s of
         (Inr _, s') \<Rightarrow> discard_checkpoint TRANSACTION_CHECKPOINT s'
       | (Inl (Err e), s') \<Rightarrow>
           sbind (revert_to_checkpoint TRANSACTION_CHECKPOINT) (\<lambda>_. sfail e) s'
       | (Inl (Panic m), s') \<Rightarrow> (Inl (Panic m), s'))"

end
