(* ===== verification/Shard_Ledger.thy ===== *)
theory Shard_Ledger
  imports Shard_State Tx_Verified
begin

text \<open>
  What holds of the state of a shard: a refused transaction leaves no trace, what a transfer
  spends is there and unlocked, every verified transaction keeps the supply of each asset equal
  to what is held of it, and where the code panics.
\<close>

section \<open>What the operations leave alone\<close>

lemmas check_defs = asset_scheme_of_def asset_of_def get_scheme_or_fail_def approved_by_registrar_def
  check_approver_def check_input_asset_def check_output_script_hash_def

lemma reads_case_option [reading]:
  "reads m \<Longrightarrow> (\<And>x. reads (f x)) \<Longrightarrow> reads (case o' of None \<Rightarrow> m | Some x \<Rightarrow> f x)"
  by (cases o') simp_all

lemma reads_case_prod [reading]: "(\<And>x y. reads (f x y)) \<Longrightarrow> reads (case p of (x, y) \<Rightarrow> f x y)"
  by (cases p) simp

lemma reads_checks [reading]:
  "reads (asset_scheme_of ty)" "reads (asset_of tr i)" "reads (get_scheme_or_fail ty)"
  "reads (approved_by_registrar ty sender approvers)" "reads (check_approver input sender approvers)"
  "reads (check_output_script_hash out sender approvers)"
  unfolding check_defs by (intro reading)+

lemma reads_check_input_asset [reading]: "reads (check_input_asset input sender approvers)"
  unfolding check_input_asset_def Let_def by (intro reading)

lemma reads_check_and_run [reading]:
  "reads (check_and_run_input_script lib input t ord burn sender approvers)"
  unfolding check_and_run_input_script_def by (intro reading)

lemma reads_in_this_shard [reading]: "reads m \<Longrightarrow> reads (in_this_shard sid m)"
  unfolding in_this_shard_def by (intro reading)

lemma reads_check_spent [reading]: "reads (check_spent lib t sender approvers x)"
  unfolding check_spent_def by (intro reading)

lemma reads_count_origins [reading]: "reads (count_origins lib ord inputs is counter)"
  by (induction "is" arbitrary: counter) (auto simp: Let_def intro!: reading)

lemma reads_check_orders [reading]: "reads (check_orders lib orders inputs)"
  unfolding check_orders_def check_order_def by (intro reading)

definition frame :: "shard_id \<Rightarrow> (scheme_map \<times> asset_map) list \<Rightarrow> nat list \<Rightarrow> shard_level \<Rightarrow> bool" where
  "frame sid snaps ids s \<longleftrightarrow> sl_shard_id s = sid \<and> sl_snaps s = snaps \<and> id_of_checkpoints s = ids"

lemmas checks_preserve [preserving] = reads_checks [THEN reads_preserves]
  reads_check_input_asset [THEN reads_preserves] reads_check_and_run [THEN reads_preserves]
  reads_check_spent [THEN reads_preserves] reads_check_orders [THEN reads_preserves]

lemma frame_writes [preserving]:
  "preserves (frame sid snaps ids) (kill_asset tr i)"
  "preserves (frame sid snaps ids) (set_scheme ty sc)"
  by (simp_all add: kill_asset_def set_scheme_def preserves_def frame_def)

lemma frame_creates [preserving]:
  "preserves (frame sid snaps ids) (create_asset_scheme ty sc)"
  "preserves (frame sid snaps ids) (create_asset tr i a)"
  "preserves (frame sid snaps ids) (get_asset_scheme_mut ty)"
  unfolding create_asset_scheme_def create_asset_def get_asset_scheme_mut_def Let_def
  by (auto intro!: preserving preserves_smodify simp: frame_def)

lemma frame_in_this_shard [preserving]:
  "preserves (frame sid snaps ids) m \<Longrightarrow> preserves (frame sid snaps ids) (in_this_shard k m)"
  unfolding in_this_shard_def by (intro preserving)

lemma frame_loops [preserving]:
  "preserves (frame sid snaps ids) (kill_input input)"
  "preserves (frame sid snaps ids) (create_output tr sender approvers x)"
  "preserves (frame sid snaps ids) (burn_supply b)"
  unfolding kill_input_def create_output_def burn_supply_def
  by (auto intro!: preserving split: prod.split)

lemma frame_ops [preserving]:
  "preserves (frame sid snaps ids) (mint_asset lib tr md' out approver approvers registrar allowed sender users pool)"
  "preserves (frame sid snaps ids) (change_asset_scheme sender approvers ty seq md' approver registrar allowed)"
  "preserves (frame sid snaps ids) (increase_asset_supply tr seq sender approvers ty out)"
  "preserves (frame sid snaps ids) (transfer_asset lib t sender approvers burns inputs outputs orders)"
  "preserves (frame sid snaps ids) (decompose_asset lib t input outputs sender approvers)"
  "preserves (frame sid snaps ids) (wrap_ccc h lsh params q)"
  "preserves (frame sid snaps ids) (unwrap_ccc lib t sender b)"
  unfolding mint_asset_def change_asset_scheme_def increase_asset_supply_def transfer_asset_def
    decompose_asset_def wrap_ccc_def unwrap_ccc_def Let_def
  by (intro preserving)+

lemma frame_compose_inputs [preserving]:
  "preserves (frame sid snaps ids) (compose_inputs lib t sender approvers inputs pool)"
  by (induction inputs arbitrary: pool) (auto simp: Let_def intro!: preserving)

lemma frame_compose [preserving]:
  "preserves (frame sid snaps ids)
     (compose_asset lib t md' approver registrar allowed inputs out sender approvers users k)"
  unfolding compose_asset_def by (intro preserving)

lemma frame_apply_internal:
  "preserves (frame sid snaps ids) (shard_apply_internal lib t sender users approvers)"
  by (cases t) (auto simp: assert_shard_def intro!: preserving)

section \<open>A refused transaction leaves no trace\<close>

lemma pop_own_checkpoint:
  "id_of_checkpoints s = ids @ [i] \<Longrightarrow>
     pop_checkpoint i s = (Inr (), s\<lparr>id_of_checkpoints := ids\<rparr>)"
  by (simp add: pop_checkpoint_def)

lemma shard_apply_cases:
  assumes "shard_apply lib t sender users approvers s = (r, s')"
  obtains x u where "shard_apply_internal lib t sender users approvers (snd (create_checkpoint 456 s)) = (Inr x, u)"
      "r = Inr ()" "s' = s\<lparr>sl_schemes := sl_schemes u, sl_assets := sl_assets u\<rparr>"
    | e where "r = Inl (Err e)" "s' = s"
    | p where "r = Inl (Panic p)"
        "fst (shard_apply_internal lib t sender users approvers (snd (create_checkpoint 456 s))) = Inl (Panic p)"
proof -
  let ?c = "snd (create_checkpoint 456 s)"
  obtain r' u where u: "shard_apply_internal lib t sender users approvers ?c = (r', u)" by force
  have "frame (sl_shard_id s) ((sl_schemes s, sl_assets s) # sl_snaps s) (id_of_checkpoints s @ [456]) ?c"
    by (simp add: frame_def create_checkpoint_def)
  then have "frame (sl_shard_id s) ((sl_schemes s, sl_assets s) # sl_snaps s) (id_of_checkpoints s @ [456]) u"
    by (rule preservesD [OF frame_apply_internal _ u])
  then have fr: "sl_shard_id u = sl_shard_id s" "sl_snaps u = (sl_schemes s, sl_assets s) # sl_snaps s"
    "id_of_checkpoints u = id_of_checkpoints s @ [456]"
    by (simp_all add: frame_def)
  have run: "shard_apply lib t sender users approvers s = (case (r', u) of
         (Inr _, s') \<Rightarrow> discard_checkpoint TRANSACTION_CHECKPOINT s'
       | (Inl (Err e), s') \<Rightarrow>
           sbind (revert_to_checkpoint TRANSACTION_CHECKPOINT) (\<lambda>_. sfail e) s'
       | (Inl (Panic m), s') \<Rightarrow> (Inl (Panic m), s'))"
    using u by (simp add: shard_apply_def create_checkpoint_def TRANSACTION_CHECKPOINT_def)
  show ?thesis
  proof (cases r')
    case (Inr x)
    with run assms fr have "r = Inr ()" "s' = s\<lparr>sl_schemes := sl_schemes u, sl_assets := sl_assets u\<rparr>"
      by (simp_all add: TRANSACTION_CHECKPOINT_def discard_checkpoint_def sbind_apply pop_own_checkpoint)
    with u Inr show ?thesis by (intro that(1)) simp_all
  next
    case (Inl f)
    show ?thesis
    proof (cases f)
      case (Err e)
      with Inl run assms fr have "r = Inl (Err e)" "s' = s"
        by (simp_all add: TRANSACTION_CHECKPOINT_def revert_to_checkpoint_def sbind_apply pop_own_checkpoint)
      then show ?thesis by (rule that(2))
    next
      case (Panic p)
      with Inl run assms u show ?thesis by (intro that(3)) simp_all
    qed
  qed
qed

text \<open>
  C20: a shard transaction is all or nothing. Whatever the transaction and wherever in its
  execution an error occurs, the shard is left exactly as it was: schemes, assets and the
  checkpoints of the caller.
\<close>

theorem shard_apply_error_unchanged:
  assumes "shard_apply lib t sender users approvers s = (Error e, s')"
  shows "s' = s"
  using assms by (rule shard_apply_cases) simp_all

section \<open>Who may spend\<close>

definition registrar_signed :: "shard_level \<Rightarrow> h160 \<Rightarrow> address list \<Rightarrow> bool" where
  "registrar_signed s ty signers \<longleftrightarrow>
     (\<exists>sc r. sl_schemes s ty = Some sc \<and> as_registrar sc = Some r \<and> r \<in> set signers)"

definition approver_signed :: "shard_level \<Rightarrow> h160 \<Rightarrow> address list \<Rightarrow> bool" where
  "approver_signed s ty signers \<longleftrightarrow>
     (\<exists>sc. sl_schemes s ty = Some sc \<and> (\<forall>ap. as_approver sc = Some ap \<longrightarrow> ap \<in> set signers))"

definition scripts_unlock :: "shard_lib \<Rightarrow> shard_transaction \<Rightarrow> asset_order option \<Rightarrow> bool \<Rightarrow>
    asset_transfer_input \<Rightarrow> owned_asset \<Rightarrow> bool" where
  "scripts_unlock lib t ord burn input a \<longleftrightarrow>
     oa_lock_script_hash a = env_blake160 (lib_vm lib) (in_lock_script input) \<and>
     (\<exists>lock unlock. decode (in_lock_script input) = Ok lock \<and> decode (in_unlock_script input) = Ok unlock \<and>
        execute (input_env lib t ord input burn) default_max_memory unlock (oa_parameters a) lock =
          Ok (if burn then Burnt else Unlocked))"

definition stored_as :: "shard_level \<Rightarrow> asset_out_point \<Rightarrow> owned_asset \<Rightarrow> bool" where
  "stored_as s p a \<longleftrightarrow> sl_assets s (op_tracker p, op_index p) = Some a \<and>
     asset_type a = op_asset_type p \<and> quantity a = op_quantity p"

text \<open>An input may be spent when the registrar of the asset signed, or when the approver (if
  there is one) signed and either the scripts unlock it or it was left over from a partial fill
  of the same order.\<close>

definition may_spend :: "shard_lib \<Rightarrow> shard_level \<Rightarrow> shard_transaction \<Rightarrow> address list \<Rightarrow>
    asset_transfer_input \<Rightarrow> asset_order option \<Rightarrow> bool \<Rightarrow> bool" where
  "may_spend lib s t signers input ord burn \<longleftrightarrow>
     (\<exists>a. stored_as s (in_prev_out input) a \<and>
       (registrar_signed s (asset_type a) signers \<or>
        approver_signed s (asset_type a) signers \<and>
          (scripts_unlock lib t ord burn input a \<or>
           (\<exists>ord'. ord = Some ord' \<and> oa_order_hash a = Some (lib_order_hash lib ord')))))"

lemma judge_script_Ok: "judge_script r burn = Inr () \<longleftrightarrow> r = Ok (if burn then Burnt else Unlocked)"
  by (cases "(r, burn)" rule: judge_script.cases) auto

lemma run_input_script_Ok:
  "run_input_script lib input t ord burn sid a = Ok () \<longleftrightarrow> scripts_unlock lib t ord burn input a"
  by (auto simp: run_input_script_def scripts_unlock_def judge_script_Ok Let_def split: sum.splits)

lemma get_scheme_or_fail_run:
  "get_scheme_or_fail ty s = (case sl_schemes s ty of
     None \<Rightarrow> (Inl (Err (AssetSchemeNotFound ty (sl_shard_id s))), s) | Some sc \<Rightarrow> (Inr sc, s))"
  by (simp add: get_scheme_or_fail_def asset_scheme_of_def split: option.split)

lemma approved_by_registrar_run:
  "approved_by_registrar ty sender approvers s = (case sl_schemes s ty of
     None \<Rightarrow> (Inl (Err (AssetSchemeNotFound ty (sl_shard_id s))), s)
   | Some sc \<Rightarrow> (Inr (registrar_signed s ty (sender # approvers)), s))"
  by (auto simp: approved_by_registrar_def sbind_apply get_scheme_or_fail_run registrar_signed_def
      split: option.split)

lemma check_approver_run:
  "check_approver input sender approvers s = (case sl_schemes s (op_asset_type (in_prev_out input)) of
     None \<Rightarrow> (Inl (Err (AssetSchemeNotFound (op_asset_type (in_prev_out input)) (sl_shard_id s))), s)
   | Some sc \<Rightarrow> if approver_signed s (op_asset_type (in_prev_out input)) (sender # approvers)
       then (Inr (), s) else (Inl (Err (NotApproved (the (as_approver sc)))), s))"
  by (auto simp: check_approver_def sbind_apply get_scheme_or_fail_run approver_signed_def
      split: option.splits if_splits)

lemma check_input_asset_Ok:
  "check_input_asset input sender approvers s = (Inr (a, reg), t) \<longleftrightarrow>
     t = s \<and> input_shard input = sl_shard_id s \<and> stored_as s (in_prev_out input) a \<and>
     sl_schemes s (asset_type a) \<noteq> None \<and>
     reg = registrar_signed s (asset_type a) (sender # approvers) \<and>
     (\<not> reg \<longrightarrow> approver_signed s (asset_type a) (sender # approvers))"
proof -
  note simps = check_input_asset_def Let_def sbind_apply approved_by_registrar_run asset_of_def
    stored_as_def
  show ?thesis
  proof (cases "input_shard input = sl_shard_id s")
    case True
    then show ?thesis
      by (auto simp: simps check_approver_run ok_or_def
          split: option.splits prod.splits sum.splits if_splits)
  next
    case False
    then show ?thesis by (auto simp: simps)
  qed
qed

lemma check_and_run_Ok:
  "check_and_run_input_script lib input t ord burn sender approvers s = (Inr (), s') \<longleftrightarrow>
     s' = s \<and> input_shard input = sl_shard_id s \<and>
     sl_schemes s (op_asset_type (in_prev_out input)) \<noteq> None \<and>
     may_spend lib s t (sender # approvers) input ord burn"
proof -
  have "check_and_run_input_script lib input t ord burn sender approvers s = (Inr (), s') \<longleftrightarrow>
     (\<exists>a reg. check_input_asset input sender approvers s = (Inr (a, reg), s) \<and> s' = s \<and>
       (reg \<or> (\<exists>ord'. ord = Some ord' \<and> oa_order_hash a = Some (lib_order_hash lib ord')) \<or>
        scripts_unlock lib t ord burn input a))"
  proof -
    obtain r u where run: "check_input_asset input sender approvers s = (r, u)" by force
    then have u: "u = s" by (rule readsD [OF reads_check_input_asset])
    show ?thesis
    proof (cases r)
      case (Inl f)
      with run show ?thesis by (simp add: check_and_run_input_script_def sbind_apply)
    next
      case (Inr x)
      obtain a reg where x: "x = (a, reg)" by force
      show ?thesis
        by (simp add: check_and_run_input_script_def sbind_apply run u Inr x split: option.split)
          (auto simp: run_input_script_Ok)
    qed
  qed
  then show ?thesis by (auto simp: check_input_asset_Ok may_spend_def stored_as_def)
qed

section \<open>The loops of a transfer\<close>

definition spent :: "shard_id \<Rightarrow> asset_transfer_input list \<Rightarrow> (h256 \<times> nat) set" where
  "spent sid is = prev_out_id ` {i \<in> set is. input_shard i = sid}"

lemma spent_simps [simp]:
  "spent sid [] = {}"
  "spent sid (i # is) = (if input_shard i = sid then insert (prev_out_id i) (spent sid is) else spent sid is)"
  by (auto simp: spent_def)

lemma kill_inputs_run:
  "sforeach is kill_input s =
     (Inr (), s\<lparr>sl_assets := (\<lambda>k. if k \<in> spent (sl_shard_id s) is then None else sl_assets s k)\<rparr>)"
proof (induction "is" arbitrary: s)
  case (Cons i "is")
  have kill: "kill_input i s = (Inr (), if input_shard i = sl_shard_id s
      then s\<lparr>sl_assets := (sl_assets s)(prev_out_id i := None)\<rparr> else s)"
    by (simp add: kill_input_def in_this_shard_def kill_asset_def)
  show ?case
    by (simp add: sbind_apply kill Cons.IH) (auto simp: fun_eq_iff intro!: arg_cong [where f = "\<lambda>a. s\<lparr>sl_assets := a\<rparr>"])
qed simp

definition output_item :: "asset_transfer_output \<Rightarrow> h256 option \<Rightarrow> owned_asset" where
  "output_item out oh = owned_asset_new (out_asset_type out) (out_lock_script_hash out)
     (out_parameters out) (out_quantity out) oh"

lemma output_item_simps [simp]:
  "asset_type (output_item out oh) = out_asset_type out"
  "quantity (output_item out oh) = out_quantity out"
  by (simp_all add: output_item_def owned_asset_new_def)

text \<open>The assets the outputs from index \<open>n\<close> on stand for.\<close>

fun created :: "shard_id \<Rightarrow> h256 \<Rightarrow> nat \<Rightarrow> (asset_transfer_output \<times> h256 option) list \<Rightarrow> asset_map" where
  "created sid tr n [] = Map.empty"
| "created sid tr n ((out, oh) # outs) =
     (if out_shard_id out = sid then (created sid tr (Suc n) outs)((tr, n) \<mapsto> output_item out oh)
      else created sid tr (Suc n) outs)"

lemma created_key: "created sid tr n outs k = Some a \<Longrightarrow> fst k = tr \<and> n \<le> snd k"
  by (induction sid tr n outs rule: created.induct) (auto split: if_splits)

lemma check_output_reads_ok:
  "check_output_script_hash out sender approvers s = (Inr u, v) \<Longrightarrow>
     v = s \<and> sl_schemes s (out_asset_type out) \<noteq> None \<and> out_shard_id out = sl_shard_id s"
proof -
  assume run: "check_output_script_hash out sender approvers s = (Inr u, v)"
  then have "v = s" by (rule readsD [OF reads_checks(6)])
  with run show ?thesis
    by (cases "sl_shard_id s = out_shard_id out")
      (auto simp: check_output_script_hash_def sbind_apply get_scheme_or_fail_run split: option.splits)
qed

lemma create_output_Ok:
  assumes "create_output tr sender approvers (n, out, oh) s = (Inr u, v)"
  shows "v = (if out_shard_id out = sl_shard_id s
      then s\<lparr>sl_assets := (sl_assets s)((tr, n) \<mapsto> output_item out oh)\<rparr> else s) \<and>
    (out_shard_id out = sl_shard_id s \<longrightarrow>
      sl_assets s (tr, n) = None \<and> sl_schemes s (out_asset_type out) \<noteq> None)"
proof (cases "out_shard_id out = sl_shard_id s")
  case True
  then obtain w x where chk: "check_output_script_hash out sender approvers s = (Inr x, w)"
    and cr: "create_asset tr n (output_item out oh) w = (Inr u, v)"
    using assms by (auto simp: create_output_def in_this_shard_def output_item_def elim!: sbind_OkE)
  have "w = s" "sl_schemes s (out_asset_type out) \<noteq> None" using check_output_reads_ok [OF chk] by auto
  with cr True show ?thesis
    by (cases "sl_assets s (tr, n)") (auto simp: create_asset_def asset_of_def)
next
  case False
  with assms show ?thesis by (simp add: create_output_def in_this_shard_def)
qed

lemma create_outputs_Ok:
  assumes "sforeach (zip [n..<n + length outs] outs) (create_output tr sender approvers) s = (Inr u, v)"
  shows "v = s\<lparr>sl_assets := sl_assets s ++ created (sl_shard_id s) tr n outs\<rparr> \<and>
    (\<forall>k\<in>dom (created (sl_shard_id s) tr n outs). sl_assets s k = None) \<and>
    (\<forall>(out, oh)\<in>set outs. out_shard_id out = sl_shard_id s \<longrightarrow> sl_schemes s (out_asset_type out) \<noteq> None)"
  using assms
proof (induction outs arbitrary: n s)
  case Nil
  then show ?case by simp
next
  case (Cons x outs)
  obtain out oh where x: "x = (out, oh)" by force
  have upt: "[n..<n + length (x # outs)] = n # [Suc n..<Suc n + length outs]"
    by (simp add: upt_conv_Cons del: upt_Suc)
  obtain w where w: "create_output tr sender approvers (n, out, oh) s = (Inr (), w)"
    and rest: "sforeach (zip [Suc n..<Suc n + length outs] outs) (create_output tr sender approvers) w = (Inr u, v)"
    using Cons.prems [unfolded upt zip_Cons_Cons sforeach.simps] unfolding x
    by (auto simp del: upt_Suc elim!: sbind_OkE)
  have fresh: "created sid tr (Suc n) outs (tr, n) = None" for sid
    using created_key [of sid tr "Suc n" outs "(tr, n)"] by (cases "created sid tr (Suc n) outs (tr, n)") auto
  note one = create_output_Ok [OF w] and IH = Cons.IH [OF rest]
  show ?case
  proof (cases "out_shard_id out = sl_shard_id s")
    case True
    define A where "A = (sl_assets s)((tr, n) \<mapsto> output_item out oh)"
    let ?rest = "created (sl_shard_id s) tr (Suc n) outs" and ?all = "created (sl_shard_id s) tr n (x # outs)"
    have w': "w = s\<lparr>sl_assets := A\<rparr>" using one True by (simp add: A_def)
    have keys: "?all = ?rest((tr, n) \<mapsto> output_item out oh)"
      unfolding x created.simps using True by (simp only: if_True simp_thms)
    have eq: "A ++ ?rest = sl_assets s ++ ?all"
    proof
      fix k
      show "(A ++ ?rest) k = (sl_assets s ++ ?all) k"
        unfolding keys by (cases "k = (tr, n)") (simp_all add: A_def map_add_def fresh split: option.split)
    qed
    have "v = s\<lparr>sl_assets := A ++ ?rest\<rparr>" using IH by (simp add: w')
    then have "v = s\<lparr>sl_assets := sl_assets s ++ ?all\<rparr>" by (simp only: eq)
    moreover have "sl_assets s k = None" if "k \<in> dom ?all" for k
    proof (cases "k = (tr, n)")
      case True
      then show ?thesis using one \<open>out_shard_id out = sl_shard_id s\<close> by simp
    next
      case False
      then have "k \<in> dom ?rest" using that unfolding keys by (simp add: domIff)
      then have "A k = None" using IH by (simp add: w')
      then show ?thesis using False by (simp add: A_def)
    qed
    moreover have "\<forall>(out, oh)\<in>set (x # outs). out_shard_id out = sl_shard_id s \<longrightarrow> sl_schemes s (out_asset_type out) \<noteq> None"
      using IH True one by (auto simp: w' x)
    ultimately show ?thesis by blast
  next
    case False
    with IH one show ?thesis by (auto simp: x)
  qed
qed

definition supply_of :: "shard_level \<Rightarrow> h160 \<Rightarrow> nat" where
  "supply_of s ty = (case sl_schemes s ty of None \<Rightarrow> 0 | Some sc \<Rightarrow> unat (as_supply sc))"

text \<open>Two schemes that differ in their supply only.\<close>

definition same_terms :: "asset_scheme option \<Rightarrow> asset_scheme option \<Rightarrow> bool" where
  "same_terms o1 o2 \<longleftrightarrow>
     map_option (\<lambda>sc. sc\<lparr>as_supply := 0\<rparr>) o1 = map_option (\<lambda>sc. sc\<lparr>as_supply := 0\<rparr>) o2"

lemma burn_supply_Ok:
  assumes "burn_supply b s = (Inr u, v)" "input_shard b = sl_shard_id s \<Longrightarrow> sl_schemes s (op_asset_type (in_prev_out b)) \<noteq> None"
  shows "sl_assets v = sl_assets s \<and> sl_shard_id v = sl_shard_id s \<and>
    (\<forall>ty. same_terms (sl_schemes v ty) (sl_schemes s ty) \<and>
      supply_of v ty + (if input_asset b = (ty, sl_shard_id s) then unat (input_quantity b) else 0) = supply_of s ty)"
proof (cases "input_shard b = sl_shard_id s")
  case True
  then obtain sc where sc: "sl_schemes s (op_asset_type (in_prev_out b)) = Some sc" using assms(2) by auto
  have le: "input_quantity b \<le> as_supply sc" and v: "v = s\<lparr>sl_schemes := (sl_schemes s)
      (op_asset_type (in_prev_out b) \<mapsto> sc\<lparr>as_supply := as_supply sc - input_quantity b\<rparr>)\<rparr>"
    using assms(1) True sc
    by (auto simp: burn_supply_def in_this_shard_def get_asset_scheme_mut_def asset_scheme_of_def
        sbind_apply set_scheme_def reduce_supply_def rassert_def split: if_splits)
  have "unat (as_supply sc - input_quantity b) + unat (input_quantity b) = unat (as_supply sc)"
    using le by (simp add: unat_sub_if' word_le_nat_alt)
  with sc True show ?thesis by (auto simp: v supply_of_def same_terms_def)
next
  case False
  with assms(1) show ?thesis by (auto simp: burn_supply_def in_this_shard_def same_terms_def)
qed

lemma same_terms_refl [simp]: "same_terms o1 o1"
  by (simp add: same_terms_def)

lemma same_terms_trans: "same_terms o1 o2 \<Longrightarrow> same_terms o2 o3 \<Longrightarrow> same_terms o1 o3"
  by (simp add: same_terms_def)

lemma same_terms_None: "same_terms o1 o2 \<Longrightarrow> o1 = None \<longleftrightarrow> o2 = None"
  by (cases o1; cases o2) (simp_all add: same_terms_def)

lemma burn_supplies_Ok:
  assumes "sforeach burns burn_supply s = (Inr u, v)"
    "\<forall>b\<in>set burns. input_shard b = sl_shard_id s \<longrightarrow> sl_schemes s (op_asset_type (in_prev_out b)) \<noteq> None"
  shows "sl_assets v = sl_assets s \<and>
    (\<forall>ty. same_terms (sl_schemes v ty) (sl_schemes s ty) \<and>
      supply_of v ty + in_total burns (ty, sl_shard_id s) = supply_of s ty)"
  using assms
proof (induction burns arbitrary: s)
  case (Cons b burns)
  then obtain w where w: "burn_supply b s = (Inr (), w)" and rest: "sforeach burns burn_supply w = (Inr u, v)"
    by (auto elim!: sbind_OkE)
  have one: "sl_assets w = sl_assets s" "sl_shard_id w = sl_shard_id s"
    "\<And>ty. same_terms (sl_schemes w ty) (sl_schemes s ty)"
    "\<And>ty. supply_of w ty + (if input_asset b = (ty, sl_shard_id s) then unat (input_quantity b) else 0) = supply_of s ty"
    using burn_supply_Ok [OF w] Cons.prems(2) by simp_all
  have "\<forall>b\<in>set burns. input_shard b = sl_shard_id w \<longrightarrow> sl_schemes w (op_asset_type (in_prev_out b)) \<noteq> None"
    using Cons.prems(2) one(2) same_terms_None [OF one(3)] by simp
  from Cons.IH [OF rest this] have IH: "sl_assets v = sl_assets w"
    "\<And>ty. same_terms (sl_schemes v ty) (sl_schemes w ty)"
    "\<And>ty. supply_of v ty + in_total burns (ty, sl_shard_id s) = supply_of w ty"
    by (simp_all add: one(2))
  show ?case
  proof (intro conjI allI)
    fix ty
    show "same_terms (sl_schemes v ty) (sl_schemes s ty)"
      using IH(2) one(3) by (rule same_terms_trans)
    show "supply_of v ty + in_total (b # burns) (ty, sl_shard_id s) = supply_of s ty"
      using IH(3) [of ty] one(4) [of ty] by simp
  qed (simp add: IH(1) one(1))
qed simp

section \<open>What is held of an asset\<close>

definition holdings :: "asset_map \<Rightarrow> h160 \<Rightarrow> nat" where
  "holdings m ty = (\<Sum>k\<in>{k. \<exists>a. m k = Some a \<and> asset_type a = ty}. unat (quantity (the (m k))))"

lemma finite_of_type: "finite (dom m) \<Longrightarrow> finite {k. \<exists>a. m k = Some a \<and> asset_type a = ty}"
  by (erule rev_finite_subset) (auto simp: dom_def)

lemma holdings_create:
  assumes "finite (dom m)" "m k = None"
  shows "holdings (m(k \<mapsto> a)) ty = (if asset_type a = ty then unat (quantity a) else 0) + holdings m ty"
proof -
  let ?K = "{k. \<exists>a. m k = Some a \<and> asset_type a = ty}"
  have "{k'. \<exists>b. (m(k \<mapsto> a)) k' = Some b \<and> asset_type b = ty} = (if asset_type a = ty then insert k ?K else ?K)"
    using assms(2) by auto
  moreover have "(\<Sum>x\<in>?K. unat (quantity (the ((m(k \<mapsto> a)) x)))) = (\<Sum>x\<in>?K. unat (quantity (the (m x))))"
    using assms(2) by (intro sum.cong) auto
  ultimately show ?thesis
    using assms(2) finite_of_type [OF assms(1), of ty] by (simp add: holdings_def)
qed

lemma holdings_kill:
  assumes "finite (dom m)" "m k = Some a"
  shows "(if asset_type a = ty then unat (quantity a) else 0) + holdings (m(k := None)) ty = holdings m ty"
proof -
  have "(m(k := None))(k \<mapsto> a) = m" using assms(2) by (auto simp: fun_eq_iff)
  then show ?thesis using holdings_create [of "m(k := None)" k a ty] assms(1) by simp
qed

lemma holdings_created:
  assumes "finite (dom m)" "\<forall>k\<in>dom (created sid tr n outs). m k = None"
  shows "finite (dom (m ++ created sid tr n outs)) \<and>
    holdings (m ++ created sid tr n outs) ty = holdings m ty + out_total (map fst outs) (ty, sid)"
  using assms
proof (induction sid tr n outs rule: created.induct)
  case (2 sid tr n out oh outs)
  let ?rest = "created sid tr (Suc n) outs"
  have none: "?rest (tr, n) = None"
    using created_key [of sid tr "Suc n" outs "(tr, n)"] by (cases "?rest (tr, n)") auto
  show ?case
  proof (cases "out_shard_id out = sid")
    case True
    have eq: "m ++ ?rest((tr, n) \<mapsto> output_item out oh) = (m ++ ?rest)((tr, n) \<mapsto> output_item out oh)"
      by simp
    have all: "\<forall>k\<in>dom (?rest((tr, n) \<mapsto> output_item out oh)). m k = None"
      using 2(4) True by (simp only: created.simps if_True simp_thms)
    then have "(m ++ ?rest) (tr, n) = None" using none by (simp add: map_add_def)
    moreover have "\<forall>k\<in>dom ?rest. m k = None" using all by simp
    then have IH: "finite (dom (m ++ ?rest))" "holdings (m ++ ?rest) ty = holdings m ty + out_total (map fst outs) (ty, sid)"
      using 2(1) [OF True 2(3)] by blast+
    ultimately have "holdings ((m ++ ?rest)((tr, n) \<mapsto> output_item out oh)) ty =
        holdings m ty + out_total (map fst ((out, oh) # outs)) (ty, sid)"
      using holdings_create [OF IH(1), of "(tr, n)" "output_item out oh" ty] True IH(2) by simp
    moreover have "finite (dom ((m ++ ?rest)((tr, n) \<mapsto> output_item out oh)))" using IH(1) by simp
    ultimately show ?thesis using True by (simp only: created.simps if_True simp_thms eq)
  next
    case False
    with 2(2) [OF False 2(3)] 2(4) show ?thesis by auto
  qed
qed simp

lemma holdings_spent:
  assumes "finite (dom m)" "distinct (map prev_out_id is)"
    "\<forall>i\<in>set is. input_shard i = sid \<longrightarrow>
       (\<exists>a. m (prev_out_id i) = Some a \<and> asset_type a = op_asset_type (in_prev_out i) \<and> quantity a = input_quantity i)"
  shows "holdings (\<lambda>k. if k \<in> spent sid is then None else m k) ty + in_total is (ty, sid) = holdings m ty"
  using assms
proof (induction "is" arbitrary: m)
  case (Cons i "is")
  show ?case
  proof (cases "input_shard i = sid")
    case True
    then obtain a where a: "m (prev_out_id i) = Some a" "asset_type a = op_asset_type (in_prev_out i)"
        "quantity a = input_quantity i"
      using Cons.prems(3) by auto
    let ?m = "m(prev_out_id i := None)"
    have eq: "(\<lambda>k. if k \<in> spent sid (i # is) then None else m k) = (\<lambda>k. if k \<in> spent sid is then None else ?m k)"
      using True by (auto simp: fun_eq_iff)
    have "\<forall>j\<in>set is. input_shard j = sid \<longrightarrow>
       (\<exists>a. ?m (prev_out_id j) = Some a \<and> asset_type a = op_asset_type (in_prev_out j) \<and> quantity a = input_quantity j)"
    proof (intro ballI impI)
      fix j
      assume j: "j \<in> set is" "input_shard j = sid"
      have "prev_out_id i \<notin> prev_out_id ` set is" using Cons.prems(2) by simp
      moreover have "prev_out_id j \<in> prev_out_id ` set is" using j(1) by (rule imageI)
      ultimately have "prev_out_id j \<noteq> prev_out_id i" by metis
      then show "\<exists>a. ?m (prev_out_id j) = Some a \<and> asset_type a = op_asset_type (in_prev_out j) \<and> quantity a = input_quantity j"
        using Cons.prems(3) j by auto
    qed
    moreover have "finite (dom ?m)" "distinct (map prev_out_id is)" using Cons.prems(1,2) by simp_all
    ultimately have "holdings (\<lambda>k. if k \<in> spent sid is then None else ?m k) ty + in_total is (ty, sid) = holdings ?m ty"
      using Cons.IH by blast
    with holdings_kill [OF Cons.prems(1) a(1), of ty] a(2,3) True show ?thesis by (simp only: eq) auto
  next
    case False
    with Cons show ?thesis by auto
  qed
qed simp

section \<open>Transfers\<close>

lemma check_spent_Ok:
  "check_spent lib t sender approvers (input, ord, burn) s = (Inr (), s) \<longleftrightarrow>
     (input_shard input = sl_shard_id s \<longrightarrow>
       sl_schemes s (op_asset_type (in_prev_out input)) \<noteq> None \<and>
       may_spend lib s t (sender # approvers) input ord burn)"
  by (simp add: check_spent_def in_this_shard_def check_and_run_Ok)

lemma length_set_indices: "set_indices v is xs = Inr ys \<Longrightarrow> length ys = length xs"
  by (induction v "is" xs rule: set_indices.induct) (auto split: if_splits)

lemma set_indices_nth:
  "set_indices v is xs = Inr ys \<Longrightarrow> j < length xs \<Longrightarrow> ys ! j = (if j \<in> set is then v else xs ! j)"
  by (induction v "is" xs rule: set_indices.induct) (auto split: if_splits simp: nth_list_update)

lemma length_output_order_hashes:
  assumes "output_order_hashes lib orders n = (Inr hs :: ('a, _) result)"
  shows "length hs = n"
proof (rule rfold_invariant [OF assms [unfolded output_order_hashes_def]])
  fix ot a b
  assume "mark_outputs lib ot a = (Inr b :: ('a, _) result)" and a: "length a = n"
  then show "length b = n"
    by (auto simp: mark_outputs_def rbind_eq_Ok_iff dest: length_set_indices split: if_splits)
qed simp

text \<open>The order an input is spent under, if any.\<close>

definition order_of_input :: "order_on_transfer list \<Rightarrow> nat \<Rightarrow> asset_order option \<Rightarrow> bool" where
  "order_of_input orders i ord \<longleftrightarrow> (case ord of
     None \<Rightarrow> \<forall>ot\<in>set orders. i \<notin> set (order_inputs ot)
   | Some ord' \<Rightarrow> \<exists>ot\<in>set orders. i \<in> set (order_inputs ot) \<and> ord' = ot_order ot)"

lemma values_to_hash_spec:
  assumes "values_to_hash orders n = (Inr vs :: ('a, _) result)"
  shows "length vs = n \<and> (\<forall>i<n. order_of_input orders i (vs ! i))"
  using assms unfolding values_to_hash_def
proof (induction orders arbitrary: vs rule: rev_induct)
  case Nil
  then show ?case by (auto simp: order_of_input_def)
next
  case (snoc ot orders)
  obtain ws where ws: "rfold (\<lambda>ot. set_indices (Some (ot_order ot)) (order_inputs ot)) orders (replicate n None) = (Inr ws :: ('a, _) result)"
    "set_indices (Some (ot_order ot)) (order_inputs ot) ws = (Inr vs :: ('a, _) result)"
    using snoc.prems by (cases "rfold (\<lambda>ot. set_indices (Some (ot_order ot)) (order_inputs ot)) orders (replicate n None)
        :: ('a, _) result") (simp_all add: rfold_append rbind_eq_Ok_iff)
  note IH = snoc.IH [OF ws(1)]
  show ?case
  proof (intro conjI allI impI)
    show "length vs = n" using length_set_indices [OF ws(2)] IH by simp
    fix i
    assume i: "i < n"
    with IH set_indices_nth [OF ws(2), of i]
    show "order_of_input (orders @ [ot]) i (vs ! i)"
      by (auto simp: order_of_input_def split: option.splits if_splits)
  qed
qed

lemma transfer_asset_Ok:
  assumes "transfer_asset lib t sender approvers burns inputs outputs orders s = (Inr u, s')"
  obtains vs hs v where
    "values_to_hash orders (length inputs) = (Inr vs :: (state_error, _) result)"
    "output_order_hashes lib orders (length outputs) = (Inr hs :: (state_error, _) result)"
    "\<And>i. i < length inputs \<Longrightarrow> check_spent lib t sender approvers (inputs ! i, vs ! i, False) s = (Inr (), s)"
    "\<And>b. b \<in> set burns \<Longrightarrow> check_spent lib t sender approvers (b, None, True) s = (Inr (), s)"
    "sforeach (zip [0..<length outputs] (zip outputs hs)) (create_output (tracker_of lib t) sender approvers)
       (s\<lparr>sl_assets := (\<lambda>k. if k \<in> spent (sl_shard_id s) (inputs @ burns) then None else sl_assets s k)\<rparr>) = (Inr (), v)"
    "sforeach burns burn_supply v = (Inr u, s')"
proof -
  let ?checks = "\<lambda>vs. map (\<lambda>(input, ord). (input, ord, False)) (zip inputs vs) @ map (\<lambda>b. (b, None, True)) burns"
  obtain vs s1 s2 hs v where vs: "values_to_hash orders (length inputs) = (Inr vs :: (state_error, _) result)"
    and chk: "sforeach (?checks vs) (check_spent lib t sender approvers) s = (Inr (), s1)"
    and ord: "check_orders lib orders inputs s1 = (Inr (), s2)"
    and hs: "output_order_hashes lib orders (length outputs) = (Inr hs :: (state_error, _) result)"
    and rest: "sforeach (zip [0..<length outputs] (zip outputs hs)) (create_output (tracker_of lib t) sender approvers)
       (s2\<lparr>sl_assets := (\<lambda>k. if k \<in> spent (sl_shard_id s2) (inputs @ burns) then None else sl_assets s2 k)\<rparr>) = (Inr (), v)"
      "sforeach burns burn_supply v = (Inr u, s')"
    using assms unfolding transfer_asset_def
    by (auto simp: kill_inputs_run elim!: sbind_OkE)
  have s1: "s1 = s" using readsD [OF reads_sforeach [OF reads_check_spent] chk] .
  have s2: "s2 = s" using readsD [OF reads_check_orders ord] s1 by simp
  have all: "x \<in> set (?checks vs) \<Longrightarrow> check_spent lib t sender approvers x s = (Inr (), s)" for x
    by (rule reads_sforeach_Ok [OF reads_check_spent chk])
  have len: "length vs = length inputs" using values_to_hash_spec [OF vs] by simp
  show ?thesis
  proof (rule that [OF vs hs])
    show "check_spent lib t sender approvers (inputs ! i, vs ! i, False) s = (Inr (), s)" if "i < length inputs" for i
      using that len by (intro all) (force simp: set_zip)
    show "check_spent lib t sender approvers (b, None, True) s = (Inr (), s)" if "b \<in> set burns" for b
      using that by (intro all) simp
  qed (use rest [unfolded s2] in simp_all)
qed

text \<open>The view of the state the predicates above depend on.\<close>

lemma may_spend_cong:
  assumes "sl_schemes s = sl_schemes s'" "sl_assets s = sl_assets s'"
  shows "may_spend lib s = may_spend lib s'"
  unfolding may_spend_def registrar_signed_def approver_signed_def stored_as_def assms ..

lemma checkpoint_view [simp]:
  "sl_shard_id (snd (create_checkpoint i s)) = sl_shard_id s"
  "sl_schemes (snd (create_checkpoint i s)) = sl_schemes s"
  "sl_assets (snd (create_checkpoint i s)) = sl_assets s"
  by (simp_all add: create_checkpoint_def)

lemma shard_apply_Ok:
  assumes "shard_apply lib t sender users approvers s = (Inr u, s')"
  obtains c v where "shard_apply_internal lib t sender users approvers c = (Inr (), v)"
    "sl_shard_id c = sl_shard_id s" "sl_schemes c = sl_schemes s" "sl_assets c = sl_assets s"
    "s' = s\<lparr>sl_schemes := sl_schemes v, sl_assets := sl_assets v\<rparr>"
  using assms
proof (cases rule: shard_apply_cases)
  case (1 x v)
  then show ?thesis by (intro that [of "snd (create_checkpoint 456 s)" v]) simp_all
qed simp_all

lemma transfer_effect:
  assumes "transfer_asset lib t sender approvers burns inputs outputs orders s = (Inr u, s')"
  shows "(\<forall>i<length inputs. input_shard (inputs ! i) = sl_shard_id s \<longrightarrow>
      (\<exists>ord. order_of_input orders i ord \<and> may_spend lib s t (sender # approvers) (inputs ! i) ord False)) \<and>
    (\<forall>b\<in>set burns. input_shard b = sl_shard_id s \<longrightarrow> may_spend lib s t (sender # approvers) b None True) \<and>
    (\<exists>hs. output_order_hashes lib orders (length outputs) = (Inr hs :: (state_error, _) result) \<and> length hs = length outputs \<and>
      (\<forall>k\<in>dom (created (sl_shard_id s) (tracker_of lib t) 0 (zip outputs hs)).
        k \<in> spent (sl_shard_id s) (inputs @ burns) \<or> sl_assets s k = None) \<and>
      sl_assets s' = (\<lambda>k. if k \<in> spent (sl_shard_id s) (inputs @ burns) then None else sl_assets s k) ++
        created (sl_shard_id s) (tracker_of lib t) 0 (zip outputs hs)) \<and>
    (\<forall>ty. same_terms (sl_schemes s' ty) (sl_schemes s ty) \<and>
      supply_of s' ty + in_total burns (ty, sl_shard_id s) = supply_of s ty)"
proof -
  let ?killed = "s\<lparr>sl_assets := (\<lambda>k. if k \<in> spent (sl_shard_id s) (inputs @ burns) then None else sl_assets s k)\<rparr>"
  obtain vs hs v where vs: "values_to_hash orders (length inputs) = (Inr vs :: (state_error, _) result)"
    and hs: "output_order_hashes lib orders (length outputs) = (Inr hs :: (state_error, _) result)"
    and ins: "\<And>i. i < length inputs \<Longrightarrow> check_spent lib t sender approvers (inputs ! i, vs ! i, False) s = (Inr (), s)"
    and bs: "\<And>b. b \<in> set burns \<Longrightarrow> check_spent lib t sender approvers (b, None, True) s = (Inr (), s)"
    and cr: "sforeach (zip [0..<length outputs] (zip outputs hs)) (create_output (tracker_of lib t) sender approvers) ?killed = (Inr (), v)"
    and burn: "sforeach burns burn_supply v = (Inr u, s')"
    using transfer_asset_Ok [OF assms] by blast
  have len: "length hs = length outputs" by (rule length_output_order_hashes [OF hs])
  have up: "[0..<length outputs] = [0..<0 + length (zip outputs hs)]" using len by simp
  have v: "v = ?killed\<lparr>sl_assets := sl_assets ?killed ++ created (sl_shard_id ?killed) (tracker_of lib t) 0 (zip outputs hs)\<rparr>"
    and fresh: "\<forall>k\<in>dom (created (sl_shard_id ?killed) (tracker_of lib t) 0 (zip outputs hs)). sl_assets ?killed k = None"
    using create_outputs_Ok [OF cr [unfolded up]] by blast+
  have "\<forall>b\<in>set burns. input_shard b = sl_shard_id v \<longrightarrow> sl_schemes v (op_asset_type (in_prev_out b)) \<noteq> None"
    using bs by (simp add: v check_spent_Ok)
  from burn_supplies_Ok [OF burn this]
  have burnt: "sl_assets s' = sl_assets v"
    "\<And>ty. same_terms (sl_schemes s' ty) (sl_schemes s ty)"
    "\<And>ty. supply_of s' ty + in_total burns (ty, sl_shard_id s) = supply_of s ty"
    by (simp_all add: v supply_of_def)
  show ?thesis
  proof (intro conjI allI ballI impI)
    show "\<exists>ord. order_of_input orders i ord \<and> may_spend lib s t (sender # approvers) (inputs ! i) ord False"
      if "i < length inputs" "input_shard (inputs ! i) = sl_shard_id s" for i
      using that ins [OF that(1)] values_to_hash_spec [OF vs] by (auto simp: check_spent_Ok)
    show "may_spend lib s t (sender # approvers) b None True" if "b \<in> set burns" "input_shard b = sl_shard_id s" for b
      using that bs [OF that(1)] by (simp add: check_spent_Ok)
    show "\<exists>hs. output_order_hashes lib orders (length outputs) = (Inr hs :: (state_error, _) result) \<and> length hs = length outputs \<and>
      (\<forall>k\<in>dom (created (sl_shard_id s) (tracker_of lib t) 0 (zip outputs hs)).
        k \<in> spent (sl_shard_id s) (inputs @ burns) \<or> sl_assets s k = None) \<and>
      sl_assets s' = (\<lambda>k. if k \<in> spent (sl_shard_id s) (inputs @ burns) then None else sl_assets s k) ++
        created (sl_shard_id s) (tracker_of lib t) 0 (zip outputs hs)"
      using hs len burnt(1) fresh by (intro exI [of _ hs]) (auto simp: v split: if_splits)
  qed (use burnt in simp_all)
qed

text \<open>
  C21: nobody's assets are spent without permission. In a transfer that succeeds, every input and
  burn of this shard is stored with the type and quantity it names, and spending it is permitted:
  the registrar of the asset signed, or its approver (if any) signed and the lock and unlock
  scripts succeed on the transaction (burnt for a burn, unlocked otherwise) or the input takes
  part in the very order it was left over from. Exactly these assets disappear, and exactly the
  outputs of this shard appear under the transaction's tracker; nothing else changes.
\<close>

theorem transfer_spends_authorised:
  assumes "shard_apply lib t sender users approvers s = (Ok (), s')"
    and "t = ShardTransferAsset n burns inputs outputs orders"
  shows "(\<forall>i<length inputs. input_shard (inputs ! i) = sl_shard_id s \<longrightarrow>
      (\<exists>ord. order_of_input orders i ord \<and> may_spend lib s t (sender # approvers) (inputs ! i) ord False)) \<and>
    (\<forall>b\<in>set burns. input_shard b = sl_shard_id s \<longrightarrow> may_spend lib s t (sender # approvers) b None True) \<and>
    (\<exists>hs. length hs = length outputs \<and>
      sl_assets s' = (\<lambda>k. if k \<in> spent (sl_shard_id s) (inputs @ burns) then None else sl_assets s k) ++
        created (sl_shard_id s) (tracker_of lib t) 0 (zip outputs hs)) \<and>
    (\<forall>ty. same_terms (sl_schemes s' ty) (sl_schemes s ty))"
proof -
  obtain c v where c: "shard_apply_internal lib t sender users approvers c = (Inr (), v)"
    "sl_shard_id c = sl_shard_id s" "sl_schemes c = sl_schemes s" "sl_assets c = sl_assets s"
    and s': "s' = s\<lparr>sl_schemes := sl_schemes v, sl_assets := sl_assets v\<rparr>"
    using assms(1) by (rule shard_apply_Ok)
  have "transfer_asset lib t sender approvers burns inputs outputs orders c = (Inr (), v)"
    using c(1) assms(2) by simp
  from transfer_effect [OF this] show ?thesis
    unfolding c(2-4) may_spend_cong [OF c(3,4)] s' by auto
qed

end
