(* ===== verification/Shard_Supply.thy ===== *)
theory Shard_Supply
  imports Shard_Ledger
begin

text \<open>
  The supply of an asset is what is held of it: the invariant of a shard, that every verified
  transaction keeps it, that none of them panics, and the exceptions the code has.
\<close>

section \<open>The invariant\<close>

definition shard_ok :: "shard_level \<Rightarrow> bool" where
  "shard_ok s \<longleftrightarrow> finite (dom (sl_assets s)) \<and> (\<forall>ty. holdings (sl_assets s) ty = supply_of s ty)"

lemma shard_ok_cong:
  "sl_schemes s = sl_schemes s' \<Longrightarrow> sl_assets s = sl_assets s' \<Longrightarrow> shard_ok s = shard_ok s'"
  by (simp add: shard_ok_def supply_of_def)

lemma create_asset_Ok:
  assumes "create_asset tr i a s = (Inr u, v)"
  shows "sl_assets s (tr, i) = None \<and> v = s\<lparr>sl_assets := (sl_assets s)((tr, i) \<mapsto> a)\<rparr>"
  using assms by (cases "sl_assets s (tr, i)") (simp_all add: create_asset_def asset_of_def)

lemma create_asset_scheme_run:
  "sl_schemes s ty = None \<Longrightarrow>
     create_asset_scheme ty sc s = (Inr (), s\<lparr>sl_schemes := (sl_schemes s)(ty \<mapsto> sc)\<rparr>)"
  by (simp add: create_asset_scheme_def asset_scheme_of_def set_scheme_def)

lemma get_asset_scheme_mut_run:
  "get_asset_scheme_mut ty s = (let sc = (case sl_schemes s ty of None \<Rightarrow> default_scheme | Some sc \<Rightarrow> sc) in
     (Inr sc, s\<lparr>sl_schemes := (sl_schemes s)(ty \<mapsto> sc)\<rparr>))"
  by (simp add: get_asset_scheme_mut_def asset_scheme_of_def set_scheme_def Let_def)

text \<open>Creating an asset of a type whose supply grows by its quantity.\<close>

lemma shard_ok_grow:
  assumes ok: "shard_ok s" and fresh: "sl_assets s k = None"
    and sup_eq: "\<And>ty. supply_of v ty = supply_of s ty + (if asset_type a = ty then unat (quantity a) else 0)"
    and assets: "sl_assets v = (sl_assets s)(k \<mapsto> a)"
  shows "shard_ok v"
  using ok fresh by (simp add: shard_ok_def assets sup_eq holdings_create)

lemma shard_ok_shrink:
  assumes ok: "shard_ok s" and a: "sl_assets s k = Some a"
    and sup_eq: "\<And>ty. supply_of v ty + (if asset_type a = ty then unat (quantity a) else 0) = supply_of s ty"
    and assets: "sl_assets v = (sl_assets s)(k := None)"
  shows "shard_ok v"
proof -
  have "holdings (sl_assets v) ty = supply_of v ty" for ty
  proof -
    have "(if asset_type a = ty then unat (quantity a) else 0) + holdings (sl_assets v) ty = holdings (sl_assets s) ty"
      using ok holdings_kill [of "sl_assets s" k a ty] a by (simp add: shard_ok_def assets)
    then show ?thesis using ok sup_eq [of ty] by (simp add: shard_ok_def)
  qed
  then show ?thesis using ok by (simp add: shard_ok_def assets)
qed

lemma owned_asset_new_simps [simp]:
  "asset_type (owned_asset_new ty lsh ps q oh) = ty" "quantity (owned_asset_new ty lsh ps q oh) = q"
  by (simp_all add: owned_asset_new_def)

lemma mint_asset_Ok:
  assumes "mint_asset lib tr mdata out approver approvers registrar allowed sender users pool s = (Inr u, v)"
  shows "sl_schemes s (lib_asset_type lib tr) = None \<and> sl_assets s (tr, 0) = None \<and>
    v = s\<lparr>sl_schemes := (sl_schemes s)(lib_asset_type lib tr \<mapsto>
             new_with_pool mdata (mo_supply out) approver registrar allowed pool),
           sl_assets := (sl_assets s)((tr, 0) \<mapsto>
             owned_asset_new (lib_asset_type lib tr) (mo_lock_script_hash out) (mo_parameters out) (mo_supply out) None)\<rparr>"
  using assms
  by (auto simp: mint_asset_def Let_def asset_scheme_of_def sbind_apply create_asset_scheme_run
      dest!: create_asset_Ok split: if_splits)

lemma mint_asset_ok:
  assumes "mint_asset lib tr mdata out approver approvers registrar allowed sender users pool s = (Inr u, v)" "shard_ok s"
  shows "shard_ok v"
  using mint_asset_Ok [OF assms(1)]
  by (intro shard_ok_grow [OF assms(2), of "(tr, 0)" _
        "owned_asset_new (lib_asset_type lib tr) (mo_lock_script_hash out) (mo_parameters out) (mo_supply out) None"])
    (auto simp: supply_of_def new_with_pool_def)

lemma increase_supply_unat:
  "increase_supply q sc = Inr sc' \<Longrightarrow>
     sc' = sc\<lparr>as_supply := as_supply sc + q\<rparr> \<and> unat (as_supply sc + q) = unat (as_supply sc) + unat q"
proof -
  assume "increase_supply q sc = Inr sc'"
  then have "q \<le> - 1 - as_supply sc" and sc': "sc' = sc\<lparr>as_supply := as_supply sc + q\<rparr>"
    by (auto simp: increase_supply_def Let_def not_less split: if_splits)
  then have "unat q \<le> unat (- 1 - as_supply sc)" by (simp add: word_le_nat_alt)
  moreover have "unat (- 1 - as_supply sc) = 2 ^ 64 - 1 - unat (as_supply sc)"
    using unat_u64_less [of "as_supply sc"] by (simp add: unat_sub_if' unsigned_minus_1_eq_mask mask_eq_exp_minus_1)
  ultimately have "unat (as_supply sc) + unat q < 2 ^ 64" using unat_u64_less [of "as_supply sc"] by linarith
  with sc' show ?thesis by (simp add: unat_word_ariths)
qed

lemma increase_asset_supply_Ok:
  assumes "increase_asset_supply tr seq sender approvers ty out s = (Inr u, v)"
  obtains sc sc' where "sl_schemes s ty = Some sc" "increase_supply (mo_supply out) sc = (Inr sc' :: (state_error, _) result)"
    "sl_assets s (tr, 0) = None"
    "v = s\<lparr>sl_schemes := (sl_schemes s)(ty \<mapsto> increase_seq sc'),
           sl_assets := (sl_assets s)((tr, 0) \<mapsto>
             owned_asset_new ty (mo_lock_script_hash out) (mo_parameters out) (mo_supply out) None)\<rparr>"
proof -
  let ?a = "owned_asset_new ty (mo_lock_script_hash out) (mo_parameters out) (mo_supply out) None"
  obtain sc sc' where sc: "sl_schemes s ty = Some sc"
    and inc: "increase_supply (mo_supply out) sc = (Inr sc' :: (state_error, _) result)"
    and cr: "create_asset tr 0 ?a (s\<lparr>sl_schemes := (sl_schemes s)(ty \<mapsto> increase_seq sc')\<rparr>) = (Inr u, v)"
    using assms
    by (auto simp: increase_asset_supply_def sbind_apply approved_by_registrar_run get_asset_scheme_mut_run
        Let_def set_scheme_def sassert_def split: option.splits if_splits sum.splits)
  with create_asset_Ok [OF cr] show ?thesis by (intro that [OF sc inc]) simp_all
qed

lemma increase_asset_supply_ok:
  assumes "increase_asset_supply tr seq sender approvers ty out s = (Inr u, v)" "shard_ok s"
  shows "shard_ok v"
  using assms(1)
proof (rule increase_asset_supply_Ok)
  let ?a = "owned_asset_new ty (mo_lock_script_hash out) (mo_parameters out) (mo_supply out) None"
  fix sc sc'
  assume sc: "sl_schemes s ty = Some sc" and inc: "increase_supply (mo_supply out) sc = (Inr sc' :: (state_error, _) result)"
    and fresh: "sl_assets s (tr, 0) = None"
    and v: "v = s\<lparr>sl_schemes := (sl_schemes s)(ty \<mapsto> increase_seq sc'), sl_assets := (sl_assets s)((tr, 0) \<mapsto> ?a)\<rparr>"
  show ?thesis
    using increase_supply_unat [OF inc]
    by (intro shard_ok_grow [OF assms(2) fresh, of _ ?a]) (auto simp: v supply_of_def sc increase_seq_def)
qed

lemma change_asset_scheme_Ok:
  assumes "change_asset_scheme sender approvers ty seq mdata approver registrar allowed s = (Inr u, v)"
  shows "supply_of v ty' = supply_of s ty' \<and> sl_assets v = sl_assets s"
  using assms
  by (auto simp: change_asset_scheme_def sbind_apply approved_by_registrar_run get_asset_scheme_mut_run supply_of_def
      increase_seq_def change_data_def Let_def set_scheme_def split: option.splits if_splits)

lemma change_asset_scheme_ok:
  assumes "change_asset_scheme sender approvers ty seq mdata approver registrar allowed s = (Inr u, v)" "shard_ok s"
  shows "shard_ok v"
  using change_asset_scheme_Ok [OF assms(1)] assms(2) by (simp add: shard_ok_def)

lemma wrap_ccc_Ok:
  assumes "wrap_ccc h lsh ps q s = (Inr u, v)"
  obtains sc where "sl_assets s (h, 0) = None"
    "unat (as_supply sc) = supply_of s 0" "unat (as_supply sc + q) = supply_of s 0 + unat q"
    "v = s\<lparr>sl_schemes := (sl_schemes s)(0 \<mapsto> sc\<lparr>as_supply := as_supply sc + q\<rparr>),
           sl_assets := (sl_assets s)((h, 0) \<mapsto> owned_asset_new 0 lsh ps q None)\<rparr>"
proof -
  let ?a = "owned_asset_new 0 lsh ps q None"
  let ?sc = "case sl_schemes s 0 of None \<Rightarrow> new_with_pool [] 0 None None [] [] | Some sc \<Rightarrow> sc"
  obtain sc' where inc: "increase_supply q ?sc = Inr sc'"
    and cr: "create_asset h 0 ?a (s\<lparr>sl_schemes := (sl_schemes s)(0 \<mapsto> sc')\<rparr>) = (Inr u, v)"
    using assms
    by (cases "sl_schemes s 0")
      (auto simp: wrap_ccc_def sbind_apply create_asset_scheme_run get_asset_scheme_mut_run
        Let_def asset_scheme_of_def set_scheme_def split: sum.splits)
  have "unat (as_supply ?sc) = supply_of s 0" by (simp add: supply_of_def new_with_pool_def split: option.split)
  with create_asset_Ok [OF cr] increase_supply_unat [OF inc] show ?thesis by (intro that [of ?sc]) simp_all
qed

lemma wrap_ccc_ok:
  assumes "wrap_ccc h lsh ps q s = (Inr u, v)" "shard_ok s"
  shows "shard_ok v"
  using assms(1)
proof (rule wrap_ccc_Ok)
  fix sc
  assume fresh: "sl_assets s (h, 0) = None" and sc: "unat (as_supply sc + q) = supply_of s 0 + unat q"
    and v: "v = s\<lparr>sl_schemes := (sl_schemes s)(0 \<mapsto> sc\<lparr>as_supply := as_supply sc + q\<rparr>),
           sl_assets := (sl_assets s)((h, 0) \<mapsto> owned_asset_new 0 lsh ps q None)\<rparr>"
  show "shard_ok v"
    by (rule shard_ok_grow [OF assms(2) fresh, of _ "owned_asset_new 0 lsh ps q None"])
      (use sc in \<open>simp_all add: v, simp_all add: supply_of_def\<close>)
qed

lemma unwrap_ccc_Ok:
  assumes "unwrap_ccc lib t sender b s = (Inr u, v)" "op_asset_type (in_prev_out b) = 0"
  obtains a sc where "sl_assets s (prev_out_id b) = Some a" "asset_type a = 0" "quantity a = input_quantity b"
    "may_spend lib s t [sender] b None True"
    "sl_schemes s 0 = Some sc" "input_quantity b \<le> as_supply sc"
    "v = s\<lparr>sl_assets := (sl_assets s)(prev_out_id b := None),
           sl_schemes := (sl_schemes s)(0 \<mapsto> sc\<lparr>as_supply := as_supply sc - input_quantity b\<rparr>)\<rparr>"
proof -
  obtain c where c: "check_and_run_input_script lib b t None True sender [] s = (Inr (), c)"
    and rest: "sbind (get_asset_scheme_mut 0) (\<lambda>sc. sbind (slift (reduce_supply (input_quantity b) sc)) (set_scheme 0))
      (c\<lparr>sl_assets := (sl_assets c)(prev_out_id b := None)\<rparr>) = (Inr u, v)"
    using assms(1) unfolding unwrap_ccc_def kill_asset_def
    by (elim sbind_OkE [where m = "check_and_run_input_script lib b t None True sender []"]) simp
  have spend: "c = s" "sl_schemes s 0 \<noteq> None" "may_spend lib s t [sender] b None True"
    using c assms(2) by (auto simp: check_and_run_Ok)
  then obtain sc where sc: "sl_schemes s 0 = Some sc" by auto
  from spend(3) obtain a where "stored_as s (in_prev_out b) a" by (auto simp: may_spend_def)
  then have a: "sl_assets s (prev_out_id b) = Some a" "asset_type a = 0" "quantity a = input_quantity b"
    using assms(2) by (auto simp: stored_as_def)
  have "input_quantity b \<le> as_supply sc" "v = s\<lparr>sl_assets := (sl_assets s)(prev_out_id b := None),
      sl_schemes := (sl_schemes s)(0 \<mapsto> sc\<lparr>as_supply := as_supply sc - input_quantity b\<rparr>)\<rparr>"
    using rest
    by (auto simp: spend(1) get_asset_scheme_mut_run sbind_apply Let_def sc reduce_supply_def rassert_def
        set_scheme_def split: if_splits)
  with a sc spend(3) show ?thesis by (intro that)
qed

lemma unwrap_ccc_ok:
  assumes "unwrap_ccc lib t sender b s = (Inr u, v)" "op_asset_type (in_prev_out b) = 0" "shard_ok s"
  shows "shard_ok v"
proof -
  from assms(1,2) obtain a sc where a: "sl_assets s (prev_out_id b) = Some a" "asset_type a = 0"
      "quantity a = input_quantity b"
    and sc: "sl_schemes s 0 = Some sc" "input_quantity b \<le> as_supply sc"
    and v: "v = s\<lparr>sl_assets := (sl_assets s)(prev_out_id b := None),
      sl_schemes := (sl_schemes s)(0 \<mapsto> sc\<lparr>as_supply := as_supply sc - input_quantity b\<rparr>)\<rparr>"
    by (rule unwrap_ccc_Ok)
  have "unat (as_supply sc - input_quantity b) + unat (input_quantity b) = unat (as_supply sc)"
    using sc(2) by (simp add: unat_sub_if' word_le_nat_alt)
  then show ?thesis
    by (intro shard_ok_shrink [OF assms(3) a(1)]) (auto simp: v supply_of_def sc a(2,3))
qed

text \<open>The facts of a verified transfer that the shard relies on.\<close>

definition balanced_transfer :: "asset_transfer_input list \<Rightarrow> asset_transfer_input list \<Rightarrow>
    asset_transfer_output list \<Rightarrow> bool" where
  "balanced_transfer burns inputs outputs \<longleftrightarrow>
     distinct (map prev_out_id (inputs @ burns)) \<and> (\<forall>k. in_total inputs k = out_total outputs k)"

lemma verified_balanced:
  assumes "verify_transfer oh burns inputs outputs orders = Ok ()" "length inputs < 2 ^ 64"
  shows "balanced_transfer burns inputs outputs"
  using assms(1) is_input_and_output_consistent_iff [OF assms(2)]
  by (auto simp: verify_transfer_parts balanced_transfer_def)

lemma may_spend_stored:
  "may_spend lib s t signers input ord burn \<Longrightarrow>
     \<exists>a. sl_assets s (prev_out_id input) = Some a \<and> asset_type a = op_asset_type (in_prev_out input) \<and>
       quantity a = input_quantity input"
  by (auto simp: may_spend_def stored_as_def)

lemma map_fst_zip_same: "length hs = length outs \<Longrightarrow> map fst (zip outs hs) = outs"
  by simp

lemma transfer_asset_ok:
  assumes run: "transfer_asset lib t sender approvers burns inputs outputs orders s = (Inr u, v)"
    and bal: "balanced_transfer burns inputs outputs" and ok: "shard_ok s"
  shows "shard_ok v"
proof -
  let ?sid = "sl_shard_id s"
  define killed where "killed = (\<lambda>k. if k \<in> spent ?sid (inputs @ burns) then None else sl_assets s k)"
  note eff = transfer_effect [OF run]
  obtain hs where hs: "length hs = length outputs"
      "\<forall>k\<in>dom (created ?sid (tracker_of lib t) 0 (zip outputs hs)). killed k = None"
      "sl_assets v = killed ++ created ?sid (tracker_of lib t) 0 (zip outputs hs)"
  proof -
    obtain hs where "length hs = length outputs"
      "\<forall>k\<in>dom (created ?sid (tracker_of lib t) 0 (zip outputs hs)). k \<in> spent ?sid (inputs @ burns) \<or> sl_assets s k = None"
      "sl_assets v = killed ++ created ?sid (tracker_of lib t) 0 (zip outputs hs)"
      using eff unfolding killed_def by blast
    then show ?thesis by (intro that [of hs]) (auto simp: killed_def)
  qed
  have fin: "finite (dom (sl_assets s))" using ok by (simp add: shard_ok_def)
  have "finite (dom killed)" by (rule finite_subset [OF _ fin]) (auto simp: killed_def split: if_splits)
  note made = holdings_created [OF this hs(2)]
  have "\<forall>i\<in>set (inputs @ burns). input_shard i = ?sid \<longrightarrow>
      (\<exists>a. sl_assets s (prev_out_id i) = Some a \<and> asset_type a = op_asset_type (in_prev_out i) \<and> quantity a = input_quantity i)"
  proof (intro ballI impI)
    fix i
    assume i: "i \<in> set (inputs @ burns)" "input_shard i = ?sid"
    then consider j where "j < length inputs" "i = inputs ! j" | "i \<in> set burns" by (auto simp: in_set_conv_nth)
    then obtain ord burn where "may_spend lib s t (sender # approvers) i ord burn" using i(2) eff by cases blast+
    then show "\<exists>a. sl_assets s (prev_out_id i) = Some a \<and> asset_type a = op_asset_type (in_prev_out i) \<and> quantity a = input_quantity i"
      by (rule may_spend_stored)
  qed
  then have killed: "holdings killed ty + in_total (inputs @ burns) (ty, ?sid) = holdings (sl_assets s) ty" for ty
    unfolding killed_def using fin bal by (intro holdings_spent) (simp_all only: balanced_transfer_def)
  have "holdings (sl_assets v) ty = supply_of v ty" for ty
  proof -
    have "holdings (sl_assets v) ty = holdings killed ty + out_total outputs (ty, ?sid)"
      using made hs(1,3) by (simp add: map_fst_zip_same)
    also have "\<dots> = holdings killed ty + in_total inputs (ty, ?sid)"
      using bal by (simp add: balanced_transfer_def)
    also have "\<dots> + in_total burns (ty, ?sid) = supply_of s ty"
      using killed [of ty] ok by (simp add: shard_ok_def)
    finally show ?thesis using eff by (metis add_right_cancel)
  qed
  with made hs(3) show ?thesis by (simp add: shard_ok_def)
qed

lemma assert_shard_run:
  "sbind (assert_shard sid) k s =
     (if sid = sl_shard_id s then k () s else (Panics ''shard_id == self.shard_id'', s))"
  by (simp add: assert_shard_def sbind_apply)

section \<open>Wrapped CCC\<close>

text \<open>The CCC that a transaction brings into a shard and takes out of it: the asset type zero.\<close>

fun ccc_wrapped :: "shard_transaction \<Rightarrow> nat" where
  "ccc_wrapped (ShardWrapCCC _ _ _ out) = unat (wo_quantity out)"
| "ccc_wrapped _ = 0"

fun ccc_removed :: "shard_transaction \<Rightarrow> shard_id \<Rightarrow> nat" where
  "ccc_removed (ShardTransferAsset _ burns _ _ _) sid = in_total burns (0, sid)"
| "ccc_removed (ShardUnwrapCCC _ b _) sid = unat (input_quantity b)"
| "ccc_removed _ _ = 0"

text \<open>The transactions of verified actions that touch type zero only on purpose.\<close>

fun spares_ccc :: "shard_lib \<Rightarrow> shard_transaction \<Rightarrow> bool" where
  "spares_ccc lib (ShardIncreaseAssetSupply _ _ ty _ _) \<longleftrightarrow> ty \<noteq> 0"
| "spares_ccc lib (ShardComposeAsset _ _ _ _ _ _ _ _) \<longleftrightarrow> False"
| "spares_ccc lib (ShardDecomposeAsset _ _ _) \<longleftrightarrow> False"
| "spares_ccc lib (ShardUnwrapCCC _ b _) \<longleftrightarrow> op_asset_type (in_prev_out b) = 0"
| "spares_ccc lib (ShardMintAsset _ _ _ _ _ _ _) \<longleftrightarrow> (\<forall>tr. lib_asset_type lib tr \<noteq> 0)"
| "spares_ccc lib _ \<longleftrightarrow> True"

lemma shard_apply_ccc:
  assumes "shard_apply lib t sender users approvers s = (Inr u, s')" "spares_ccc lib t"
  shows "supply_of s' 0 + ccc_removed t (sl_shard_id s) = supply_of s 0 + ccc_wrapped t"
proof -
  obtain c v where c: "shard_apply_internal lib t sender users approvers c = (Inr (), v)"
    "sl_shard_id c = sl_shard_id s" "sl_schemes c = sl_schemes s"
    and s': "s' = s\<lparr>sl_schemes := sl_schemes v, sl_assets := sl_assets v\<rparr>"
    using assms(1) by (rule shard_apply_Ok)
  have "supply_of v 0 + ccc_removed t (sl_shard_id c) = supply_of c 0 + ccc_wrapped t"
  proof (cases t)
    case (ShardTransferAsset n burns inputs outputs orders)
    with c(1) show ?thesis by (auto dest: transfer_effect)
  next
    case (ShardUnwrapCCC n b receiver)
    with c(1) have "unwrap_ccc lib t sender b c = (Inr (), v)" by (auto simp: assert_shard_run split: if_splits)
    then show ?thesis using assms(2) ShardUnwrapCCC
      by (auto elim!: unwrap_ccc_Ok simp: supply_of_def unat_sub_if' word_le_nat_alt)
  next
    case (ShardWrapCCC n sid h out)
    with c(1) have "wrap_ccc h (wo_lock_script_hash out) (wo_parameters out) (wo_quantity out) c = (Inr (), v)"
      by (auto simp: assert_shard_run split: if_splits)
    then show ?thesis using ShardWrapCCC by (auto elim!: wrap_ccc_Ok) (simp add: supply_of_def)
  next
    case (ShardIncreaseAssetSupply n sid ty seq out)
    with c(1) have "increase_asset_supply (tracker_of lib t) seq sender approvers ty out c = (Inr (), v)"
      by (auto simp: assert_shard_run split: if_splits)
    then show ?thesis using assms(2) ShardIncreaseAssetSupply
      by (auto elim!: increase_asset_supply_Ok simp: supply_of_def)
  qed (use assms(2) c(1) in \<open>auto simp: assert_shard_run supply_of_def [of _ 0] dest!: mint_asset_Ok
      dest: change_asset_scheme_Ok [of _ _ _ _ _ _ _ _ _ _ _ 0] split: if_splits\<close>)
  then show ?thesis using s' c(2,3) by (simp add: supply_of_def)
qed

text \<open>Compared with \<open>usize\<close>, lists of inputs are short.\<close>

fun input_count :: "shard_transaction \<Rightarrow> nat" where
  "input_count (ShardTransferAsset _ _ inputs _ _) = length inputs"
| "input_count _ = 0"

text \<open>
  C22: the supply of every asset is what is held of it. Applying a verified transaction (minting,
  transferring with or without orders and burns, changing a scheme, increasing a supply, wrapping
  and unwrapping CCC) to a shard keeps, for every asset type, the supply in its scheme equal to
  the sum of all its assets in the shard; no asset is created or destroyed otherwise.
\<close>

theorem shard_supply_invariant:
  assumes "action_verify oh a = Ok ()" "asset_transaction a = Some t \<or> (\<exists>n sid h out. t = ShardWrapCCC n sid h out)"
    and "input_count t < 2 ^ 64" "shard_ok s"
    and "shard_apply lib t sender users approvers s = (Ok (), s')"
  shows "shard_ok s'"
proof -
  obtain c v where c: "shard_apply_internal lib t sender users approvers c = (Inr (), v)"
    "sl_schemes c = sl_schemes s" "sl_assets c = sl_assets s"
    and s': "s' = s\<lparr>sl_schemes := sl_schemes v, sl_assets := sl_assets v\<rparr>"
    using assms(5) by (rule shard_apply_Ok)
  have ok: "shard_ok c" using assms(4) shard_ok_cong [OF c(2,3)] by simp
  have "shard_ok v"
    using assms(2)
  proof
    assume t: "asset_transaction a = Some t"
    show ?thesis
    proof (cases a)
      case (TransferAsset n burns inputs outputs orders mdata approvals expi)
      with t have t': "t = ShardTransferAsset n burns inputs outputs orders" by simp
      then have "balanced_transfer burns inputs outputs"
        using assms(1,3) TransferAsset by (intro verified_balanced) simp_all
      with c(1) ok show ?thesis unfolding t' by (auto intro: transfer_asset_ok)
    next
      case (UnwrapCCC n b receiver)
      with t c(1) obtain w where "unwrap_ccc lib (ShardUnwrapCCC n b receiver) sender b w = (Inr (), v)" "w = c"
        by (auto simp: assert_shard_run split: if_splits)
      with assms(1) UnwrapCCC ok show ?thesis by (auto intro: unwrap_ccc_ok split: if_splits)
    qed (use assms(1) t c(1) ok in \<open>auto simp: assert_shard_run
        intro: mint_asset_ok increase_asset_supply_ok change_asset_scheme_ok split: if_splits\<close>)
  next
    assume "\<exists>n sid h out. t = ShardWrapCCC n sid h out"
    with c(1) ok show ?thesis by (auto simp: assert_shard_run intro: wrap_ccc_ok split: if_splits)
  qed
  then show ?thesis using s' shard_ok_cong [of s' v] by simp
qed

section \<open>No panics\<close>

lemma reads_hoare:
  "reads m \<Longrightarrow> (\<And>p. fst (m s) \<noteq> Inl (Panic p)) \<Longrightarrow> hoare ((=) s) m (\<lambda>x t. t = s \<and> m s = (Inr x, s))"
  by (rule hoareI) (auto dest: readsD)

lemma check_input_asset_no_panic:
  "input_shard input = sl_shard_id s \<Longrightarrow> fst (check_input_asset input sender approvers s) \<noteq> Inl (Panic p)"
  by (auto simp: check_input_asset_def Let_def sbind_apply approved_by_registrar_run check_approver_run asset_of_def
      ok_or_def split: option.split)

lemma run_input_script_no_panic:
  assumes "spends_assets t"
  shows "run_input_script lib input t None burn sid a \<noteq> Inl (Panic p)"
proof -
  have "hashing_total (input_env lib t None input burn)"
    using assms by (simp add: hashing_total_def input_env_def shard_hash_partially_no_panic)
  then have "execute (input_env lib t None input burn) mx unlock params lock \<noteq> Panics p" for mx unlock params lock
    using exec_loop_no_panic [OF _ vm_inv_new] by (simp add: execute_def)
  moreover have "judge_script r burn = Panics p \<longleftrightarrow> r = Panics p" for r
    by (cases "(r, burn)" rule: judge_script.cases) auto
  ultimately show ?thesis by (auto simp: run_input_script_def Let_def split: sum.split)
qed

lemma check_and_run_no_panic:
  assumes "spends_assets t" "input_shard input = sl_shard_id s"
  shows "fst (check_and_run_input_script lib input t None burn sender approvers s) \<noteq> Inl (Panic p)"
proof -
  obtain r u where run: "check_input_asset input sender approvers s = (r, u)" by force
  show ?thesis
  proof (cases r)
    case (Inl f)
    then show ?thesis
      using run check_input_asset_no_panic [OF assms(2), of sender approvers p]
      by (simp add: check_and_run_input_script_def sbind_apply)
  next
    case (Inr x)
    then show ?thesis
      using run run_input_script_no_panic [OF assms(1)]
      by (cases x) (simp add: check_and_run_input_script_def sbind_apply)
  qed
qed

lemma check_spent_no_panic:
  "spends_assets t \<Longrightarrow> fst (check_spent lib t sender approvers (input, None, burn) s) \<noteq> Inl (Panic p)"
  by (simp add: check_spent_def in_this_shard_def check_and_run_no_panic)

lemma reads_sforeach_no_panic:
  assumes "\<And>x. reads (f x)" "\<And>x p. x \<in> set xs \<Longrightarrow> fst (f x s) \<noteq> Inl (Panic p)"
  shows "fst (sforeach xs f s) \<noteq> Inl (Panic p)"
  using assms(2)
proof (induction xs)
  case (Cons x xs)
  obtain r u where x: "f x s = (r, u)" by force
  then have "u = s" using assms(1) by (blast dest: readsD)
  with Cons.prems [of x p] Cons.IH Cons.prems x show ?case by (cases r) (auto simp: sbind_apply)
qed simp

lemma create_output_no_panic:
  assumes "sl_assets s (tr, n) = None"
  shows "fst (create_output tr sender approvers (n, out, oh) s) \<noteq> Inl (Panic p)"
proof (cases "out_shard_id out = sl_shard_id s")
  case True
  have "fst (check_output_script_hash out sender approvers s) \<noteq> Inl (Panic p)"
    using True by (auto simp: check_output_script_hash_def sbind_apply get_scheme_or_fail_run split: option.split)
  moreover have "snd (check_output_script_hash out sender approvers s) = s"
    using reads_checks(6) by (simp add: reads_def)
  ultimately show ?thesis
    using True assms
    by (cases "check_output_script_hash out sender approvers s"; cases "fst (check_output_script_hash out sender approvers s)")
      (auto simp: create_output_def in_this_shard_def sbind_apply create_asset_def asset_of_def)
next
  case False
  then show ?thesis by (simp add: create_output_def in_this_shard_def)
qed

lemma hoare_create_outputs:
  "hoare (\<lambda>t. sl_shard_id t = sid \<and> sl_schemes t = sch \<and> (\<forall>m. sl_assets t (tr, m) = None))
     (sforeach (zip [0..<length outs] outs) (create_output tr sender approvers))
     (\<lambda>_ t. sl_shard_id t = sid \<and> sl_schemes t = sch)"
proof -
  define I where "I d t \<longleftrightarrow> sl_shard_id t = sid \<and> sl_schemes t = sch \<and> (\<forall>m\<ge>length d. sl_assets t (tr, m) = None)"
    for d :: "(nat \<times> asset_transfer_output \<times> h256 option) list" and t :: shard_level
  let ?xs = "zip [0..<length outs] outs"
  have "hoare (I []) (sforeach ?xs (create_output tr sender approvers)) (\<lambda>_. I ?xs)"
  proof (rule hoare_sforeach_done)
    fix d x rest
    assume xs: "?xs = d @ x # rest"
    then have "length d < length ?xs" "?xs ! length d = x" by (simp_all only: length_append nth_append_length) simp
    then have "fst x = length d" by (auto simp: nth_zip)
    then obtain out oh where x: "x = (length d, out, oh)" by (cases x) auto
    show "hoare (I d) (create_output tr sender approvers x) (\<lambda>_. I (d @ [x]))"
    proof (rule hoareI)
      show "I (d @ [x]) t" if "I d t0" "create_output tr sender approvers x t0 = (Inr u, t)" for t0 u t
        using that create_output_Ok [OF that(2) [unfolded x]] by (auto simp: I_def)
      show False if "I d t0" "create_output tr sender approvers x t0 = (Inl (Panic p), t)" for t0 p t
        using that create_output_no_panic [of t0 tr "length d" sender approvers out oh p] by (simp add: I_def x)
    qed
  qed
  then show ?thesis by (rule hoare_conseq) (simp_all add: I_def)
qed

lemma hoare_burn_supplies:
  "hoare (\<lambda>t. sl_shard_id t = sid \<and>
       (\<forall>b\<in>set burns. input_shard b = sid \<longrightarrow> sl_schemes t (op_asset_type (in_prev_out b)) \<noteq> None) \<and>
       (\<forall>ty. in_total burns (ty, sid) \<le> supply_of t ty))
     (sforeach burns burn_supply) (\<lambda>_ _. True)"
proof -
  define I where "I d t \<longleftrightarrow> sl_shard_id t = sid \<and>
       (\<forall>b\<in>set burns. input_shard b = sid \<longrightarrow> sl_schemes t (op_asset_type (in_prev_out b)) \<noteq> None) \<and>
       (\<forall>ty. in_total burns (ty, sid) \<le> supply_of t ty + in_total d (ty, sid))" for d t
  have "hoare (I []) (sforeach burns burn_supply) (\<lambda>_. I burns)"
  proof (rule hoare_sforeach_done)
    fix d b rest
    assume bs: "burns = d @ b # rest"
    show "hoare (I d) (burn_supply b) (\<lambda>_. I (d @ [b]))"
    proof (rule hoareI)
      fix t u v
      assume t: "I d t" and run: "burn_supply b t = (Inr u, v)"
      have "input_shard b = sl_shard_id t \<Longrightarrow> sl_schemes t (op_asset_type (in_prev_out b)) \<noteq> None"
        using t bs by (simp add: I_def)
      from burn_supply_Ok [OF run this] have v: "sl_shard_id v = sl_shard_id t"
        "\<And>ty. same_terms (sl_schemes v ty) (sl_schemes t ty)"
        "\<And>ty. supply_of v ty + (if input_asset b = (ty, sl_shard_id t) then unat (input_quantity b) else 0) = supply_of t ty"
        by simp_all
      have sup: "in_total burns (ty, sid) \<le> supply_of v ty + in_total (d @ [b]) (ty, sid)" for ty
      proof -
        have "in_total burns (ty, sid) \<le> supply_of t ty + in_total d (ty, sid)" and "sl_shard_id t = sid"
          using t by (simp_all add: I_def)
        with v(3) [of ty] show ?thesis by (auto split: if_splits)
      qed
      show "I (d @ [b]) v" using t v(1) same_terms_None [OF v(2)] sup unfolding I_def by simp
    next
      fix t p v
      assume t: "I d t" and run: "burn_supply b t = (Inl (Panic p), v)"
      then have sid: "input_shard b = sid" "sl_shard_id t = sid"
        by (auto simp: I_def burn_supply_def in_this_shard_def split: if_splits)
      then obtain sc where sc: "sl_schemes t (op_asset_type (in_prev_out b)) = Some sc"
        using t bs by (auto simp: I_def)
      have "in_total burns (input_asset b) \<le> unat (as_supply sc) + in_total d (input_asset b)"
        using t [unfolded I_def] sc sid(1) spec [of _ "op_asset_type (in_prev_out b)"]
        by (auto simp: supply_of_def dest!: spec [of _ "op_asset_type (in_prev_out b)"])
      then have "input_quantity b \<le> as_supply sc" using bs by (simp add: word_le_nat_alt)
      then show False
        using run sid by (simp add: burn_supply_def in_this_shard_def get_asset_scheme_mut_run sbind_apply sc Let_def
            reduce_supply_def set_scheme_def)
    qed
  qed
  then show ?thesis by (rule hoare_conseq) (simp_all add: I_def)
qed

lemma transfer_without_orders_no_panic:
  assumes bal: "balanced_transfer burns inputs outputs" and ok: "shard_ok s"
    and t: "t = ShardTransferAsset n burns inputs outputs []"
    and fresh: "\<forall>i. sl_assets s (tracker_of lib t, i) = None"
  shows "fst (transfer_asset lib t sender approvers burns inputs outputs [] s) \<noteq> Inl (Panic p)"
proof -
  let ?sid = "sl_shard_id s"
  let ?killed = "s\<lparr>sl_assets := (\<lambda>k. if k \<in> spent ?sid (inputs @ burns) then None else sl_assets s k)\<rparr>"
  define checks where "checks = sforeach (map (\<lambda>(input, ord). (input, ord, False)) (zip inputs (replicate (length inputs) None)) @
      map (\<lambda>b. (b, None, True)) burns) (check_spent lib t sender approvers)"
  define create where "create = sforeach (zip [0..<length outputs] (zip outputs (replicate (length outputs) None)))
        (create_output (tracker_of lib t) sender approvers)"
  have run: "transfer_asset lib t sender approvers burns inputs outputs [] s =
      sbind checks (\<lambda>_. sbind (sforeach (inputs @ burns) kill_input) (\<lambda>_. sbind create (\<lambda>_. sforeach burns burn_supply))) s"
    by (simp add: transfer_asset_def values_to_hash_def output_order_hashes_def check_orders_def checks_def create_def)
  have reads: "reads checks" unfolding checks_def by (intro reading)
  have "fst (checks s) \<noteq> Inl (Panic p)"
    unfolding checks_def
  proof (rule reads_sforeach_no_panic [OF reads_check_spent])
    fix x :: "asset_transfer_input \<times> asset_order option \<times> bool" and p
    assume "x \<in> set (map (\<lambda>(input, ord). (input, ord, False)) (zip inputs (replicate (length inputs) None)) @
        map (\<lambda>b. (b, None, True)) burns)"
    then obtain input burn where "x = (input, None, burn)" by (fastforce dest: set_zip_rightD)
    then show "fst (check_spent lib t sender approvers x s) \<noteq> Inl (Panic p)"
      by (simp add: check_spent_no_panic t)
  qed
  moreover have "fst (sbind create (\<lambda>_. sforeach burns burn_supply) ?killed) \<noteq> Inl (Panic p)"
    if chk: "checks s = (Inr (), s)"
  proof -
    have b: "sl_schemes s (op_asset_type (in_prev_out b)) \<noteq> None \<and> may_spend lib s t (sender # approvers) b None True"
      if "b \<in> set burns" "input_shard b = ?sid" for b
      using reads_sforeach_Ok [OF reads_check_spent chk [unfolded checks_def], of "(b, None, True)"] that
      by (simp add: check_spent_Ok)
    have stored: "\<forall>i\<in>set burns. input_shard i = ?sid \<longrightarrow>
        (\<exists>a. sl_assets s (prev_out_id i) = Some a \<and> asset_type a = op_asset_type (in_prev_out i) \<and> quantity a = input_quantity i)"
      using b by (blast intro: may_spend_stored)
    have eq: "holdings (\<lambda>k. if k \<in> spent ?sid burns then None else sl_assets s k) ty + in_total burns (ty, ?sid) =
        holdings (sl_assets s) ty" for ty
      using ok bal by (intro holdings_spent [OF _ _ stored]) (simp_all add: shard_ok_def balanced_transfer_def)
    have le: "in_total burns (ty, ?sid) \<le> supply_of s ty" for ty
    proof -
      have "holdings (sl_assets s) ty = supply_of s ty" using ok by (simp add: shard_ok_def)
      with eq [of ty] show ?thesis by linarith
    qed
    have "hoare (\<lambda>u. sl_shard_id u = ?sid \<and> sl_schemes u = sl_schemes s \<and> (\<forall>m. sl_assets u (tracker_of lib t, m) = None))
        create (\<lambda>_ u. sl_shard_id u = ?sid \<and> sl_schemes u = sl_schemes s)"
      using hoare_create_outputs [of _ _ _ "zip outputs (replicate (length outputs) None)"] by (simp add: create_def)
    moreover have "hoare (\<lambda>u. sl_shard_id u = ?sid \<and> sl_schemes u = sl_schemes s) (sforeach burns burn_supply) (\<lambda>_ _. True)"
      by (rule hoare_pre [OF hoare_burn_supplies [of ?sid]]) (use b le in \<open>auto simp: supply_of_def\<close>)
    ultimately have "hoare (\<lambda>u. sl_shard_id u = ?sid \<and> sl_schemes u = sl_schemes s \<and> (\<forall>m. sl_assets u (tracker_of lib t, m) = None))
        (sbind create (\<lambda>_. sforeach burns burn_supply)) (\<lambda>_ _. True)"
      by (rule hoare_sbind)
    from hoare_no_panic [OF this, of ?killed p] fresh
    have "sbind create (\<lambda>_. sforeach burns burn_supply) ?killed \<noteq> (Inl (Panic p), v)" for v by simp
    then show ?thesis by (cases "sbind create (\<lambda>_. sforeach burns burn_supply) ?killed") auto
  qed
  moreover obtain r where "checks s = (r, s)" using reads by (metis prod.collapse reads_def)
  ultimately show ?thesis unfolding run by (cases r) (auto simp: sbind_apply kill_inputs_run)
qed

lemma create_asset_no_panic:
  "sl_assets s (tr, i) = None \<Longrightarrow> fst (create_asset tr i a s) \<noteq> Inl (Panic p)"
  by (simp add: create_asset_def asset_of_def)

lemma increase_supply_no_panic: "increase_supply q sc \<noteq> Inl (Panic p)"
  by (simp add: increase_supply_def Let_def)

lemma mint_asset_no_panic:
  assumes "sl_assets s (tr, 0) = None"
  shows "fst (mint_asset lib tr mdata out approver approvers registrar allowed sender users pool s) \<noteq> Inl (Panic p)"
  using assms by (auto simp: mint_asset_def Let_def asset_scheme_of_def sbind_apply create_asset_scheme_run
      create_asset_no_panic)

lemma change_asset_scheme_no_panic:
  "fst (change_asset_scheme sender approvers ty seq mdata approver registrar allowed s) \<noteq> Inl (Panic p)"
  by (auto simp: change_asset_scheme_def sbind_apply approved_by_registrar_run get_asset_scheme_mut_run Let_def
      set_scheme_def split: option.split)

lemma increase_asset_supply_no_panic:
  assumes "mo_supply out \<noteq> 0" "sl_assets s (tr, 0) = None"
  shows "fst (increase_asset_supply tr seq sender approvers ty out s) \<noteq> Inl (Panic p)"
proof -
  have "mo_supply out > 0" using assms(1) by (simp add: word_gt_0)
  then show ?thesis
    using assms(2) increase_supply_no_panic
    by (auto simp: increase_asset_supply_def sbind_apply approved_by_registrar_run get_asset_scheme_mut_run Let_def
        set_scheme_def create_asset_no_panic split: option.split sum.split)
qed

lemma wrap_ccc_no_panic:
  assumes "sl_assets s (h, 0) = None"
  shows "fst (wrap_ccc h lsh ps q s) \<noteq> Inl (Panic p)"
  using assms increase_supply_no_panic
  by (cases "sl_schemes s 0")
    (auto simp: wrap_ccc_def sbind_apply asset_scheme_of_def create_asset_scheme_run get_asset_scheme_mut_run Let_def
      set_scheme_def create_asset_no_panic split: sum.split)

lemma unwrap_ccc_no_panic:
  assumes "t = ShardUnwrapCCC n b receiver" "input_shard b = sl_shard_id s" "op_asset_type (in_prev_out b) = 0" "shard_ok s"
  shows "fst (unwrap_ccc lib t sender b s) \<noteq> Inl (Panic p)"
proof -
  let ?chk = "check_and_run_input_script lib b t None True sender [] s"
  have no: "fst ?chk \<noteq> Inl (Panic p)" by (rule check_and_run_no_panic) (use assms(1,2) in simp_all)
  have st: "snd ?chk = s" using reads_check_and_run by (simp add: reads_def)
  show ?thesis
  proof (cases "fst ?chk")
    case (Inl f)
    with no st show ?thesis by (cases ?chk) (auto simp: unwrap_ccc_def sbind_apply)
  next
    case (Inr x)
    with st have chk: "?chk = (Inr (), s)" by (cases ?chk) simp
    then have spend: "sl_schemes s 0 \<noteq> None" "may_spend lib s t [sender] b None True"
      using assms(3) by (simp_all add: check_and_run_Ok)
    then obtain sc where sc: "sl_schemes s 0 = Some sc" by auto
    from may_spend_stored [OF spend(2)] obtain a where a: "sl_assets s (prev_out_id b) = Some a" "asset_type a = 0"
        "quantity a = input_quantity b"
      using assms(3) by auto
    have "unat (quantity a) \<le> holdings (sl_assets s) 0"
      using assms(4) holdings_kill [of "sl_assets s" "prev_out_id b" a 0] a by (simp add: shard_ok_def)
    then have "input_quantity b \<le> as_supply sc"
      using assms(4) a(3) sc by (simp add: shard_ok_def supply_of_def word_le_nat_alt)
    with chk sc show ?thesis
      by (simp add: unwrap_ccc_def sbind_apply kill_asset_def get_asset_scheme_mut_run Let_def reduce_supply_def set_scheme_def)
  qed
qed

text \<open>
  C23: applying a verified transaction without orders to a shard it touches never panics, from a
  state in which supplies are what is held and with a tracker not used before. In particular the
  supply that a burn or an unwrapping subtracts is there.
\<close>

theorem shard_apply_no_panic:
  assumes "action_verify oh a = Ok ()" "asset_transaction a = Some t \<or> (\<exists>n sid h out. t = ShardWrapCCC n sid h out)"
    and "input_count t < 2 ^ 64" "shard_ok s" "sl_shard_id s \<in> set (related_shards t)"
    and "\<forall>i. sl_assets s (tracker_of lib t, i) = None"
    and orders: "\<forall>n burns inputs outputs orders. t = ShardTransferAsset n burns inputs outputs orders \<longrightarrow> orders = []"
  shows "fst (shard_apply lib t sender users approvers s) \<noteq> Panics p"
proof
  assume panic: "fst (shard_apply lib t sender users approvers s) = Panics p"
  define c where "c = snd (create_checkpoint 456 s)"
  have c: "sl_shard_id c = sl_shard_id s" "sl_schemes c = sl_schemes s" "sl_assets c = sl_assets s"
    by (simp_all add: c_def)
  have ok: "shard_ok c" using assms(4) shard_ok_cong [OF c(2,3)] by simp
  note fresh = assms(6) [folded c(3)]
  obtain r s' where run: "shard_apply lib t sender users approvers s = (r, s')" by force
  from run have internal: "fst (shard_apply_internal lib t sender users approvers c) = Panics p"
    unfolding c_def by (cases rule: shard_apply_cases) (use panic run in simp_all)
  show False
    using assms(2)
  proof
    assume t: "asset_transaction a = Some t"
    show False
    proof (cases a)
      case (TransferAsset n burns inputs outputs ords mdata approvals expi)
      with t have "t = ShardTransferAsset n burns inputs outputs ords" by simp
      with orders have t': "t = ShardTransferAsset n burns inputs outputs []" by blast
      then have "balanced_transfer burns inputs outputs"
        using assms(1,3) TransferAsset by (intro verified_balanced) simp_all
      from transfer_without_orders_no_panic [OF this ok t' fresh] internal show False by (simp add: t')
    next
      case (UnwrapCCC n b receiver)
      with t have t': "t = ShardUnwrapCCC n b receiver" by simp
      have "input_shard b = sl_shard_id c" using assms(5) t' c(1) by simp
      moreover have "op_asset_type (in_prev_out b) = 0" using assms(1) UnwrapCCC by (simp split: if_splits)
      ultimately have "fst (unwrap_ccc lib t sender b c) \<noteq> Panics p" by (rule unwrap_ccc_no_panic [OF t' _ _ ok])
      with internal \<open>input_shard b = sl_shard_id c\<close> show False by (simp add: t' assert_shard_run)
    qed (use assms(1,5) t internal fresh c(1) in \<open>auto simp: assert_shard_run mint_asset_no_panic
        change_asset_scheme_no_panic increase_asset_supply_no_panic split: if_splits\<close>)
  next
    assume "\<exists>n sid h out. t = ShardWrapCCC n sid h out"
    with internal assms(5) fresh c(1) show False by (auto simp: assert_shard_run wrap_ccc_no_panic)
  qed
qed

end
