(* ===== verification/Shard_Orders.thy ===== *)
theory Shard_Orders
  imports Shard_Supply Script_Standard
begin

text \<open>
  Orders in the state of a shard: which outputs carry the hash of an order, what that hash lets
  others do, and how the signature over an order can make the node panic. The second half holds
  the concrete runs on which the theorems on the shard apply.
\<close>

section \<open>Outputs marked with an order\<close>

lemma mark_outputs_nth:
  assumes "mark_outputs lib ot hs = (Inr hs' :: ('e, _) result)" "j < length hs"
  shows "length hs' = length hs \<and>
    (if j \<in> set (order_outputs ot) then \<exists>ord'. order_consume (spent_quantity ot) (ot_order ot) = (Ok ord' :: ('e, _) result) \<and>
       hs' ! j = Some (lib_order_hash lib ord') else hs' ! j = hs ! j)"
  using assms
  by (auto simp: mark_outputs_def rbind_eq_Ok_iff set_indices_nth dest: length_set_indices split: if_splits)

lemma marked_nth:
  assumes "rfold (mark_outputs lib) orders hs = (Inr hs' :: ('e, _) result)" "j < length hs"
    "distinct (concat (map order_outputs orders))"
  shows "if \<exists>ot\<in>set orders. j \<in> set (order_outputs ot)
    then \<exists>ot\<in>set orders. j \<in> set (order_outputs ot) \<and> (\<exists>ord'. order_consume (spent_quantity ot) (ot_order ot) = (Ok ord' :: ('e, _) result) \<and>
       hs' ! j = Some (lib_order_hash lib ord')) else hs' ! j = hs ! j"
  using assms
proof (induction orders arbitrary: hs)
  case (Cons ot orders)
  then obtain ws where ws: "mark_outputs lib ot hs = (Inr ws :: ('e, _) result)"
    "rfold (mark_outputs lib) orders ws = (Inr hs' :: ('e, _) result)"
    by (cases "mark_outputs lib ot hs :: ('e, _) result") auto
  note one = mark_outputs_nth [OF ws(1) Cons.prems(2)]
  have "j < length ws" using one Cons.prems(2) by simp
  note IH = Cons.IH [OF ws(2) this]
  show ?case
  proof (cases "\<exists>ot\<in>set orders. j \<in> set (order_outputs ot)")
    case True
    with IH Cons.prems(3) show ?thesis by auto
  next
    case False
    with IH Cons.prems(3) one show ?thesis by (auto split: if_splits)
  qed
qed simp

lemma distinct_concat_unique:
  "distinct (concat (map f xs)) \<Longrightarrow> x \<in> set xs \<Longrightarrow> y \<in> set xs \<Longrightarrow> j \<in> set (f x) \<Longrightarrow> j \<in> set (f y) \<Longrightarrow> x = y"
  by (induction xs) auto

lemma output_hash_of_order:
  assumes "output_order_hashes lib orders n = (Inr hs :: ('e, _) result)"
    "distinct (concat (map order_outputs orders))" "ot \<in> set orders" "j \<in> set (order_outputs ot)" "j < n"
  shows "\<exists>ord'. order_consume (spent_quantity ot) (ot_order ot) = (Ok ord' :: ('e, _) result) \<and>
    hs ! j = Some (lib_order_hash lib ord')"
proof -
  have "\<exists>ot'\<in>set orders. j \<in> set (order_outputs ot') \<and>
      (\<exists>ord'. order_consume (spent_quantity ot') (ot_order ot') = (Ok ord' :: ('e, _) result) \<and> hs ! j = Some (lib_order_hash lib ord'))"
    using marked_nth [OF assms(1) [unfolded output_order_hashes_def], of j] assms(2-5) by (simp split: if_splits)
  then show ?thesis using distinct_concat_unique [OF assms(2,3)] assms(4) by blast
qed

lemma created_nth:
  "created sid tr n outs (tr, n + j) =
     (if j < length outs \<and> out_shard_id (fst (outs ! j)) = sid
      then Some (output_item (fst (outs ! j)) (snd (outs ! j))) else None)"
proof (induction sid tr n outs arbitrary: j rule: created.induct)
  case (2 sid tr n out oh outs)
  show ?case
  proof (cases j)
    case 0
    have "created sid tr (Suc n) outs (tr, n) = None"
      using created_key [of sid tr "Suc n" outs "(tr, n)"] by (cases "created sid tr (Suc n) outs (tr, n)") auto
    with 0 show ?thesis by simp
  next
    case (Suc k)
    with "2.IH" [of k] show ?thesis by simp
  qed
qed simp

text \<open>
  C24: a relayer's fee is not safe while the order it was paid for is open. The outputs that pay
  the fee of a partly filled order carry the hash of the rest of the order, like the maker's own;
  whoever fills that rest can therefore spend the relayer's output as an input of the order, with
  arbitrary scripts, signed by nobody.
\<close>

theorem order_fee_spendable_without_script:
  assumes run: "shard_apply lib t sender users approvers s = (Ok (), s')"
    and t: "t = ShardTransferAsset n burns inputs outputs orders"
    and idx: "verify_order_indices orders (length inputs) (length outputs) = Ok ()"
    and ot: "ot \<in> set orders" "j \<in> set (output_transferred_fee_indices ot)"
    and out: "out_shard_id (outputs ! j) = sl_shard_id s"
    and sc: "sl_schemes s (out_asset_type (outputs ! j)) = Some sc" "as_approver sc = None"
    and input: "in_prev_out input = \<lparr>op_tracker = tracker_of lib t, op_index = j,
      op_asset_type = out_asset_type (outputs ! j), op_shard_id = out_shard_id (outputs ! j), op_quantity = out_quantity (outputs ! j)\<rparr>"
  shows "\<exists>rest. order_consume (spent_quantity ot) (ot_order ot) = (Ok rest :: (state_error, _) result) \<and>
    check_and_run_input_script lib input t' (Some rest) False sender' approvers' s' = (Ok (), s')"
proof -
  obtain c v where c: "shard_apply_internal lib t sender users approvers c = (Inr (), v)"
    "sl_shard_id c = sl_shard_id s" "sl_schemes c = sl_schemes s" "sl_assets c = sl_assets s"
    and s': "s' = s\<lparr>sl_schemes := sl_schemes v, sl_assets := sl_assets v\<rparr>"
    using run by (rule shard_apply_Ok)
  have "transfer_asset lib t sender approvers burns inputs outputs orders c = (Inr (), v)" using c(1) t by simp
  note eff = transfer_effect [OF this]
  from eff obtain hs where hs: "output_order_hashes lib orders (length outputs) = (Inr hs :: (state_error, _) result)"
      "length hs = length outputs"
    and v: "sl_assets v = (\<lambda>k. if k \<in> spent (sl_shard_id c) (inputs @ burns) then None else sl_assets c k) ++
        created (sl_shard_id c) (tracker_of lib t) 0 (zip outputs hs)"
    by blast
  have j: "j \<in> set (order_outputs ot)" using ot(2) by (simp add: order_outputs_def)
  have jl: "j < length outputs" using idx ot(1) j unfolding verify_order_indices_Ok by auto
  obtain rest where rest: "order_consume (spent_quantity ot) (ot_order ot) = (Ok rest :: (state_error, _) result)"
      "hs ! j = Some (lib_order_hash lib rest)"
    using output_hash_of_order [OF hs(1) _ ot(1) j jl] idx unfolding verify_order_indices_Ok by blast
  have "created (sl_shard_id c) (tracker_of lib t) 0 (zip outputs hs) (tracker_of lib t, j) =
      Some (output_item (outputs ! j) (hs ! j))"
    using created_nth [of "sl_shard_id c" "tracker_of lib t" 0 "zip outputs hs" j] jl hs(2) out c(2) by simp
  then have stored: "stored_as s' (in_prev_out input) (output_item (outputs ! j) (hs ! j))"
    by (simp add: stored_as_def input s' v)
  have "same_terms (sl_schemes s' (out_asset_type (outputs ! j))) (sl_schemes s (out_asset_type (outputs ! j)))"
    using eff c(3) by (simp add: s')
  then obtain sc' where sc': "sl_schemes s' (out_asset_type (outputs ! j)) = Some sc'" "as_approver sc' = None"
    using sc by (cases "sl_schemes s' (out_asset_type (outputs ! j))") (auto simp: same_terms_def dest: arg_cong [where f = as_approver])
  have "oa_order_hash (output_item (outputs ! j) (hs ! j)) = Some (lib_order_hash lib rest)"
    using rest(2) by (simp add: output_item_def owned_asset_new_def)
  with stored sc' have "may_spend lib s' t' (sender' # approvers') input (Some rest) False"
    unfolding may_spend_def approver_signed_def by (intro exI [of _ "output_item (outputs ! j) (hs ! j)"]) simp
  then show ?thesis
    using rest(1) sc'(1) out by (intro exI [of _ rest]) (simp add: check_and_run_Ok input s')
qed

section \<open>A panic\<close>

lemma p2pkh_order_panics:
  assumes "length pk = 64" "length sig = 65" "env_hash_partially env = order_hash_partially oh ord"
  shows "execute env default_max_memory [PushB sig, PushB [0], PushB pk] [be_bytes (env_blake160 env pk)] p2pkh_lock =
    Panics ''tag.sign_all_inputs''"
proof -
  let ?us = "[sig, [0 :: u8]]" and ?pkh = "be_bytes (env_blake160 env pk)"
  have fits: "sum_list (map length (?us @ [pk, ?pkh])) \<le> default_max_memory" "p2pkh_fits default_max_memory (?us @ [pk]) ?pkh"
    using assms by (simp_all add: default_max_memory_def p2pkh_fits_def)
  have "execute env default_max_memory [PushB sig, PushB [0], PushB pk] [?pkh] p2pkh_lock =
      run env p2pkh_lock (stack_of default_max_memory (?us @ [pk, ?pkh]))"
    using fits(1) by (simp add: execute_eq_run is_valid_unlock_script_def Let_def del: run.simps)
  also have "\<dots> = run env [ChkSig] (stack_of default_max_memory (?us @ [pk]))"
    using run_p2pkh [OF fits(1)] fits(2) by simp
  also have "\<dots> = Panics ''tag.sign_all_inputs''"
    using assms pop_stack_of(2) [of default_max_memory "[sig, [0]]" pk]
    by (simp add: exec_chksig_def sbind_apply assert_len_def hash_for_tag_def tag_try_new_def order_hash_partially_def Let_def rassert_def)
  finally show ?thesis .
qed

lemma set_indices_total: "\<forall>i\<in>set is. i < length xs \<Longrightarrow> \<exists>ys. set_indices v is xs = (Inr ys :: ('e, _) result)"
  by (induction "is" arbitrary: xs) auto

lemma values_to_hash_total:
  assumes "\<forall>i\<in>set (concat (map order_inputs orders)). i < n"
  shows "\<exists>vs. values_to_hash orders n = (Inr vs :: ('e, _) result)"
proof -
  let ?f = "\<lambda>ot. set_indices (Some (ot_order ot)) (order_inputs ot)"
  have "\<exists>vs. rfold ?f ots ws = (Inr vs :: ('e, _) result)" if "length ws = n" "set ots \<subseteq> set orders" for ots ws
    using that
  proof (induction ots arbitrary: ws)
    case (Cons ot ots)
    then obtain xs where xs: "?f ot ws = (Inr xs :: ('e, _) result)"
      using assms set_indices_total [of "order_inputs ot" ws "Some (ot_order ot)"] by fastforce
    then show ?case using Cons length_set_indices [OF xs] by simp
  qed simp
  then show ?thesis unfolding values_to_hash_def by simp
qed

lemma check_spent_panics:
  assumes "oa_order_hash a \<noteq> Some (lib_order_hash lib ord)"
    and a: "input_shard input = sl_shard_id s" "stored_as s (in_prev_out input) a"
      "approver_signed s (asset_type a) (sender # approvers)" "\<not> registrar_signed s (asset_type a) (sender # approvers)"
    and lock: "in_lock_script input = [53, 1, 148, 17, 34, 255, 128]"
      "oa_lock_script_hash a = env_blake160 (lib_vm lib) (in_lock_script input)"
      "oa_parameters a = [be_bytes (env_blake160 (lib_vm lib) pk)]"
    and unlock: "decode (in_unlock_script input) = Ok [PushB sig, PushB [0], PushB pk]" "length pk = 64" "length sig = 65"
  shows "check_spent lib t sender approvers (input, Some ord, False) s = (Panics ''tag.sign_all_inputs'', s)"
proof -
  have "check_input_asset input sender approvers s = (Inr (a, False), s)"
    unfolding check_input_asset_Ok using a by (auto simp: approver_signed_def)
  moreover have "run_input_script lib input t (Some ord) False (sl_shard_id s) a = Panics ''tag.sign_all_inputs''"
    using p2pkh_order_panics [OF unlock(2,3), of "input_env lib t (Some ord) input False" "lib_order_hash lib" ord]
      lock unlock(1) by (simp add: run_input_script_def Let_def p2pkh_lock_bytes input_env_def)
  ultimately show ?thesis
    using a(1) assms(1)
    by (auto simp: check_spent_def in_this_shard_def check_and_run_input_script_def sbind_apply split: option.split)
qed

text \<open>
  C25: a transfer can make every node that applies it panic. An input under an order is checked
  against the hash of the order, and that hash asserts that the tag on the stack signs all inputs
  and outputs; the tag is the spender's to choose. The holder of any output locked to a public key
  hash, spending it as the first input under an order with tag \<open>0\<close> (and any signature at all), makes
  the application of the transaction panic.
\<close>

theorem order_tag_panics:
  assumes t: "t = ShardTransferAsset n burns (input # inputs) outputs orders"
    and idx: "verify_order_indices orders (length (input # inputs)) (length outputs) = Ok ()"
    and ord: "ot \<in> set orders" "0 \<in> set (order_inputs ot)" "oa_order_hash a \<noteq> Some (lib_order_hash lib (ot_order ot))"
    and a: "input_shard input = sl_shard_id s" "stored_as s (in_prev_out input) a"
      "approver_signed s (asset_type a) (sender # approvers)" "\<not> registrar_signed s (asset_type a) (sender # approvers)"
    and lock: "in_lock_script input = [53, 1, 148, 17, 34, 255, 128]"
      "oa_lock_script_hash a = env_blake160 (lib_vm lib) (in_lock_script input)"
      "oa_parameters a = [be_bytes (env_blake160 (lib_vm lib) pk)]"
    and unlock: "decode (in_unlock_script input) = Ok [PushB sig, PushB [0], PushB pk]" "length pk = 64" "length sig = 65"
  shows "fst (shard_apply lib t sender users approvers s) = Panics ''tag.sign_all_inputs''"
proof -
  let ?c = "snd (create_checkpoint 456 s)"
  note idx = idx [unfolded verify_order_indices_Ok]
  obtain vs where vs: "values_to_hash orders (length (input # inputs)) = (Inr vs :: (state_error, _) result)"
    using values_to_hash_total idx by blast
  have len: "length vs = Suc (length inputs)" and "order_of_input orders 0 (vs ! 0)"
    using values_to_hash_spec [OF vs] by auto
  then obtain ot' where "ot' \<in> set orders" "0 \<in> set (order_inputs ot')" "vs ! 0 = Some (ot_order ot')"
    using ord(1,2) by (auto simp: order_of_input_def split: option.splits)
  then have "vs ! 0 = Some (ot_order ot)" using distinct_concat_unique [of order_inputs orders ot ot' 0] idx ord(1,2) by blast
  with len obtain ws where ws: "vs = Some (ot_order ot) # ws" by (cases vs) auto
  have "check_spent lib t sender approvers (input, Some (ot_order ot), False) ?c = (Panics ''tag.sign_all_inputs'', ?c)"
    using a by (intro check_spent_panics [OF ord(3) _ _ _ _ lock unlock])
      (simp_all add: stored_as_def approver_signed_def registrar_signed_def)
  then have "shard_apply_internal lib t sender users approvers ?c = (Panics ''tag.sign_all_inputs'', ?c)"
    using vs [unfolded ws] by (simp add: t transfer_asset_def sbind_apply)
  then show ?thesis
    by (simp add: shard_apply_def create_checkpoint_def TRANSACTION_CHECKPOINT_def)
qed

section \<open>Concrete runs\<close>

definition sample_lib :: shard_lib where
  "sample_lib = \<lparr>lib_vm = sample_env, lib_blake_rlp = (\<lambda>_. 77), lib_asset_type = (\<lambda>_. 5),
     lib_order_hash = (\<lambda>ord. ucast (asset_quantity_from ord)), lib_hash_with_tag = (\<lambda>_ _. 3)\<rparr>"

definition plain_scheme :: "u64 \<Rightarrow> asset_scheme" where
  "plain_scheme q = new_with_pool [] q None None [] []"

text \<open>Three assets, all locked by the script that succeeds at once.\<close>

definition sample_shard :: shard_level where
  "sample_shard = from_existing 0 [1 \<mapsto> plain_scheme 10, 2 \<mapsto> plain_scheme 10, 3 \<mapsto> plain_scheme 10]
     [(3, 0) \<mapsto> owned_asset_new 1 2 [] 10 None, (3, 1) \<mapsto> owned_asset_new 3 2 [] 10 None,
      (3, 2) \<mapsto> owned_asset_new 2 2 [] 10 None]"

definition open_input :: "nat \<Rightarrow> h160 \<Rightarrow> u64 \<Rightarrow> asset_transfer_input" where
  "open_input index ty q = \<lparr>in_prev_out = sample_prev_out index ty q, in_timelock = None, in_lock_script = [2],
     in_unlock_script = []\<rparr>"

definition plain_output :: "h160 \<Rightarrow> h160 \<Rightarrow> u64 \<Rightarrow> asset_transfer_output" where
  "plain_output lsh ty q = \<lparr>out_lock_script_hash = lsh, out_parameters = [], out_asset_type = ty, out_shard_id = 0,
     out_quantity = q\<rparr>"

definition plain_transfer :: shard_transaction where
  "plain_transfer = ShardTransferAsset 17 [] [open_input 0 1 10] [plain_output 9 1 4, plain_output 8 1 6] []"

text \<open>Half of an order to exchange 10 of asset 1 for 20 of asset 2, with a fee of 10 of asset 3.\<close>

definition fee_order :: asset_order where
  "fee_order = \<lparr>asset_type_from = 1, asset_type_to = 2, asset_type_fee = 3, shard_id_from = 0, shard_id_to = 0,
     shard_id_fee = 0, asset_quantity_from = 10, asset_quantity_to = 20, asset_quantity_fee = 10,
     origin_outputs = [sample_prev_out 0 1 10, sample_prev_out 1 3 10], order_expiration = 0,
     lock_script_hash_from = 7, parameters_from = [], lock_script_hash_fee = 8, parameters_fee = []\<rparr>"

definition fee_fill :: order_on_transfer where
  "fee_fill = \<lparr>ot_order = fee_order, spent_quantity = 5, input_from_indices = [0], input_fee_indices = [1],
     output_from_indices = [0], output_to_indices = [1], output_owned_fee_indices = [2],
     output_transferred_fee_indices = [3]\<rparr>"

definition fee_outputs :: "asset_transfer_output list" where
  "fee_outputs = [plain_output 7 1 5, plain_output 7 2 10, plain_output 7 3 5, plain_output 8 3 5, plain_output 9 1 5]"

definition fee_transfer :: shard_transaction where
  "fee_transfer = ShardTransferAsset 17 [] [open_input 0 1 10, open_input 1 3 10, open_input 2 2 10] fee_outputs [fee_fill]"

lemma plain_transfer_runs: "fst (shard_apply sample_lib plain_transfer 1 [] [] sample_shard) = Ok ()"
  by code_simp

lemma fee_transfer_runs: "fst (shard_apply sample_lib fee_transfer 1 [] [] sample_shard) = Ok ()"
  by code_simp

lemma runs_to: "fst r = x \<Longrightarrow> r = (x, snd r)"
  by (cases r) simp

lemma holdings_empty [simp]: "holdings Map.empty ty = 0"
  by (simp add: holdings_def)

lemma sample_shard_ok: "shard_ok sample_shard"
proof -
  have "holdings (sl_assets sample_shard) ty = supply_of sample_shard ty" for ty
    by (simp add: sample_shard_def from_existing_def holdings_create supply_of_def plain_scheme_def new_with_pool_def)
  moreover have "finite (dom (sl_assets sample_shard))" by (simp add: sample_shard_def from_existing_def)
  ultimately show ?thesis by (simp add: shard_ok_def)
qed

definition plain_action :: action where
  "plain_action = TransferAsset 17 [] [open_input 0 1 10] [plain_output 9 1 4, plain_output 8 1 6] [] [] [] None"

lemma plain_action_verified: "action_verify oh plain_action = Ok ()"
proof -
  have "is_input_and_output_consistent [open_input 0 1 10] [plain_output 9 1 4, plain_output 8 1 6]"
    by (subst is_input_and_output_consistent_iff)
      (auto simp: open_input_def plain_output_def sample_prev_out_def in_total_def out_total_def)
  then have "verify_transfer oh [] [open_input 0 1 10] [plain_output 9 1 4, plain_output 8 1 6] [] = Ok ()"
    unfolding verify_transfer_parts verify_order_indices_Ok
    by (simp add: open_input_def plain_output_def sample_prev_out_def)
  then show ?thesis by (simp add: plain_action_def)
qed

theorem shard_apply_error_unchanged_witness:
  "snd (shard_apply sample_lib (ShardUnwrapCCC 17 sample_input 5) 1 [] [] sample_shard) = sample_shard"
proof -
  have "fst (shard_apply sample_lib (ShardUnwrapCCC 17 sample_input 5) 1 [] [] sample_shard) = Error (AssetSchemeNotFound 0 0)"
    by code_simp
  from shard_apply_error_unchanged [OF runs_to [OF this]] show ?thesis .
qed

theorem transfer_spends_authorised_witness:
  "\<exists>ord. order_of_input [] 0 ord \<and> may_spend sample_lib sample_shard plain_transfer [1] (open_input 0 1 10) ord False"
proof -
  have "sl_shard_id sample_shard = 0" "input_shard (open_input 0 1 10) = 0"
    by (simp_all add: sample_shard_def from_existing_def open_input_def sample_prev_out_def)
  then show ?thesis
    using transfer_spends_authorised [OF runs_to [OF plain_transfer_runs]
        plain_transfer_def] by simp
qed

theorem shard_supply_invariant_witness:
  "shard_ok (snd (shard_apply sample_lib plain_transfer 1 [] [] sample_shard))"
proof (rule shard_supply_invariant)
  show "action_verify (\<lambda>_. 0) plain_action = Ok ()" by (rule plain_action_verified)
  show "shard_ok sample_shard" by (rule sample_shard_ok)
  show "shard_apply sample_lib plain_transfer 1 [] [] sample_shard = (Ok (), snd (shard_apply sample_lib plain_transfer 1 [] [] sample_shard))"
    by (rule runs_to [OF plain_transfer_runs])
qed (simp_all add: plain_action_def plain_transfer_def)

theorem shard_apply_no_panic_witness:
  "\<forall>p. fst (shard_apply sample_lib plain_transfer 1 [] [] sample_shard) \<noteq> Panics p"
proof
  fix p
  show "fst (shard_apply sample_lib plain_transfer 1 [] [] sample_shard) \<noteq> Panics p"
  proof (rule shard_apply_no_panic)
    show "action_verify (\<lambda>_. 0) plain_action = Ok ()" by (rule plain_action_verified)
    show "shard_ok sample_shard" by (rule sample_shard_ok)
  qed (simp_all add: plain_action_def plain_transfer_def sample_shard_def from_existing_def open_input_def
      sample_prev_out_def sample_lib_def)
qed

text \<open>The relayer's output 3 of the transfer above, spent with empty scripts by address 99.\<close>

theorem order_fee_spendable_without_script_witness:
  "\<exists>rest. check_and_run_input_script sample_lib
     \<lparr>in_prev_out = \<lparr>op_tracker = 77, op_index = 3, op_asset_type = 3, op_shard_id = 0, op_quantity = 5\<rparr>,
      in_timelock = None, in_lock_script = [], in_unlock_script = []\<rparr>
     plain_transfer (Some rest) False 99 [] (snd (shard_apply sample_lib fee_transfer 1 [] [] sample_shard)) =
       (Ok (), snd (shard_apply sample_lib fee_transfer 1 [] [] sample_shard))"
proof -
  let ?input = "\<lparr>in_prev_out = \<lparr>op_tracker = 77, op_index = 3, op_asset_type = 3, op_shard_id = 0, op_quantity = 5\<rparr>,
      in_timelock = None, in_lock_script = [], in_unlock_script = []\<rparr>"
  have "verify_order_indices [fee_fill] (length [open_input 0 1 10, open_input 1 3 10, open_input 2 2 10]) (length fee_outputs) = Ok ()"
    by (simp add: verify_order_indices_Ok fee_fill_def order_inputs_def order_outputs_def fee_outputs_def)
  from order_fee_spendable_without_script [OF runs_to [OF fee_transfer_runs]
      fee_transfer_def this, of fee_fill 3 "plain_scheme 10" ?input plain_transfer 99 "[]"]
  show ?thesis
    by (auto simp: fee_fill_def fee_outputs_def plain_output_def sample_shard_def from_existing_def plain_scheme_def
        new_with_pool_def fee_transfer_def sample_lib_def)
qed

text \<open>An asset locked to the hash of a key, spent under an order with a signature of zeros.\<close>

definition zero_key :: bytes where
  "zero_key = replicate 64 0"

definition keyed_shard :: shard_level where
  "keyed_shard = from_existing 0 [1 \<mapsto> plain_scheme 10]
     [(3, 0) \<mapsto> owned_asset_new 1 (of_be_bytes [53, 1, 148, 17, 34, 255, 128]) [be_bytes (of_be_bytes zero_key :: h160)] 10 None]"

definition keyed_input :: asset_transfer_input where
  "keyed_input = \<lparr>in_prev_out = sample_prev_out 0 1 10, in_timelock = None,
     in_lock_script = [53, 1, 148, 17, 34, 255, 128],
     in_unlock_script = concat (map encode_instr [PushB (replicate 65 0), PushB [0], PushB zero_key])\<rparr>"

theorem order_tag_panics_witness:
  "fst (shard_apply sample_lib (ShardTransferAsset 17 [] [keyed_input, open_input 1 2 20] sample_outputs [sample_on_transfer]) 1 [] []
     keyed_shard) = Panics ''tag.sign_all_inputs''"
proof (rule order_tag_panics [OF refl])
  let ?a = "owned_asset_new 1 (of_be_bytes [53, 1, 148, 17, 34, 255, 128]) [be_bytes (of_be_bytes zero_key :: h160)] 10 None"
  show "verify_order_indices [sample_on_transfer] (length [keyed_input, open_input 1 2 20]) (length sample_outputs) = Ok ()"
    by (simp add: verify_order_indices_Ok sample_on_transfer_def order_inputs_def order_outputs_def sample_outputs_def)
  show "sample_on_transfer \<in> set [sample_on_transfer]" "0 \<in> set (order_inputs sample_on_transfer)"
    by (simp_all add: sample_on_transfer_def order_inputs_def)
  show "stored_as keyed_shard (in_prev_out keyed_input) ?a" "input_shard keyed_input = sl_shard_id keyed_shard"
    by (simp_all add: stored_as_def keyed_shard_def keyed_input_def from_existing_def sample_prev_out_def)
  show "approver_signed keyed_shard (asset_type ?a) [1]" "\<not> registrar_signed keyed_shard (asset_type ?a) [1]"
    by (simp_all add: approver_signed_def registrar_signed_def keyed_shard_def from_existing_def plain_scheme_def new_with_pool_def)
  show "decode (in_unlock_script keyed_input) = Ok [PushB (replicate 65 0), PushB [0], PushB zero_key]"
    using decode_loop_encode [of "[PushB (replicate 65 0), PushB [0], PushB zero_key]" "[]"]
    by (simp add: keyed_input_def decode_def zero_key_def)
qed (simp_all add: keyed_input_def owned_asset_new_def sample_lib_def sample_env_def zero_key_def)

end
