(* ===== verification/Top_Apply.thy ===== *)
theory Top_Apply
  imports Top_State Shard_Supply
begin

text \<open>
  Applying a transaction to the top level state (\<open>state/src/impls/top_level.rs\<close>: \<open>apply\<close>,
  \<open>apply_internal\<close>, \<open>apply_action\<close>, the checkpoints and the shard caches).

  The state extends the one of \<open>Top_State\<close> by the caches of the shards and the checkpoints. A
  shard that has no cache yet is read from the database under its root; \<open>tl_content\<close> is what the
  database holds there. The cache of a shard stands for its schemes and assets and has its own stack
  of snapshots: a checkpoint of the top level is taken in the shard caches that exist at that
  moment, as in the code. A custom action handler is a parameter, an operation on the whole state.
  Errors of the database are not modelled.
\<close>

section \<open>State\<close>

record shard_cache_view =
  sc_schemes :: scheme_map
  sc_assets :: asset_map
  sc_snaps :: "(scheme_map \<times> asset_map) list"

record 'd top_level = "'d top_state" +
  shard_caches :: "shard_id \<Rightarrow> shard_cache_view option"
  top_snaps :: "'d top_state list"
  top_ids :: "nat list"

type_synonym ('d, 'a) level_op = "('d top_level, state_error, 'a) sop"

record 'd top_lib =
  tl_keys :: key_lib
  tl_shard :: shard_lib
  tl_content :: "h256 \<Rightarrow> scheme_map \<times> asset_map"
  tl_tx_hash :: "transaction \<Rightarrow> h256"
  tl_handler :: "u64 \<Rightarrow> (bytes \<Rightarrow> address \<Rightarrow> public \<Rightarrow> ('d, unit) level_op) option"

section \<open>Checkpoints\<close>

definition FEE_CHECKPOINT :: nat where
  "FEE_CHECKPOINT = 123"

definition ACTION_CHECKPOINT :: nat where
  "ACTION_CHECKPOINT = 130"

definition cache_checkpoint :: "shard_cache_view \<Rightarrow> shard_cache_view" where
  "cache_checkpoint c = c\<lparr>sc_snaps := (sc_schemes c, sc_assets c) # sc_snaps c\<rparr>"

definition cache_discard :: "shard_cache_view \<Rightarrow> shard_cache_view" where
  "cache_discard c = c\<lparr>sc_snaps := tl (sc_snaps c)\<rparr>"

definition cache_revert :: "shard_cache_view \<Rightarrow> shard_cache_view" where
  "cache_revert c = (case sc_snaps c of
     [] \<Rightarrow> c
   | (sch, ast) # snaps \<Rightarrow> \<lparr>sc_schemes = sch, sc_assets = ast, sc_snaps = snaps\<rparr>)"

definition top_create_checkpoint :: "nat \<Rightarrow> ('d, unit) level_op" where
  "top_create_checkpoint i = smodify (\<lambda>s. s\<lparr>top_ids := top_ids s @ [i],
     top_snaps := top_state.truncate s # top_snaps s,
     shard_caches := (\<lambda>sid. map_option cache_checkpoint (shard_caches s sid))\<rparr>)"

definition top_pop_checkpoint :: "nat \<Rightarrow> ('d, unit) level_op" where
  "top_pop_checkpoint i =
     sbind (sget top_ids) (\<lambda>ids.
       if ids = [] then spanic ''The checkpoint must exist''
       else sbind (smodify (\<lambda>s. s\<lparr>top_ids := butlast ids\<rparr>)) (\<lambda>_.
         sassert ''expected == id'' (last ids = i)))"

definition top_discard_checkpoint :: "nat \<Rightarrow> ('d, unit) level_op" where
  "top_discard_checkpoint i =
     sbind (top_pop_checkpoint i) (\<lambda>_. smodify (\<lambda>s. s\<lparr>top_snaps := tl (top_snaps s),
       shard_caches := (\<lambda>sid. map_option cache_discard (shard_caches s sid))\<rparr>))"

definition restore :: "'d top_state \<Rightarrow> 'd top_level \<Rightarrow> 'd top_level" where
  "restore b s = s\<lparr>accounts := accounts b, regular_accounts := regular_accounts b, md := md b,
     shards := shards b, texts := texts b, action_data := action_data b\<rparr>"

definition top_revert_to_checkpoint :: "nat \<Rightarrow> ('d, unit) level_op" where
  "top_revert_to_checkpoint i =
     sbind (top_pop_checkpoint i) (\<lambda>_. smodify (\<lambda>s.
       (case top_snaps s of [] \<Rightarrow> s | b # snaps \<Rightarrow> restore b (s\<lparr>top_snaps := snaps\<rparr>))
       \<lparr>shard_caches := (\<lambda>sid. map_option cache_revert (shard_caches s sid))\<rparr>))"

section \<open>Shards\<close>

text \<open>\<open>self.shard_caches.entry(shard_id).or_default()\<close>: an empty cache stands for what the
  database holds.\<close>

definition empty_cache :: "scheme_map \<times> asset_map \<Rightarrow> shard_cache_view" where
  "empty_cache c = \<lparr>sc_schemes = fst c, sc_assets = snd c, sc_snaps = []\<rparr>"

definition cache_entry :: "'d top_lib \<Rightarrow> shard_id \<Rightarrow> h256 \<Rightarrow> ('d, shard_cache_view) level_op" where
  "cache_entry lib sid root =
     sbind (sget (\<lambda>s. shard_caches s sid)) (\<lambda>found.
       let c = (case found of Some c \<Rightarrow> c | None \<Rightarrow> empty_cache (tl_content lib root)) in
       sbind (smodify (\<lambda>s. s\<lparr>shard_caches := (shard_caches s)(sid \<mapsto> c)\<rparr>)) (\<lambda>_. sreturn c))"

text \<open>The state of the shard works on its cache; its checkpoint ids are its own.\<close>

definition open_shard :: "shard_id \<Rightarrow> shard_cache_view \<Rightarrow> shard_level" where
  "open_shard sid c = (from_existing sid (sc_schemes c) (sc_assets c))\<lparr>sl_snaps := sc_snaps c\<rparr>"

definition on_shard :: "shard_id \<Rightarrow> shard_cache_view \<Rightarrow> 'a shard_op \<Rightarrow> ('d, 'a) level_op" where
  "on_shard sid c m s = (case m (open_shard sid c) of
     (r, u) \<Rightarrow> (r, s\<lparr>shard_caches := (shard_caches s)(sid \<mapsto>
       \<lparr>sc_schemes = sl_schemes u, sc_assets = sl_assets u, sc_snaps = sl_snaps u\<rparr>)\<rparr>))"

definition apply_shard_transaction_to_shard :: "'d top_lib \<Rightarrow> shard_transaction \<Rightarrow> address \<Rightarrow>
    address list \<Rightarrow> shard_id \<Rightarrow> ('d, unit) level_op" where
  "apply_shard_transaction_to_shard lib t sender approvers sid =
     sbind (sget (\<lambda>s. shards s sid)) (\<lambda>found.
     sbind (slift (ok_or (InvalidShardId sid) found)) (\<lambda>sh.
     sbind (cache_entry lib sid (sh_root sh)) (\<lambda>c.
     on_shard sid c (shard_apply (tl_shard lib) t sender (sh_users sh) approvers))))"

definition apply_shard_transaction :: "'d top_lib \<Rightarrow> shard_transaction \<Rightarrow> address \<Rightarrow> address list \<Rightarrow>
    ('d, unit) level_op" where
  "apply_shard_transaction lib t sender approvers =
     sforeach (related_shards t) (apply_shard_transaction_to_shard lib t sender approvers)"

definition create_shard_level_state :: "'d top_lib \<Rightarrow> shard_id \<Rightarrow> address list \<Rightarrow> address list \<Rightarrow>
    ('d, unit) level_op" where
  "create_shard_level_state lib sid owners users =
     (let kl = tl_keys lib; default_root = blake_null_rlp kl in
      sbind (cache_entry lib sid default_root) (\<lambda>_.
      sbind (set_shard_root kl sid default_root) (\<lambda>_.
      sbind (set_shard_owners kl sid owners) (\<lambda>_.
      set_shard_users kl sid users))))"

definition create_shard :: "'d top_lib \<Rightarrow> address \<Rightarrow> h256 \<Rightarrow> address list \<Rightarrow> ('d, unit) level_op" where
  "create_shard lib fee_payer tx_hash users =
     sbind get_metadata_mut (\<lambda>m.
     let (sid, m') = metadata_add_shard tx_hash m in
     sbind (set_metadata m') (\<lambda>_.
     create_shard_level_state lib sid [fee_payer] users))"

section \<open>Actions\<close>

definition public_to_owner_address :: "key_lib \<Rightarrow> public \<Rightarrow> ('d, address) level_op" where
  "public_to_owner_address kl p =
     sbind (sget (\<lambda>s. regular_account_exists_and_not_null kl s p)) (\<lambda>is_regular.
       if is_regular then
         sbind (get_regular_account kl p) (\<lambda>owner. sreturn (public_to_address kl owner))
       else sreturn (public_to_address kl p))"

fun approvals_to_approvers :: "key_lib \<Rightarrow> h256 \<Rightarrow> signature list \<Rightarrow> ('d, address list) level_op" where
  "approvals_to_approvers kl tracker [] = sreturn []"
| "approvals_to_approvers kl tracker (sig # sigs) =
     sbind (slift (expect ''An invalid approval is a syntax error'' (recover kl sig tracker))) (\<lambda>p.
     sbind (public_to_owner_address kl p) (\<lambda>a.
     sbind (approvals_to_approvers kl tracker sigs) (\<lambda>as. sreturn (a # as))))"

definition check_active_option :: "string \<Rightarrow> address option \<Rightarrow> ('d, unit) level_op" where
  "check_active_option nm a = (case a of
     None \<Rightarrow> sreturn ()
   | Some a' \<Rightarrow> sbind (sget (\<lambda>s. is_active_account s a')) (\<lambda>active.
       if active then sreturn () else sfail (NonActiveAccount a' nm)))"

text \<open>The arms that end in \<open>self.apply_shard_transaction\<close> with the approvers of the action.\<close>

definition apply_approved :: "'d top_lib \<Rightarrow> action \<Rightarrow> signature list \<Rightarrow> bool \<Rightarrow> address \<Rightarrow> ('d, unit) level_op" where
  "apply_approved lib a approvals single fee_payer =
     sbind (slift (expect ''It's a shard transaction'' (asset_transaction a))) (\<lambda>t.
     sbind (approvals_to_approvers (tl_keys lib) (tracker_of (tl_shard lib) t) approvals) (\<lambda>approvers.
     sbind (sassert ''1 == shard_ids.len()'' (single \<longrightarrow> length (related_shards t) = 1)) (\<lambda>_.
     apply_shard_transaction lib t fee_payer approvers)))"

fun apply_action :: "'d top_lib \<Rightarrow> action \<Rightarrow> network_id \<Rightarrow> h256 \<Rightarrow> h256 \<Rightarrow> address \<Rightarrow> public \<Rightarrow>
    ('d, unit) level_op" where
  "apply_action lib (MintAsset n sid mdata approver registrar allowed out approvals) network_id tx_hash
       signed_hash fee_payer signer_public =
     sbind (check_active_option ''approver of asset'' approver) (\<lambda>_.
     sbind (check_active_option ''registrar of asset'' registrar) (\<lambda>_.
     apply_approved lib (MintAsset n sid mdata approver registrar allowed out approvals) approvals True fee_payer))"
| "apply_action lib (ChangeAssetScheme n sid ty seq mdata approver registrar allowed approvals) network_id
       tx_hash signed_hash fee_payer signer_public =
     sbind (check_active_option ''approver of asset'' approver) (\<lambda>_.
     sbind (check_active_option ''registrar of asset'' registrar) (\<lambda>_.
     apply_approved lib (ChangeAssetScheme n sid ty seq mdata approver registrar allowed approvals) approvals
       True fee_payer))"
| "apply_action lib (IncreaseAssetSupply n sid ty seq out approvals) network_id tx_hash signed_hash fee_payer
       signer_public =
     apply_approved lib (IncreaseAssetSupply n sid ty seq out approvals) approvals True fee_payer"
| "apply_action lib (TransferAsset n burns inputs outputs orders mdata approvals expi) network_id tx_hash
       signed_hash fee_payer signer_public =
     apply_approved lib (TransferAsset n burns inputs outputs orders mdata approvals expi) approvals False fee_payer"
| "apply_action lib (ComposeAsset n sid mdata approver registrar allowed inputs out approvals) network_id tx_hash
       signed_hash fee_payer signer_public =
     apply_approved lib (ComposeAsset n sid mdata approver registrar allowed inputs out approvals) approvals False
       fee_payer"
| "apply_action lib (DecomposeAsset n input outputs approvals) network_id tx_hash signed_hash fee_payer
       signer_public =
     apply_approved lib (DecomposeAsset n input outputs approvals) approvals False fee_payer"
| "apply_action lib (UnwrapCCC n b receiver) network_id tx_hash signed_hash fee_payer signer_public =
     sbind (sget (\<lambda>s. regular_account_exists_and_not_null_by_address s receiver)) (\<lambda>is_regular.
     if is_regular then sfail InvalidTransferDestination
     else sbind (apply_shard_transaction lib (ShardUnwrapCCC n b receiver) fee_payer []) (\<lambda>_.
       add_balance receiver (op_quantity (in_prev_out b))))"
| "apply_action lib (Pay receiver qty) network_id tx_hash signed_hash fee_payer signer_public =
     transfer_balance fee_payer receiver qty"
| "apply_action lib (SetRegularKey key) network_id tx_hash signed_hash fee_payer signer_public =
     set_regular_key (tl_keys lib) signer_public key"
| "apply_action lib (CreateShard users) network_id tx_hash signed_hash fee_payer signer_public =
     create_shard lib fee_payer signed_hash users"
| "apply_action lib (SetShardOwners sid owners) network_id tx_hash signed_hash fee_payer signer_public =
     change_shard_owners (tl_keys lib) sid owners fee_payer"
| "apply_action lib (SetShardUsers sid users) network_id tx_hash signed_hash fee_payer signer_public =
     change_shard_users (tl_keys lib) sid users fee_payer"
| "apply_action lib (WrapCCC sid lsh params qty payer) network_id tx_hash signed_hash fee_payer
       signer_public =
     sbind (sub_balance fee_payer qty) (\<lambda>_.
     apply_shard_transaction lib
       (ShardWrapCCC network_id sid tx_hash \<lparr>wo_lock_script_hash = lsh, wo_parameters = params, wo_quantity = qty\<rparr>)
       fee_payer [])"
| "apply_action lib (Store content certifier signature) network_id tx_hash signed_hash fee_payer signer_public =
     store_text (tl_keys lib) signed_hash \<lparr>txt_content = content, txt_certifier = certifier\<rparr> signature"
| "apply_action lib (Remove hash signature) network_id tx_hash signed_hash fee_payer signer_public =
     remove_text (tl_keys lib) hash signature"
| "apply_action lib (Custom handler_id bs) network_id tx_hash signed_hash fee_payer signer_public =
     (case tl_handler lib handler_id of
        None \<Rightarrow> spanic ''Unknown custom parsel applied!''
      | Some handler \<Rightarrow> handler bs fee_payer signer_public)"

section \<open>Transactions\<close>

text \<open>The work under a checkpoint, as \<open>apply\<close> and \<open>apply_internal\<close> do it.\<close>

definition under_checkpoint :: "nat \<Rightarrow> ('d, unit) level_op \<Rightarrow> ('d, unit) level_op" where
  "under_checkpoint i m =
     sbind (top_create_checkpoint i) (\<lambda>_ s.
       case m s of
         (Inr _, s') \<Rightarrow> top_discard_checkpoint i s'
       | (Inl (Err e), s') \<Rightarrow> sbind (top_revert_to_checkpoint i) (\<lambda>_. sfail e) s'
       | (Inl (Panic p), s') \<Rightarrow> (Inl (Panic p), s'))"

definition fee_payer_of :: "key_lib \<Rightarrow> transaction \<Rightarrow> public \<Rightarrow> ('d, address) level_op" where
  "fee_payer_of kl tx signer_public =
     sbind (sget (\<lambda>s. regular_account_exists_and_not_null kl s signer_public)) (\<lambda>is_regular.
       if is_regular then
         sbind (get_regular_account kl signer_public) (\<lambda>owner. sreturn (public_to_address kl owner))
       else let a = public_to_address kl signer_public in
         if \<not> is_master_key_allowed tx then
           sbind (get_account a) (\<lambda>acc.
             if acc_regular_key acc \<noteq> None then sfail CannotUseMasterKey else sreturn a)
         else sreturn a)"

definition top_apply_internal :: "'d top_lib \<Rightarrow> transaction \<Rightarrow> h256 \<Rightarrow> public \<Rightarrow> ('d, unit) level_op" where
  "top_apply_internal lib tx signed_hash signer_public =
     sbind (fee_payer_of (tl_keys lib) tx signer_public) (\<lambda>fee_payer.
     sbind (sget (\<lambda>s. seq_of s fee_payer)) (\<lambda>seq.
     if tx_seq tx \<noteq> seq then sfail (InvalidSeq seq (tx_seq tx))
     else sbind (inc_seq fee_payer) (\<lambda>_.
       sbind (sub_balance fee_payer (tx_fee tx)) (\<lambda>_.
       under_checkpoint ACTION_CHECKPOINT
         (apply_action lib (tx_action tx) (tx_network_id tx) (tl_tx_hash lib tx) signed_hash fee_payer
           signer_public)))))"

definition top_apply :: "'d top_lib \<Rightarrow> transaction \<Rightarrow> h256 \<Rightarrow> public \<Rightarrow> ('d, unit) level_op" where
  "top_apply lib tx signed_hash signer_public =
     under_checkpoint FEE_CHECKPOINT (top_apply_internal lib tx signed_hash signer_public)"

section \<open>Commit\<close>

text \<open>The caches of the shards are written to their tries, in some order \<open>sids\<close> of the hash map,
  and the new roots are stored. \<open>trie_root\<close> is the root of a trie with the given content, from the
  Merkle trie library. The maps of the top level are written by \<open>write_back\<close>'s commit, which keeps
  their views.\<close>

definition commit_shard :: "key_lib \<Rightarrow> (scheme_map \<times> asset_map \<Rightarrow> h256) \<Rightarrow> shard_id \<Rightarrow> ('d, unit) level_op" where
  "commit_shard kl trie_root sid =
     sbind (sget (\<lambda>s. shard_caches s sid)) (\<lambda>found.
     sbind (slift (expect ''Shard must exist'' found)) (\<lambda>c.
     set_shard_root kl sid (trie_root (sc_schemes c, sc_assets c))))"

definition top_commit :: "key_lib \<Rightarrow> (scheme_map \<times> asset_map \<Rightarrow> h256) \<Rightarrow> shard_id list \<Rightarrow> ('d, unit) level_op" where
  "top_commit kl trie_root sids =
     sbind (sget (\<lambda>s. filter (\<lambda>sid. shards s sid \<noteq> None) sids)) (\<lambda>changes.
     sforeach changes (commit_shard kl trie_root))"

end
