(* ===== verification/Top_Ledger.thy ===== *)
theory Top_Ledger
  imports Top_Apply
begin

text \<open>
  What applying a transaction does to the top level state: every operation keeps the stacks of
  checkpoints, a checkpoint restores the top level maps and the caches that existed when it was
  taken, and the shards a transaction touches are the only ones that change.
\<close>

section \<open>Operations on the top level maps\<close>

text \<open>The operations that change accounts and regular keys only.\<close>

definition only_keys :: "('d, 'x) top_state_scheme \<Rightarrow> ('d, 'x) top_state_scheme \<Rightarrow> bool" where
  "only_keys s t \<longleftrightarrow> shards t = shards s \<and> md t = md s \<and> texts t = texts s \<and>
     action_data t = action_data s \<and> top_state.more t = top_state.more s"

interpretation ky: state_preorder only_keys
  by unfold_locales (simp_all add: only_keys_def)

lemma keys_muts [advancing]:
  "advances only_keys (account_mut a f)" "advances only_keys (regular_account_mut kl p g)"
  "advances only_keys (kill_regular_account kl p)" "advances only_keys (kill_account a)"
  unfolding account_mut_def kill_account_def regular_account_mut_def kill_regular_account_def
  by (simp_all add: advances_smodify only_keys_def)

lemma keys_gets [advancing]:
  "advances only_keys (get_account a)" "advances only_keys (get_regular_account kl p)"
  unfolding get_account_def get_regular_account_def by (intro advancing)+

lemma keys_balance [advancing]:
  "advances only_keys (add_balance a q)" "advances only_keys (sub_balance a q)" "advances only_keys (inc_seq a)"
  unfolding add_balance_def sub_balance_def inc_seq_def by (intro advancing)+

lemma keys_ops [advancing]:
  "advances only_keys (transfer_balance a b q)" "advances only_keys (set_regular_key kl p k)"
  unfolding transfer_balance_def set_regular_key_def owner_of_signer_def by (intro advancing)+

lemma keys_check_active [advancing]: "advances only_keys (check_active nm as)"
proof (induction as)
  case (Cons a as)
  then show ?case unfolding check_active.simps by (intro advancing)
qed (simp only: check_active.simps advancing)

lemma keys_owner [advancing]:
  "advances only_keys (public_to_owner_address kl p)" "advances only_keys (check_active_option nm ao)"
  "advances only_keys (fee_payer_of kl tx p)"
  unfolding public_to_owner_address_def check_active_option_def fee_payer_of_def Let_def by (intro advancing)+

lemma keys_approvers [advancing]: "advances only_keys (approvals_to_approvers kl tr sigs)"
proof (induction sigs)
  case (Cons sig sigs)
  then show ?case unfolding approvals_to_approvers.simps by (intro advancing)
qed (simp only: approvals_to_approvers.simps advancing)

text \<open>An operation of \<open>Top_State\<close> leaves the caches of the shards and the checkpoints alone.\<close>

definition same_level :: "('d, 'x) top_state_scheme \<Rightarrow> ('d, 'x) top_state_scheme \<Rightarrow> bool" where
  "same_level s t \<longleftrightarrow> top_state.more t = top_state.more s"

interpretation lvl: state_preorder same_level
  by unfold_locales (simp_all add: same_level_def)

lemma keys_level: "advances only_keys m \<Longrightarrow> advances same_level m"
  by (erule advances_mono) (simp add: same_level_def only_keys_def)

lemmas level_keys [advancing] = keys_ops [THEN keys_level] keys_balance [THEN keys_level]
  keys_check_active [THEN keys_level] keys_owner [THEN keys_level] keys_approvers [THEN keys_level]

lemma level_muts [advancing]: "advances same_level (shard_mut kl sid h)" "advances same_level (set_metadata m)"
  unfolding shard_mut_def set_metadata_def by (simp_all add: advances_smodify same_level_def)

lemma level_get_metadata [advancing]: "advances same_level get_metadata_mut"
  unfolding get_metadata_mut_def by ((intro advancing advances_smodify | simp add: same_level_def)+)

lemma level_texts [advancing]:
  "advances same_level (store_text kl h txt sig)" "advances same_level (remove_text kl h sig)"
  unfolding store_text_def remove_text_def
  by ((intro advancing advances_smodify | simp add: same_level_def)+)

lemma level_shards [advancing]:
  "advances same_level (set_shard_root kl sid root)"
  "advances same_level (set_shard_owners kl sid owners)" "advances same_level (set_shard_users kl sid users)"
  unfolding set_shard_root_def set_shard_owners_def set_shard_users_def by (intro advancing)+

lemma level_ops [advancing]:
  "advances same_level (change_shard_owners kl sid owners sender)"
  "advances same_level (change_shard_users kl sid users sender)"
  unfolding change_shard_owners_def change_shard_users_def by (intro advancing)+

section \<open>The stacks of checkpoints\<close>

text \<open>What every step keeps: the checkpoints of the top level, the caches, and the snapshots in
  each of them. A cache that appears has no snapshot.\<close>

definition kept_cache :: "shard_cache_view option \<Rightarrow> shard_cache_view option \<Rightarrow> bool" where
  "kept_cache c d \<longleftrightarrow> (case c of Some c' \<Rightarrow> \<exists>d'. d = Some d' \<and> sc_snaps d' = sc_snaps c'
     | None \<Rightarrow> (\<forall>d'. d = Some d' \<longrightarrow> sc_snaps d' = []))"

definition same_stacks :: "'d top_level \<Rightarrow> 'd top_level \<Rightarrow> bool" where
  "same_stacks s t \<longleftrightarrow> top_snaps t = top_snaps s \<and> top_ids t = top_ids s \<and>
     (\<forall>sid. kept_cache (shard_caches s sid) (shard_caches t sid))"

lemma kept_cache_refl [simp]: "kept_cache c c"
  by (simp add: kept_cache_def split: option.split)

lemma kept_cache_trans: "kept_cache a b \<Longrightarrow> kept_cache b c \<Longrightarrow> kept_cache a c"
  by (auto simp: kept_cache_def split: option.splits)

interpretation stk: state_preorder same_stacks
  by unfold_locales (auto simp: same_stacks_def intro: kept_cache_trans)

lemma same_levelD:
  fixes s t :: "'d top_level"
  assumes "same_level s t"
  shows "shard_caches t = shard_caches s" "top_snaps t = top_snaps s" "top_ids t = top_ids s"
  using assms by (cases s; cases t; simp add: same_level_def)+

lemma same_level_stacks: "same_level s t \<Longrightarrow> same_stacks s t"
  by (frule same_levelD(1), frule same_levelD(2), drule same_levelD(3)) (simp add: same_stacks_def)

section \<open>Applying a transaction to the shards\<close>

definition cached :: "'d top_lib \<Rightarrow> 'd top_level \<Rightarrow> shard_id \<Rightarrow> h256 \<Rightarrow> shard_cache_view" where
  "cached lib s sid root = (case shard_caches s sid of Some c \<Rightarrow> c | None \<Rightarrow> empty_cache (tl_content lib root))"

text \<open>What a shard holds, whether it has a cache or not.\<close>

definition shard_view :: "'d top_lib \<Rightarrow> 'd top_level \<Rightarrow> shard_id \<Rightarrow> scheme_map \<times> asset_map" where
  "shard_view lib s sid = (case shard_caches s sid of
     Some c \<Rightarrow> (sc_schemes c, sc_assets c)
   | None \<Rightarrow> (case shards s sid of Some sh \<Rightarrow> tl_content lib (sh_root sh) | None \<Rightarrow> (Map.empty, Map.empty)))"

lemma cached_view: "shards s sid = Some sh \<Longrightarrow>
  shard_view lib s sid = (sc_schemes (cached lib s sid (sh_root sh)), sc_assets (cached lib s sid (sh_root sh)))"
  by (simp add: shard_view_def cached_def empty_cache_def split: option.split)

lemma cached_kept: "kept_cache (shard_caches s sid)
  (Some ((cached lib s sid root)\<lparr>sc_schemes := sch, sc_assets := ast\<rparr>))"
  by (simp add: kept_cache_def cached_def empty_cache_def split: option.split)

lemma cache_entry_run:
  "cache_entry lib sid root s =
     (Inr (cached lib s sid root), s\<lparr>shard_caches := (shard_caches s)(sid \<mapsto> cached lib s sid root)\<rparr>)"
  by (simp add: cache_entry_def cached_def Let_def sbind_apply)

lemma cache_rebuild:
  "\<lparr>sc_schemes = sch, sc_assets = ast, sc_snaps = sc_snaps c\<rparr> = c\<lparr>sc_schemes := sch, sc_assets := ast\<rparr>"
  for c :: shard_cache_view
  by (cases c) simp

lemma open_shard_simps [simp]:
  "sl_shard_id (open_shard sid c) = sid" "sl_schemes (open_shard sid c) = sc_schemes c"
  "sl_assets (open_shard sid c) = sc_assets c" "sl_snaps (open_shard sid c) = sc_snaps c"
  by (simp_all add: open_shard_def from_existing_def)

lemma apply_to_shard_cases:
  assumes "apply_shard_transaction_to_shard lib t sender approvers sid s = (r, s')"
  obtains (no_shard) "shards s sid = None" "r = Error (InvalidShardId sid)" "s' = s"
    | (applied) sh u where "shards s sid = Some sh" "r = Inr ()"
        "shard_apply (tl_shard lib) t sender (sh_users sh) approvers (open_shard sid (cached lib s sid (sh_root sh))) =
           (Inr (), u)"
        "s' = s\<lparr>shard_caches := (shard_caches s)(sid \<mapsto> (cached lib s sid (sh_root sh))
           \<lparr>sc_schemes := sl_schemes u, sc_assets := sl_assets u\<rparr>)\<rparr>"
    | (refused) sh e where "shards s sid = Some sh" "r = Inl (Err e)"
        "s' = s\<lparr>shard_caches := (shard_caches s)(sid \<mapsto> cached lib s sid (sh_root sh))\<rparr>"
    | (panic) p where "r = Inl (Panic p)"
proof (cases "shards s sid")
  case None
  then show ?thesis using assms by (intro no_shard) (simp_all add: apply_shard_transaction_to_shard_def)
next
  case (Some sh)
  define c where "c = cached lib s sid (sh_root sh)"
  let ?m = "shard_apply (tl_shard lib) t sender (sh_users sh) approvers"
  obtain r' u where run: "?m (open_shard sid c) = (r', u)" by force
  then have res: "r = r'" "s' = s\<lparr>shard_caches := (shard_caches s)(sid \<mapsto>
      \<lparr>sc_schemes = sl_schemes u, sc_assets = sl_assets u, sc_snaps = sl_snaps u\<rparr>)\<rparr>"
    using assms Some
    by (simp_all add: apply_shard_transaction_to_shard_def cache_entry_run sbind_apply on_shard_def c_def)
  from run show ?thesis
  proof (cases rule: shard_apply_cases)
    case (1 x v)
    then show ?thesis using res Some run
      by (intro applied [of sh u]) (simp_all add: c_def cache_rebuild)
  next
    case (2 e)
    then show ?thesis using res Some by (intro refused [of sh e]) (simp_all add: c_def cache_rebuild)
  next
    case (3 p)
    then show ?thesis using res by (intro panic) simp
  qed
qed

text \<open>Only the caches change, and only those of the shards concerned.\<close>

definition only_caches :: "shard_id set \<Rightarrow> 'd top_level \<Rightarrow> 'd top_level \<Rightarrow> bool" where
  "only_caches S s t \<longleftrightarrow> same_stacks s t \<and> (\<exists>f. t = s\<lparr>shard_caches := f\<rparr>) \<and>
     (\<forall>sid. sid \<notin> S \<longrightarrow> shard_caches t sid = shard_caches s sid)"

interpretation cch: state_preorder "only_caches S"
proof
  show "only_caches S s s" for s :: "'a top_level"
    unfolding only_caches_def by (intro conjI exI [of _ "shard_caches s"]) (simp_all add: stk.R_refl)
  show "only_caches S s u" if "only_caches S s t" "only_caches S t u" for s t u :: "'a top_level"
  proof -
    from that obtain f g where "t = s\<lparr>shard_caches := f\<rparr>" "u = t\<lparr>shard_caches := g\<rparr>"
      unfolding only_caches_def by blast
    then have "\<exists>f. u = s\<lparr>shard_caches := f\<rparr>" by (intro exI [of _ g]) simp
    with that show ?thesis unfolding only_caches_def using stk.R_trans by metis
  qed
qed

lemma to_shard_caches: "sid \<in> S \<Longrightarrow> advances (only_caches S) (apply_shard_transaction_to_shard lib t sender approvers sid)"
proof (rule advancesI)
  fix s r s'
  assume sid: "sid \<in> S" and r: "\<And>p. r \<noteq> Inl (Panic p)"
    and "apply_shard_transaction_to_shard lib t sender approvers sid s = (r, s')"
  from this(3) show "only_caches S s s'"
  proof (cases rule: apply_to_shard_cases)
    case no_shard
    then show ?thesis by (simp add: cch.R_refl)
  next
    case (applied sh u)
    then show ?thesis using sid cached_kept [where s = s and sid = sid and lib = lib] by (auto simp: only_caches_def same_stacks_def)
  next
    case (refused sh e)
    then show ?thesis using sid cached_kept [where s = s and sid = sid and lib = lib and root = "sh_root sh" and
          sch = "sc_schemes (cached lib s sid (sh_root sh))" and ast = "sc_assets (cached lib s sid (sh_root sh))"] by (auto simp: only_caches_def same_stacks_def)
  qed (use r in simp)
qed

lemma apply_shard_caches: "advances (only_caches (set (related_shards t))) (apply_shard_transaction lib t sender approvers)"
  unfolding apply_shard_transaction_def by (intro advancing to_shard_caches) simp

section \<open>Work under a checkpoint\<close>

definition marked :: "nat \<Rightarrow> 'd top_level \<Rightarrow> 'd top_level" where
  "marked i s = s\<lparr>top_ids := top_ids s @ [i], top_snaps := top_state.truncate s # top_snaps s,
     shard_caches := (\<lambda>sid. map_option cache_checkpoint (shard_caches s sid))\<rparr>"

lemma under_checkpoint_run: "under_checkpoint i m s = (case m (marked i s) of
    (Inr _, s') \<Rightarrow> top_discard_checkpoint i s'
  | (Inl (Err e), s') \<Rightarrow> sbind (top_revert_to_checkpoint i) (\<lambda>_. sfail e) s'
  | (Inl (Panic p), s') \<Rightarrow> (Inl (Panic p), s'))"
  by (simp add: under_checkpoint_def top_create_checkpoint_def marked_def)

lemma marked_simps [simp]:
  "top_snaps (marked i s) = top_state.truncate s # top_snaps s" "top_ids (marked i s) = top_ids s @ [i]"
  "shard_caches (marked i s) sid = map_option cache_checkpoint (shard_caches s sid)"
  "accounts (marked i s) = accounts s" "regular_accounts (marked i s) = regular_accounts s" "md (marked i s) = md s"
  "shards (marked i s) = shards s" "texts (marked i s) = texts s" "action_data (marked i s) = action_data s"
  by (simp_all add: marked_def)

lemma marked_view [simp]: "shard_view lib (marked i s) = shard_view lib s"
  by (simp add: shard_view_def fun_eq_iff cache_checkpoint_def split: option.split)

definition discarded :: "'d top_level \<Rightarrow> 'd top_level \<Rightarrow> 'd top_level" where
  "discarded s u = u\<lparr>top_ids := top_ids s, top_snaps := top_snaps s,
     shard_caches := (\<lambda>sid. map_option cache_discard (shard_caches u sid))\<rparr>"

definition reverted :: "'d top_level \<Rightarrow> 'd top_level \<Rightarrow> 'd top_level" where
  "reverted s u = s\<lparr>shard_caches := (\<lambda>sid. case shard_caches s sid of Some c \<Rightarrow> Some c | None \<Rightarrow> shard_caches u sid)\<rparr>"

lemma restored_all:
  fixes s u :: "'d top_level"
  shows "u\<lparr>top_ids := top_ids s, top_snaps := top_snaps s, accounts := accounts s,
     regular_accounts := regular_accounts s, md := md s, shards := shards s, texts := texts s,
     action_data := action_data s, shard_caches := f\<rparr> = s\<lparr>shard_caches := f\<rparr>"
  by (rule top_level.equality) simp_all

lemma revert_cache:
  assumes "kept_cache (map_option cache_checkpoint c) d"
  shows "map_option cache_revert d = (case c of Some c' \<Rightarrow> Some c' | None \<Rightarrow> d)"
  using assms
  by (auto simp: kept_cache_def cache_revert_def cache_checkpoint_def map_option_case split: option.splits)

lemma discard_cache:
  assumes "kept_cache (map_option cache_checkpoint c) d"
  shows "kept_cache c (map_option cache_discard d)"
  using assms by (auto simp: kept_cache_def cache_discard_def cache_checkpoint_def split: option.splits)

lemma under_checkpoint_cases:
  assumes run: "under_checkpoint i m s = (r, t)" and m: "advances same_stacks m"
  obtains (kept) u where "m (marked i s) = (Inr (), u)" "r = Inr ()" "t = discarded s u" "same_stacks (marked i s) u"
    | (undone) e u where "m (marked i s) = (Inl (Err e), u)" "r = Inl (Err e)" "t = reverted s u"
        "same_stacks (marked i s) u"
    | (panic) p where "r = Inl (Panic p)" "fst (m (marked i s)) = Inl (Panic p)"
proof -
  obtain r' u where u: "m (marked i s) = (r', u)" by force
  have pop: "top_pop_checkpoint i u = (Inr (), u\<lparr>top_ids := top_ids s\<rparr>)" if "same_stacks (marked i s) u"
    using that by (simp add: top_pop_checkpoint_def same_stacks_def sbind_apply)
  show ?thesis
  proof (cases r')
    case (Inr x)
    then have st: "same_stacks (marked i s) u" using u by (auto intro: advancesD [OF m])
    then show ?thesis using run u Inr pop
      by (intro kept [of u])
        (simp_all add: under_checkpoint_run sbind_apply top_discard_checkpoint_def discarded_def same_stacks_def)
  next
    case (Inl f)
    show ?thesis
    proof (cases f)
      case (Err e)
      then have st: "same_stacks (marked i s) u" using u Inl by (auto intro: advancesD [OF m])
      then have caches: "map_option cache_revert (shard_caches u sid) =
          (case shard_caches s sid of Some c \<Rightarrow> Some c | None \<Rightarrow> shard_caches u sid)" for sid
        by (intro revert_cache) (simp add: same_stacks_def)
      have "top_snaps u = top_state.truncate s # top_snaps s" using st by (simp add: same_stacks_def)
      then show ?thesis using run u Inl Err pop [OF st] st
        by (intro undone [of e u])
          (simp_all add: under_checkpoint_run sbind_apply top_revert_to_checkpoint_def reverted_def restore_def
            top_state.truncate_def caches restored_all)
    next
      case (Panic p)
      then show ?thesis using run u Inl by (intro panic [of p]) (simp_all add: under_checkpoint_run)
    qed
  qed
qed

lemma under_checkpoint_stacks [advancing]:
  assumes "advances same_stacks m"
  shows "advances same_stacks (under_checkpoint i m)"
proof (rule advancesI)
  fix s r t
  assume run: "under_checkpoint i m s = (r, t)" and r: "\<And>p. r \<noteq> Inl (Panic p)"
  from run assms show "same_stacks s t"
  proof (cases rule: under_checkpoint_cases)
    case (kept u)
    then show ?thesis by (auto simp: same_stacks_def discarded_def intro: discard_cache)
  next
    case (undone e u)
    have "kept_cache c (case c of None \<Rightarrow> d | Some c' \<Rightarrow> Some c')" if "kept_cache (map_option cache_checkpoint c) d" for c d
      using that by (auto simp: kept_cache_def split: option.splits)
    with undone show ?thesis by (simp add: same_stacks_def reverted_def)
  qed (use r in simp)
qed

end
