(* ===== verification/Top_Revert.thy ===== *)
theory Top_Revert
  imports Top_Ledger
begin

text \<open>
  A refused transaction leaves no trace in the top level maps, in the cached shards, and in the
  shard of a transaction that touches one shard only. The exception is proved too: a transaction
  over several shards that are not cached yet is not undone in the shards before the failing one.
\<close>

section \<open>Actions keep the checkpoints\<close>

text \<open>A custom action handler works on the top level maps.\<close>

definition handlers_ok :: "'d top_lib \<Rightarrow> bool" where
  "handlers_ok lib \<longleftrightarrow> (\<forall>i f bs a p. tl_handler lib i = Some f \<longrightarrow> advances same_level (f bs a p))"

lemma level_stacks: "advances same_level m \<Longrightarrow> advances same_stacks m"
  by (erule advances_mono) (rule same_level_stacks)

lemmas stacks_leaves = level_keys [THEN level_stacks] level_muts [THEN level_stacks]
  level_get_metadata [THEN level_stacks] level_texts [THEN level_stacks] level_shards [THEN level_stacks]
  level_ops [THEN level_stacks]

lemma stacks_apply_shard: "advances same_stacks (apply_shard_transaction lib t sender approvers)"
  by (rule advances_mono [OF apply_shard_caches]) (simp add: only_caches_def)

lemma stacks_cache_entry: "advances same_stacks (cache_entry lib sid root)"
proof (rule advancesI)
  fix s r t
  assume "cache_entry lib sid root s = (r, t)"
  then show "same_stacks s t"
    using cached_kept [where s = s and sid = sid and lib = lib and root = root and
        sch = "sc_schemes (cached lib s sid root)" and ast = "sc_assets (cached lib s sid root)"]
    by (auto simp: cache_entry_run same_stacks_def)
qed

lemma stacks_create_shard: "advances same_stacks (create_shard lib fee_payer h users)"
  unfolding create_shard_def create_shard_level_state_def Let_def split_beta
  by (intro advancing stacks_cache_entry stacks_leaves)

lemma stacks_approved: "advances same_stacks (apply_approved lib a approvals single fee_payer)"
  unfolding apply_approved_def by (intro advancing stacks_apply_shard stacks_leaves)

lemma stacks_action:
  assumes "handlers_ok lib"
  shows "advances same_stacks (apply_action lib a nid h sh fee_payer p)"
proof (cases a)
  case (Custom i bs)
  show ?thesis unfolding Custom apply_action.simps
    by (cases "tl_handler lib i") (use assms in \<open>auto simp only: option.case handlers_ok_def intro: level_stacks advancing\<close>)
qed (simp_all only: apply_action.simps, (intro advancing stacks_approved stacks_apply_shard stacks_create_shard stacks_leaves)+)

section \<open>Failing actions\<close>

text \<open>The shards an action works on.\<close>

fun action_shards :: "action \<Rightarrow> shard_id list" where
  "action_shards (WrapCCC sid _ _ _ _) = [sid]"
| "action_shards a = (case asset_transaction a of Some t \<Rightarrow> related_shards t | None \<Rightarrow> [])"

text \<open>The shards of \<open>s\<close> that have no cache are, in \<open>u\<close>, still not cached or hold in their new
  cache what they held before.\<close>

definition unspoiled :: "'d top_lib \<Rightarrow> 'd top_level \<Rightarrow> 'd top_level \<Rightarrow> bool" where
  "unspoiled lib s u \<longleftrightarrow> (\<forall>sid c. shard_caches s sid = None \<longrightarrow> shard_caches u sid = Some c \<longrightarrow>
     (sc_schemes c, sc_assets c) = shard_view lib s sid)"

lemma unspoiled_same: "shard_caches u = shard_caches s \<Longrightarrow> unspoiled lib s u"
  by (simp add: unspoiled_def)

lemma unspoiled_level: "same_level s u \<Longrightarrow> unspoiled lib s u"
  by (rule unspoiled_same) (rule same_levelD)

lemma unspoiled_before:
  assumes "shard_caches w = shard_caches s" "shards w = shards s" "unspoiled lib w u"
  shows "unspoiled lib s u"
  using assms by (simp add: unspoiled_def shard_view_def)

text \<open>The operations that run before the shards are touched, and the whole of the others.\<close>

lemma keys_run:
  assumes "advances only_keys m" "m s = (r, u)" "\<And>p. r \<noteq> Inl (Panic p)"
  shows "shard_caches u = shard_caches (s :: 'd top_level)" "shards u = shards s" "same_level s u"
proof -
  have "only_keys s u" using assms by (rule advancesD)
  then show "shards u = shards s" "same_level s u" by (simp_all add: only_keys_def same_level_def)
  then show "shard_caches u = shard_caches s" by (intro same_levelD)
qed

lemma sbind_unspoiled:
  assumes "advances only_keys m" "\<And>x w. shard_caches w = shard_caches s \<Longrightarrow> shards w = shards s \<Longrightarrow>
      k x w = (Inl (Err e), u) \<Longrightarrow> unspoiled lib w u"
    and "sbind m k s = (Inl (Err e), u)"
  shows "unspoiled lib s u"
  using assms(3)
proof (cases rule: sbind_ErrE)
  case 1
  show ?thesis by (rule unspoiled_level, rule keys_run(3) [OF assms(1) 1]) simp
next
  case (2 x w)
  note run = keys_run [OF assms(1) 2(1)]
  from run have same: "shard_caches w = shard_caches s" "shards w = shards s" by simp_all
  show ?thesis by (rule unspoiled_before [OF same assms(2) [OF same 2(2)]])
qed

lemma apply_shard_unspoiled:
  assumes run: "apply_shard_transaction lib t sender approvers s = (Inl (Err e), u)"
    and one: "length (related_shards t) \<le> 1 \<or> (\<forall>sid\<in>set (related_shards t). shard_caches s sid \<noteq> None)"
  shows "unspoiled lib s u"
  using one
proof
  assume all: "\<forall>sid\<in>set (related_shards t). shard_caches s sid \<noteq> None"
  have "only_caches (set (related_shards t)) s u"
    using run by (rule advancesD [OF apply_shard_caches]) simp
  then have "shard_caches u sid = None" if "shard_caches s sid = None" for sid
  proof -
    have "sid \<notin> set (related_shards t)" using all that by auto
    with \<open>only_caches (set (related_shards t)) s u\<close> that show ?thesis unfolding only_caches_def by metis
  qed
  then show ?thesis by (simp add: unspoiled_def)
next
  assume "length (related_shards t) \<le> 1"
  then consider "related_shards t = []" | sid where "related_shards t = [sid]"
    by (cases "related_shards t"; cases "tl (related_shards t)") auto
  then show ?thesis
  proof cases
    case (2 sid)
    with run have "apply_shard_transaction_to_shard lib t sender approvers sid s = (Inl (Err e), u)"
      by (auto simp: apply_shard_transaction_def sbind_eq_Err_iff)
    then show ?thesis
    proof (cases rule: apply_to_shard_cases)
      case (refused sh f)
      then show ?thesis using cached_view [OF refused(1), of lib] by (auto simp: unspoiled_def)
    qed (simp_all add: unspoiled_same)
  qed (use run in \<open>simp add: apply_shard_transaction_def\<close>)
qed

lemma approved_unspoiled:
  assumes "apply_approved lib a approvals single fee_payer s = (Inl (Err e), u)" "asset_transaction a = Some t"
    and "length (related_shards t) \<le> 1 \<or> (\<forall>sid\<in>set (related_shards t). shard_caches s sid \<noteq> None)"
  shows "unspoiled lib s u"
proof -
  have run: "sbind (approvals_to_approvers (tl_keys lib) (tracker_of (tl_shard lib) t) approvals) (\<lambda>approvers.
     sbind (sassert ''1 == shard_ids.len()'' (single \<longrightarrow> length (related_shards t) = 1)) (\<lambda>_.
     apply_shard_transaction lib t fee_payer approvers)) s = (Inl (Err e), u)"
    using assms(1,2) by (simp add: apply_approved_def)
  show ?thesis
  proof (rule sbind_unspoiled [OF keys_approvers _ run], erule sbind_unspoiled [rotated 2])
    show "unspoiled lib w' u" if "shard_caches w = shard_caches s" "shard_caches w' = shard_caches w"
      "apply_shard_transaction lib t fee_payer x w' = (Inl (Err e), u)" for x w w'
      using assms(3) that by (intro apply_shard_unspoiled) simp_all
  qed (intro advancing)
qed

definition next_shard_id :: "('d, 'x) top_state_scheme \<Rightarrow> shard_id" where
  "next_shard_id s = (case md s of Some m \<Rightarrow> number_of_shards m | None \<Rightarrow> 0)"

text \<open>The caches after \<open>create_shard\<close>: the new shard has one.\<close>

lemma create_shard_caches:
  assumes "create_shard lib fee_payer h users s = (r, u)" "\<And>p. r \<noteq> Inl (Panic p)"
  shows "shard_caches u = (shard_caches s)(next_shard_id s \<mapsto>
    cached lib s (next_shard_id s) (blake_null_rlp (tl_keys lib)))"
proof -
  let ?root = "blake_null_rlp (tl_keys lib)" and ?kl = "tl_keys lib" and ?sid = "next_shard_id s"
  define m where "m = snd (metadata_add_shard h (case md s of Some m \<Rightarrow> m | None \<Rightarrow> metadata_new 0))"
  define w where "w = s\<lparr>md := Some m, shard_caches := (shard_caches s)(?sid \<mapsto> cached lib s ?sid ?root)\<rparr>"
  have "create_shard lib fee_payer h users s = create_shard_level_state lib ?sid [fee_payer] users (s\<lparr>md := Some m\<rparr>)"
    by (simp add: create_shard_def get_metadata_mut_def sbind_apply set_metadata_def m_def next_shard_id_def
        metadata_add_shard_def metadata_new_def split: option.split)
  moreover have "cached lib (s\<lparr>md := Some m\<rparr>) ?sid ?root = cached lib s ?sid ?root" by (simp add: cached_def)
  ultimately have run: "sbind (set_shard_root ?kl ?sid ?root) (\<lambda>_. sbind (set_shard_owners ?kl ?sid [fee_payer]) (\<lambda>_.
      set_shard_users ?kl ?sid users)) w = (r, u)"
    using assms(1) unfolding create_shard_level_state_def Let_def
    by (simp add: sbind_apply [of "cache_entry lib ?sid ?root"] cache_entry_run w_def)
  have "advances same_level (sbind (set_shard_root ?kl ?sid ?root) (\<lambda>_. sbind (set_shard_owners ?kl ?sid [fee_payer]) (\<lambda>_.
      set_shard_users ?kl ?sid users)))"
    by (intro advancing)
  from advancesD [OF this run assms(2)] have "same_level w u" .
  then have "shard_caches u = shard_caches w" by (rule same_levelD)
  then show ?thesis by (simp add: w_def)
qed

lemma checked_unspoiled:
  assumes "sbind (check_active_option nm x) (\<lambda>_. sbind (check_active_option nm' x') (\<lambda>_.
      apply_approved lib a approvals single fee_payer)) s = (Inl (Err e), u)" "asset_transaction a = Some t"
    and "length (related_shards t) \<le> 1 \<or> (\<forall>sid\<in>set (related_shards t). shard_caches s sid \<noteq> None)"
  shows "unspoiled lib s u"
proof (rule sbind_unspoiled [OF keys_owner(2) _ assms(1)])
  fix w
  assume w: "shard_caches w = shard_caches s"
    and run: "sbind (check_active_option nm' x') (\<lambda>_. apply_approved lib a approvals single fee_payer) w = (Inl (Err e), u)"
  show "unspoiled lib w u"
  proof (rule sbind_unspoiled [OF keys_owner(2) _ run])
    show "unspoiled lib w' u" if "shard_caches w' = shard_caches w"
      "apply_approved lib a approvals single fee_payer w' = (Inl (Err e), u)" for w'
      using assms(3) w that by (intro approved_unspoiled [OF that(2) assms(2)]) simp
  qed
qed

lemma action_unspoiled:
  assumes run: "apply_action lib a nid h sh fee_payer p s = (Inl (Err e), u)"
    and one: "length (action_shards a) \<le> 1 \<or> (\<forall>sid\<in>set (action_shards a). shard_caches s sid \<noteq> None)"
    and "handlers_ok lib"
    and new: "shards s (next_shard_id s) = None" "tl_content lib (blake_null_rlp (tl_keys lib)) = (Map.empty, Map.empty)"
  shows "unspoiled lib s u"
proof -
  have level: "unspoiled lib s u" if "advances same_level m" "m s = (Inl (Err e), u)" for m :: "('a, unit) level_op"
    by (rule unspoiled_level, rule advancesD [OF that]) simp
  show ?thesis
  proof (cases a)
    case (CreateShard users)
    then have "shard_caches u = (shard_caches s)(next_shard_id s \<mapsto>
        cached lib s (next_shard_id s) (blake_null_rlp (tl_keys lib)))"
      using run create_shard_caches [of lib fee_payer sh users s "Inl (Err e)" u] by simp
    then show ?thesis using new
      by (auto simp: unspoiled_def cached_def shard_view_def empty_cache_def split: if_splits)
  next
    case (UnwrapCCC n b receiver)
    have "add_balance receiver q w \<noteq> (Inl (Err e), u)" for q w
      using add_balance_spec [of receiver q w] by auto
    with run one UnwrapCCC have "apply_shard_transaction lib (ShardUnwrapCCC n b receiver) fee_payer [] s = (Inl (Err e), u) \<or> s = u"
      by (auto simp: sbind_eq_Err_iff split: if_splits)
    then show ?thesis by (auto simp: unspoiled_same intro: apply_shard_unspoiled)
  next
    case (WrapCCC sid lsh params qty payer)
    show ?thesis
      using run unfolding WrapCCC apply_action.simps
      by (rule sbind_unspoiled [OF keys_balance(2), rotated]) (erule apply_shard_unspoiled, simp)
  next
    case (ComposeAsset n sid mdata approver registrar allowed inputs out approvals)
    then show ?thesis using run one
      by (intro approved_unspoiled [of lib a approvals False fee_payer s e u]) (simp_all del: related_shards.simps)
  next
    case (DecomposeAsset n input outputs approvals)
    then show ?thesis using run one
      by (intro approved_unspoiled [of lib a approvals False fee_payer s e u]) (simp_all del: related_shards.simps)
  next
    case (Custom i bs)
    with run obtain f where "tl_handler lib i = Some f" "f bs fee_payer p s = (Inl (Err e), u)"
      by (auto split: option.splits)
    then show ?thesis using level [of "f bs fee_payer p"] assms(3) by (simp add: handlers_ok_def)
  qed (use run one in \<open>auto intro: checked_unspoiled approved_unspoiled level advancing\<close>)
qed

section \<open>Refused transactions\<close>

lemma reverted_view:
  assumes "unspoiled lib s u"
  shows "shard_view lib (reverted s u) sid = shard_view lib s sid"
proof (cases "shard_caches s sid")
  case None
  then show ?thesis using assms
    by (cases "shard_caches u sid") (auto simp: unspoiled_def reverted_def shard_view_def)
qed (simp add: reverted_def shard_view_def)

lemma unspoiled_cong:
  assumes "unspoiled lib w u" "\<And>sid. shard_caches s sid = None \<Longrightarrow> shard_caches w sid = None" "shards w = shards s"
    and "\<And>sid. shard_caches s sid = None \<Longrightarrow> shard_caches v sid = shard_caches u sid"
  shows "unspoiled lib s v"
  using assms by (auto simp: unspoiled_def shard_view_def)

definition act :: "'d top_lib \<Rightarrow> transaction \<Rightarrow> h256 \<Rightarrow> public \<Rightarrow> address \<Rightarrow> ('d, unit) level_op" where
  "act lib tx h p fee_payer = apply_action lib (tx_action tx) (tx_network_id tx) (tl_tx_hash lib tx) h fee_payer p"

text \<open>A transaction fails before its action, after changing at most accounts and regular keys, or
  runs its action after the fee is paid.\<close>

lemma internal_cases:
  assumes run: "top_apply_internal lib tx h p s = (r, u)"
  obtains (early) e where "r = Inl (Err e)" "only_keys s u"
    | (acted) fee_payer w1 w2 w where "fee_payer_of (tl_keys lib) tx p s = (Inr fee_payer, w1)"
        "seq_of w1 fee_payer = tx_seq tx" "inc_seq fee_payer w1 = (Inr (), w2)"
        "sub_balance fee_payer (tx_fee tx) w2 = (Inr (), w)" "only_keys s w"
        "under_checkpoint ACTION_CHECKPOINT (act lib tx h p fee_payer) w = (r, u)"
    | (panic) q where "r = Inl (Panic q)"
proof -
  obtain r1 w1 where w1: "fee_payer_of (tl_keys lib) tx p s = (r1, w1)" by force
  show ?thesis
  proof (cases r1)
    case (Inl f)
    then have u: "r = Inl f" "u = w1" using run w1 by (simp_all add: top_apply_internal_def sbind_apply)
    show ?thesis
    proof (cases f)
      case (Err e)
      with u(1) have "r = Inl (Err e)" by simp
      moreover have "only_keys s u" unfolding u(2) by (rule advancesD [OF keys_owner(3) w1]) (simp add: Inl Err)
      ultimately show ?thesis by (rule early)
    next
      case (Panic q)
      with u(1) show ?thesis by (intro panic [of q]) simp
    qed
  next
    case (Inr fee_payer)
    have k1: "only_keys s w1" by (rule advancesD [OF keys_owner(3) w1]) (simp add: Inr)
    obtain w2 where w2: "inc_seq fee_payer w1 = (Inr (), w2)" by (simp add: inc_seq_def top_simps)
    have k2: "only_keys s w2" by (rule ky.R_trans [OF k1 advancesD [OF keys_balance(3) w2]]) simp
    obtain r3 w where w: "sub_balance fee_payer (tx_fee tx) w2 = (r3, w)" by force
    have res: "(r, u) = (if tx_seq tx \<noteq> seq_of w1 fee_payer then (Inl (Err (InvalidSeq (seq_of w1 fee_payer) (tx_seq tx))), w1)
        else (case r3 of Inl f \<Rightarrow> (Inl f, w)
          | Inr _ \<Rightarrow> under_checkpoint ACTION_CHECKPOINT (act lib tx h p fee_payer) w))"
      using run w1 Inr w2 w
      by (auto simp: top_apply_internal_def sbind_apply act_def split: sum.splits if_splits)
    consider "tx_seq tx \<noteq> seq_of w1 fee_payer" | e where "tx_seq tx = seq_of w1 fee_payer" "r3 = Inl (Err e)"
      | q where "tx_seq tx = seq_of w1 fee_payer" "r3 = Inl (Panic q)" | "tx_seq tx = seq_of w1 fee_payer" "r3 = Inr ()"
      by (cases r3) (metis failure.exhaust, auto)
    then show ?thesis
    proof cases
      case 1
      with res k1 show ?thesis by (intro early) simp_all
    next
      case (2 e)
      have "only_keys s w" by (rule ky.R_trans [OF k2 advancesD [OF keys_balance(2) w]]) (simp add: 2)
      with res 2 show ?thesis by (intro early [of e]) simp_all
    next
      case (3 q)
      with res show ?thesis by (intro panic [of q]) simp
    next
      case 4
      have "only_keys s w" by (rule ky.R_trans [OF k2 advancesD [OF keys_balance(2) w]]) (simp add: 4)
      with res 4 w1 w2 w Inr show ?thesis by (intro acted) simp_all
    qed
  qed
qed

lemma only_keysD:
  assumes "only_keys s w"
  shows "shard_caches w = shard_caches (s :: 'd top_level)" "shards w = shards s" "md w = md s"
proof -
  from assms show "shards w = shards s" "md w = md s" by (simp_all add: only_keys_def)
  from assms have "same_level s w" by (simp add: only_keys_def same_level_def)
  then show "shard_caches w = shard_caches s" by (rule same_levelD)
qed

lemma internal_unspoiled:
  assumes run: "top_apply_internal lib tx h p s = (Inl (Err e), u)"
    and one: "length (action_shards (tx_action tx)) \<le> 1 \<or>
      (\<forall>sid\<in>set (action_shards (tx_action tx)). shard_caches s sid \<noteq> None)"
    and ok: "handlers_ok lib"
    and new: "shards s (next_shard_id s) = None" "tl_content lib (blake_null_rlp (tl_keys lib)) = (Map.empty, Map.empty)"
  shows "unspoiled lib s u"
  using run
proof (cases rule: internal_cases)
  case (early f)
  then show ?thesis by (intro unspoiled_same only_keysD)
next
  case (acted fee_payer w1 w2 w)
  note w = only_keysD [OF acted(5)]
  have "advances same_stacks (act lib tx h p fee_payer)" unfolding act_def by (rule stacks_action [OF ok])
  with acted(6) show ?thesis
  proof (cases rule: under_checkpoint_cases)
    case (undone f v)
    have "unspoiled lib (marked ACTION_CHECKPOINT w) v"
      using undone(1) ok new one w unfolding act_def
      by (intro action_unspoiled [of lib "tx_action tx"]) (auto simp: next_shard_id_def)
    then show ?thesis by (rule unspoiled_cong) (auto simp: undone(3) reverted_def w)
  qed simp_all
qed simp_all

lemma internal_stacks:
  assumes "handlers_ok lib"
  shows "advances same_stacks (top_apply_internal lib tx h p)"
proof (rule advancesI)
  fix s r t
  assume run: "top_apply_internal lib tx h p s = (r, t)" and r: "\<And>q. r \<noteq> Inl (Panic q)"
  have keys: "same_stacks s w" if "only_keys s w" for w
    using that by (intro same_level_stacks) (simp add: only_keys_def same_level_def)
  from run show "same_stacks s t"
  proof (cases rule: internal_cases)
    case (acted fee_payer w1 w2 w)
    have "advances same_stacks (under_checkpoint ACTION_CHECKPOINT (act lib tx h p fee_payer))"
      unfolding act_def by (intro advancing stacks_action assms)
    from advancesD [OF this acted(6) r] keys [OF acted(5)] show ?thesis by (blast intro: stk.R_trans)
  qed (use keys r in simp_all)
qed


end
