(* ===== verification/Top_Conserve.thy ===== *)
theory Top_Conserve
  imports Top_Revert
begin

text \<open>
  What a transaction that succeeds does to the money: CCC is neither created nor lost between
  accounts and shards.
\<close>

section \<open>Operations that keep the balances\<close>

definition same_balance :: "('d, 'x) top_state_scheme \<Rightarrow> ('d, 'x) top_state_scheme \<Rightarrow> bool" where
  "same_balance s t \<longleftrightarrow> balance_of t = balance_of s"

interpretation bal: state_preorder same_balance
  by unfold_locales (simp_all add: same_balance_def)

lemma same_balance_accounts: "accounts t = accounts s \<Longrightarrow> same_balance s t"
  unfolding same_balance_def by (rule balance_of_cong)

lemma balance_muts [advancing]:
  "(\<And>acc. acc_balance (f acc) = acc_balance acc) \<Longrightarrow> advances same_balance (account_mut a f)"
  "advances same_balance (regular_account_mut kl p g)" "advances same_balance (kill_regular_account kl p)"
  "advances same_balance (shard_mut kl sid h)" "advances same_balance (set_metadata m)"
proof -
  show "advances same_balance (account_mut a f)" if "\<And>acc. acc_balance (f acc) = acc_balance acc"
    by (rule advancesI) (auto simp: that same_balance_def top_simps)
qed (unfold regular_account_mut_def kill_regular_account_def shard_mut_def set_metadata_def,
    (intro advances_smodify same_balance_accounts, simp)+)

lemma balance_gets [advancing]:
  "advances same_balance (get_account a)" "advances same_balance (get_regular_account kl p)"
  unfolding get_account_def get_regular_account_def by (intro advancing, simp?)+

lemma balance_metadata [advancing]: "advances same_balance get_metadata_mut"
  unfolding get_metadata_mut_def by (intro advancing advances_smodify same_balance_accounts) simp

lemma balance_check_active [advancing]: "advances same_balance (check_active nm as)"
proof (induction as)
  case (Cons a as)
  then show ?case unfolding check_active.simps by (intro advancing)
qed (simp only: check_active.simps advancing)

lemma balance_seq [advancing]: "advances same_balance (inc_seq a)"
  unfolding inc_seq_def by (intro advancing) (simp add: account_inc_seq_def)

lemma balance_regular_key [advancing]: "advances same_balance (set_regular_key kl p k)"
  unfolding set_regular_key_def owner_of_signer_def
  by (intro advancing) (simp add: account_set_regular_key_def)

lemma balance_shards [advancing]:
  "advances same_balance (set_shard_root kl sid root)"
  "advances same_balance (set_shard_owners kl sid owners)" "advances same_balance (set_shard_users kl sid users)"
  unfolding set_shard_root_def set_shard_owners_def set_shard_users_def by (intro advancing)+

lemma balance_ops [advancing]:
  "advances same_balance (change_shard_owners kl sid owners sender)"
  "advances same_balance (change_shard_users kl sid users sender)"
  "advances same_balance (store_text kl h txt sig)" "advances same_balance (remove_text kl h sig)"
  unfolding change_shard_owners_def change_shard_users_def store_text_def remove_text_def
  by ((intro advancing advances_smodify same_balance_accounts | simp)+)

lemma balance_owner [advancing]:
  "advances same_balance (public_to_owner_address kl p)" "advances same_balance (check_active_option nm ao)"
  "advances same_balance (fee_payer_of kl tx p)"
  unfolding public_to_owner_address_def check_active_option_def fee_payer_of_def Let_def by (intro advancing)+

lemma balance_approvers [advancing]: "advances same_balance (approvals_to_approvers kl tr sigs)"
proof (induction sigs)
  case (Cons sig sigs)
  then show ?case unfolding approvals_to_approvers.simps by (intro advancing)
qed (simp only: approvals_to_approvers.simps advancing)

lemma same_total: "same_balance s t \<Longrightarrow> total_ccc t = total_ccc s"
  by (simp add: same_balance_def total_ccc_def)

section \<open>Wrapped CCC over all shards\<close>

definition shard_ccc :: "'d top_lib \<Rightarrow> 'd top_level \<Rightarrow> shard_id \<Rightarrow> nat" where
  "shard_ccc lib s sid = (case fst (shard_view lib s sid) 0 of None \<Rightarrow> 0 | Some sc \<Rightarrow> unat (as_supply sc))"

definition wrapped_ccc :: "'d top_lib \<Rightarrow> 'd top_level \<Rightarrow> nat" where
  "wrapped_ccc lib s = (\<Sum>sid\<in>UNIV. shard_ccc lib s sid)"

lemma wrapped_one_changed:
  assumes "\<And>x. x \<noteq> sid \<Longrightarrow> shard_ccc lib t x = shard_ccc lib s x"
  shows "wrapped_ccc lib t + shard_ccc lib s sid = wrapped_ccc lib s + shard_ccc lib t sid"
proof -
  have "wrapped_ccc lib t = shard_ccc lib t sid + (\<Sum>x\<in>UNIV - {sid}. shard_ccc lib s x)"
    unfolding wrapped_ccc_def by (subst sum.remove [of UNIV sid]) (use assms in \<open>auto intro!: sum.cong\<close>)
  moreover have "wrapped_ccc lib s = shard_ccc lib s sid + (\<Sum>x\<in>UNIV - {sid}. shard_ccc lib s x)"
    unfolding wrapped_ccc_def by (rule sum.remove) simp_all
  ultimately show ?thesis by simp
qed

lemma shard_view_cong:
  "shard_caches t sid = shard_caches s sid \<Longrightarrow> shards t sid = shards s sid \<Longrightarrow>
     shard_view lib t sid = shard_view lib s sid"
  by (simp add: shard_view_def split: option.split)

lemma wrapped_cong:
  assumes "shard_view lib t = shard_view lib s"
  shows "wrapped_ccc lib t = wrapped_ccc lib s"
  using assms by (simp add: wrapped_ccc_def shard_ccc_def)

lemma to_shard_ccc:
  assumes "apply_shard_transaction_to_shard lib t sender approvers sid s = (Inr x, s')" "spares_ccc (tl_shard lib) t"
  shows "wrapped_ccc lib s' + ccc_removed t sid = wrapped_ccc lib s + ccc_wrapped t"
  using assms(1)
proof (cases rule: apply_to_shard_cases)
  case (applied sh u)
  let ?c = "open_shard sid (cached lib s sid (sh_root sh))"
  have "supply_of u 0 + ccc_removed t sid = supply_of ?c 0 + ccc_wrapped t"
    using shard_apply_ccc [OF applied(3) assms(2)] by simp
  moreover have "supply_of ?c 0 = shard_ccc lib s sid"
    by (simp add: supply_of_def shard_ccc_def cached_view [OF applied(1)])
  moreover have "supply_of u 0 = shard_ccc lib s' sid"
    by (simp add: supply_of_def shard_ccc_def applied(4) shard_view_def)
  moreover have "wrapped_ccc lib s' + shard_ccc lib s sid = wrapped_ccc lib s + shard_ccc lib s' sid"
  proof (rule wrapped_one_changed)
    show "shard_ccc lib s' y = shard_ccc lib s y" if "y \<noteq> sid" for y
      unfolding shard_ccc_def using that by (subst shard_view_cong [of s' y s]) (simp_all add: applied(4))
  qed
  ultimately show ?thesis by linarith
qed simp_all

lemma to_shards_ccc:
  assumes "sforeach sids (apply_shard_transaction_to_shard lib t sender approvers) s = (Inr x, s')"
    and "spares_ccc (tl_shard lib) t"
  shows "wrapped_ccc lib s' + (\<Sum>sid\<leftarrow>sids. ccc_removed t sid) = wrapped_ccc lib s + length sids * ccc_wrapped t"
  using assms(1)
proof (induction sids arbitrary: s)
  case (Cons sid sids)
  then obtain y w where w: "apply_shard_transaction_to_shard lib t sender approvers sid s = (Inr y, w)"
    "sforeach sids (apply_shard_transaction_to_shard lib t sender approvers) w = (Inr x, s')"
    by (auto elim: sbind_OkE)
  from to_shard_ccc [OF w(1) assms(2)] Cons.IH [OF w(2)] show ?case by simp
qed simp

section \<open>Actions\<close>

text \<open>The total of CCC in accounts and shards.\<close>

definition ccc_supply :: "'d top_lib \<Rightarrow> 'd top_level \<Rightarrow> nat" where
  "ccc_supply lib s = total_ccc s + wrapped_ccc lib s"

lemma apply_shard_ccc:
  assumes "apply_shard_transaction lib t sender approvers s = (Inr x, s')" "spares_ccc (tl_shard lib) t"
  shows "total_ccc s' = total_ccc s"
    "wrapped_ccc lib s' + (\<Sum>sid\<leftarrow>related_shards t. ccc_removed t sid) =
       wrapped_ccc lib s + length (related_shards t) * ccc_wrapped t"
proof -
  have "only_caches (set (related_shards t)) s s'"
    using assms(1) by (rule advancesD [OF apply_shard_caches]) simp
  then have "accounts s' = accounts s" by (auto simp: only_caches_def)
  then show "total_ccc s' = total_ccc s" by (intro same_total same_balance_accounts)
  show "wrapped_ccc lib s' + (\<Sum>sid\<leftarrow>related_shards t. ccc_removed t sid) =
       wrapped_ccc lib s + length (related_shards t) * ccc_wrapped t"
    using assms(1) unfolding apply_shard_transaction_def by (rule to_shards_ccc [OF _ assms(2)])
qed

lemma keys_view: "only_keys s w \<Longrightarrow> shard_view lib w = shard_view lib s"
  using only_keysD [of s w] by (auto intro!: ext shard_view_cong)

lemma quiet_step:
  assumes "advances only_keys m" "advances same_balance m" "m s = (Inr x, w)"
  shows "total_ccc w = total_ccc s" "shard_view lib w = shard_view lib s"
proof -
  have "same_balance s w" using assms(3) by (rule advancesD [OF assms(2)]) simp
  then show "total_ccc w = total_ccc s" by (rule same_total)
  have "only_keys s w" using assms(3) by (rule advancesD [OF assms(1)]) simp
  then show "shard_view lib w = shard_view lib s" by (rule keys_view)
qed

lemma approved_ccc:
  assumes "apply_approved lib a approvals single fee_payer s = (Inr x, s')" "asset_transaction a = Some t"
    and "spares_ccc (tl_shard lib) t"
  shows "ccc_supply lib s' + (\<Sum>sid\<leftarrow>related_shards t. ccc_removed t sid) =
     ccc_supply lib s + length (related_shards t) * ccc_wrapped t"
proof -
  obtain approvers w where w: "approvals_to_approvers (tl_keys lib) (tracker_of (tl_shard lib) t) approvals s = (Inr approvers, w)"
    "apply_shard_transaction lib t fee_payer approvers w = (Inr x, s')"
    using assms(1,2) by (auto simp: apply_approved_def sassert_def elim!: sbind_OkE split: if_splits)
  note quiet_step [OF keys_approvers balance_approvers w(1)]
  with apply_shard_ccc [OF w(2) assms(3)] wrapped_cong [of lib w s] show ?thesis by (simp add: ccc_supply_def)
qed

fun burnt_ccc :: "action \<Rightarrow> nat" where
  "burnt_ccc (TransferAsset _ burns _ _ _ _ _ _) = (\<Sum>sid\<in>UNIV. in_total burns (0, sid))"
| "burnt_ccc _ = 0"

lemma burnt_related:
  "sum_list (map (ccc_removed (ShardTransferAsset n burns inputs outputs orders))
       (related_shards (ShardTransferAsset n burns inputs outputs orders))) =
     (\<Sum>sid\<in>UNIV. in_total burns (0, sid))"
proof -
  let ?r = "related_shards (ShardTransferAsset n burns inputs outputs orders)"
  have "(\<Sum>sid\<leftarrow>?r. in_total burns (0, sid)) = (\<Sum>sid\<in>set ?r. in_total burns (0, sid))"
    using related_shards_distinct by (intro sum_list_distinct_conv_sum_set) blast
  also have "\<dots> = (\<Sum>sid\<in>UNIV. in_total burns (0, sid))"
  proof (rule sum.mono_neutral_left)
    show "\<forall>i\<in>UNIV - set ?r. in_total burns (0, i) = 0"
      by (auto simp: in_total_def set_sort_dedup filter_empty_conv)
  qed simp_all
  finally show ?thesis by (simp add: ccc_removed.simps [abs_def] del: related_shards.simps)
qed

text \<open>The operations on the list of shards leave what the shards hold.\<close>

definition same_view :: "'d top_lib \<Rightarrow> 'd top_level \<Rightarrow> 'd top_level \<Rightarrow> bool" where
  "same_view lib s t \<longleftrightarrow> shard_view lib t = shard_view lib s"

interpretation vw: state_preorder "same_view lib"
  by unfold_locales (simp_all add: same_view_def)

lemma keys_same_view: "advances only_keys m \<Longrightarrow> advances (same_view lib) m"
  by (erule advances_mono) (simp add: same_view_def keys_view)

abbreviation null_content :: "'d top_lib \<Rightarrow> bool" where
  "null_content lib \<equiv> tl_content lib (blake_null_rlp (tl_keys lib)) = (Map.empty, Map.empty)"

lemma view_shard_mut:
  assumes "\<And>sh. sh_root (f sh) = sh_root sh" "null_content lib"
  shows "advances (same_view lib) (shard_mut (tl_keys lib) sid f)"
proof (unfold shard_mut_def, rule advances_smodify)
  fix s :: "'a top_level"
  let ?t = "s\<lparr>shards := (shards s)(sid \<mapsto>
      f (case shards s sid of Some sh \<Rightarrow> sh | None \<Rightarrow> default_shard (blake_null_rlp (tl_keys lib))))\<rparr>"
  have "shard_view lib ?t x = shard_view lib s x" for x
    using assms by (auto simp: shard_view_def default_shard_def split: option.split)
  then show "same_view lib s ?t" by (simp add: same_view_def fun_eq_iff)
qed

lemma view_set_shard:
  assumes "null_content lib"
  shows "advances (same_view lib) (set_shard_owners (tl_keys lib) sid owners)"
    "advances (same_view lib) (set_shard_users (tl_keys lib) sid users)"
  unfolding set_shard_owners_def set_shard_users_def
  by (intro vw.advances_sbind keys_same_view [OF keys_check_active] view_shard_mut assms, simp)+

lemma view_change_shard:
  assumes "null_content lib"
  shows "advances (same_view lib) (change_shard_owners (tl_keys lib) sid owners sender)"
    "advances (same_view lib) (change_shard_users (tl_keys lib) sid users sender)"
  unfolding change_shard_owners_def change_shard_users_def by (intro advancing view_set_shard assms)+

lemma view_texts:
  "advances (same_view lib) (store_text kl h txt sig)" "advances (same_view lib) (remove_text kl h sig)"
proof -
  have "same_view lib s (s\<lparr>texts := x\<rparr>)" for s :: "'a top_level" and x
    unfolding same_view_def by (intro ext shard_view_cong) simp_all
  then show "advances (same_view lib) (store_text kl h txt sig)" "advances (same_view lib) (remove_text kl h sig)"
    unfolding store_text_def remove_text_def by (intro advancing advances_smodify, simp)+
qed

definition shards_but :: "shard_id \<Rightarrow> ('d, 'x) top_state_scheme \<Rightarrow> ('d, 'x) top_state_scheme \<Rightarrow> bool" where
  "shards_but sid s t \<longleftrightarrow> (\<forall>x. x \<noteq> sid \<longrightarrow> shards t x = shards s x)"

interpretation sbt: state_preorder "shards_but sid"
  by unfold_locales (simp_all add: shards_but_def)

lemma keys_shards_but: "advances only_keys m \<Longrightarrow> advances (shards_but sid) m"
  by (erule advances_mono) (simp add: shards_but_def only_keys_def)

lemma shards_but_mut [advancing]: "advances (shards_but sid) (shard_mut kl sid f)"
  unfolding shard_mut_def by (intro advances_smodify) (simp add: shards_but_def)

lemma shards_but_level_state: "advances (shards_but sid) (create_shard_level_state lib sid owners users)"
proof -
  have "advances (shards_but sid) (cache_entry lib sid root)" for root
    by (rule advancesI) (auto simp: cache_entry_run shards_but_def)
  then show ?thesis
    unfolding create_shard_level_state_def set_shard_root_def set_shard_owners_def set_shard_users_def Let_def
    by (intro advancing keys_shards_but [OF keys_check_active])
qed

lemma balance_create_shard: "advances same_balance (create_shard lib fee_payer h users)"
proof -
  have "advances same_balance (cache_entry lib sid root)" for sid root
    by (rule advancesI) (auto simp: cache_entry_run intro!: same_balance_accounts)
  then show ?thesis
    unfolding create_shard_def create_shard_level_state_def Let_def split_beta by (intro advancing)
qed

lemma create_shard_view:
  assumes run: "create_shard lib fee_payer h users s = (Inr x, u)"
    and new: "shards s (next_shard_id s) = None" "null_content lib"
  shows "shard_view lib u = shard_view lib s"
proof
  fix sid
  have caches: "shard_caches u = (shard_caches s)(next_shard_id s \<mapsto>
      cached lib s (next_shard_id s) (blake_null_rlp (tl_keys lib)))"
    using create_shard_caches [OF run] by simp
  obtain m where "create_shard_level_state lib (next_shard_id s) [fee_payer] users (s\<lparr>md := m\<rparr>) = (Inr x, u)"
    using run by (auto simp: create_shard_def get_metadata_mut_def sbind_apply set_metadata_def next_shard_id_def
        metadata_add_shard_def metadata_new_def split: option.splits)
  then have "shards_but (next_shard_id s) (s\<lparr>md := m\<rparr>) u" by (rule advancesD [OF shards_but_level_state]) simp
  then show "shard_view lib u sid = shard_view lib s sid"
    using new caches
    by (cases "sid = next_shard_id s")
      (auto simp: shards_but_def shard_view_def cached_def empty_cache_def split: option.split)
qed

lemma quiet_ccc:
  assumes "advances same_balance m" "advances (same_view lib) m" "m s = (Inr x, w)"
  shows "ccc_supply lib w = ccc_supply lib s"
proof -
  have "same_balance s w" using assms(3) by (rule advancesD [OF assms(1)]) simp
  moreover have "same_view lib s w" using assms(3) by (rule advancesD [OF assms(2)]) simp
  ultimately show ?thesis using same_total wrapped_cong unfolding ccc_supply_def same_view_def by metis
qed

lemma balance_step:
  assumes "advances only_keys m" "m s = (Inr x, w)"
  shows "ccc_supply lib w = total_ccc w + wrapped_ccc lib s"
proof -
  have "only_keys s w" using assms(2) by (rule advancesD [OF assms(1)]) simp
  from wrapped_cong [OF keys_view [OF this]] show ?thesis by (simp add: ccc_supply_def)
qed

lemma add_balance_ccc:
  assumes "add_balance a q s = (Inr x, t)" "ccc_supply lib s + unat q < 2 ^ 64"
  shows "ccc_supply lib t = ccc_supply lib s + unat q"
  using balance_step [OF keys_balance(1) assms(1), of lib] add_balance_total [of s q a] assms
  by (auto simp: ccc_supply_def)

lemma sub_balance_ccc:
  assumes "sub_balance a q s = (Inr x, t)"
  shows "ccc_supply lib t + unat q = ccc_supply lib s"
  using balance_step [OF keys_balance(2) assms, of lib] sub_balance_total [OF assms]
  by (simp add: ccc_supply_def)

lemma transfer_balance_ccc:
  assumes "transfer_balance a b q s = (Inr x, t)" "ccc_supply lib s < 2 ^ 64"
  shows "ccc_supply lib t = ccc_supply lib s"
proof -
  obtain y w where w: "sub_balance a q s = (Inr y, w)" "add_balance b q w = (Inr x, t)"
    using assms(1) by (auto simp: transfer_balance_def elim!: sbind_OkE split: if_splits)
  show ?thesis
    using sub_balance_ccc [OF w(1), of lib] add_balance_ccc [OF w(2), of lib] assms(2) by simp
qed

lemma verified_spares:
  assumes "action_verify oh a = Ok ()" "asset_transaction a = Some t" "\<forall>tr. lib_asset_type lib tr \<noteq> 0"
  shows "spares_ccc lib t"
  using assms by (cases a) (auto split: if_splits)

lemma checked_ccc:
  assumes "sbind (check_active_option nm x) (\<lambda>_. sbind (check_active_option nm' x') (\<lambda>_.
      apply_approved lib a approvals single fee_payer)) s = (Inr u, s')"
    and "asset_transaction a = Some t" "spares_ccc (tl_shard lib) t"
  shows "ccc_supply lib s' + (\<Sum>sid\<leftarrow>related_shards t. ccc_removed t sid) =
     ccc_supply lib s + length (related_shards t) * ccc_wrapped t"
proof -
  obtain w w' where w: "check_active_option nm x s = (Inr (), w)" "check_active_option nm' x' w = (Inr (), w')"
    "apply_approved lib a approvals single fee_payer w' = (Inr u, s')"
    using assms(1) by (auto elim!: sbind_OkE)
  have "ccc_supply lib w' = ccc_supply lib s"
    using quiet_ccc [OF balance_owner(2) keys_same_view [OF keys_owner(2)] w(1)]
      quiet_ccc [OF balance_owner(2) keys_same_view [OF keys_owner(2)] w(2)] by simp
  with approved_ccc [OF w(3) assms(2,3)] show ?thesis by simp
qed

lemma action_ccc:
  assumes run: "apply_action lib a nid h sh fee_payer p s = (Inr x, t)"
    and ok: "action_verify oh a = Ok ()" "\<forall>i bs. a \<noteq> Custom i bs" "\<forall>tr. lib_asset_type (tl_shard lib) tr \<noteq> 0"
    and new: "shards s (next_shard_id s) = None" "null_content lib"
    and bound: "ccc_supply lib s < 2 ^ 64"
  shows "ccc_supply lib t + burnt_ccc a = ccc_supply lib s"
proof (cases a)
  case (TransferAsset n burns inputs outputs orders mdata approvals expi)
  with run have run': "apply_approved lib a approvals False fee_payer s = (Inr x, t)" by simp
  show ?thesis
    using approved_ccc [OF run' _ verified_spares [OF ok(1) _ ok(3)]] TransferAsset
      burnt_related [where n = n and burns = burns and inputs = inputs and outputs = outputs and orders = orders]
    by (simp del: related_shards.simps)
next
  case (UnwrapCCC n b receiver)
  let ?t = "ShardUnwrapCCC n b receiver"
  obtain w where w: "apply_shard_transaction lib ?t fee_payer [] s = (Inr (), w)"
    "add_balance receiver (input_quantity b) w = (Inr x, t)"
    using run UnwrapCCC by (auto elim!: sbind_OkE split: if_splits)
  have "ccc_supply lib w + unat (input_quantity b) = ccc_supply lib s"
    using apply_shard_ccc [OF w(1)] verified_spares [OF ok(1) _ ok(3), of ?t] UnwrapCCC by (simp add: ccc_supply_def)
  with add_balance_ccc [OF w(2), of lib] bound UnwrapCCC show ?thesis by simp
next
  case (WrapCCC sid lsh params qty payer)
  let ?t = "ShardWrapCCC nid sid h \<lparr>wo_lock_script_hash = lsh, wo_parameters = params, wo_quantity = qty\<rparr>"
  obtain w where w: "sub_balance fee_payer qty s = (Inr (), w)" "apply_shard_transaction lib ?t fee_payer [] w = (Inr x, t)"
    using run WrapCCC by (auto elim!: sbind_OkE)
  with sub_balance_ccc [OF w(1), of lib] apply_shard_ccc [OF w(2)] WrapCCC show ?thesis by (simp add: ccc_supply_def)
next
  case (CreateShard users)
  with run have "create_shard lib fee_payer sh users s = (Inr x, t)" by simp
  note wrapped_cong [OF create_shard_view [OF this new]] same_total [OF advancesD [OF balance_create_shard this]]
  then show ?thesis using CreateShard by (simp add: ccc_supply_def)
next
  case (Pay receiver qty)
  with run have "transfer_balance fee_payer receiver qty s = (Inr x, t)" by simp
  from transfer_balance_ccc [OF this bound] Pay show ?thesis by simp
next
  case (MintAsset n sid mdata approver registrar allowed out approvals)
  with run ok(3) show ?thesis by (auto dest: checked_ccc)
next
  case (ChangeAssetScheme n sid ty seq mdata approver registrar allowed approvals)
  with run show ?thesis by (auto dest: checked_ccc)
next
  case (IncreaseAssetSupply n sid ty seq out approvals)
  with run ok(1) show ?thesis by (auto dest: approved_ccc split: if_splits)
next
  case (SetRegularKey k)
  with run quiet_ccc [OF balance_regular_key keys_same_view [OF keys_ops(2)]] show ?thesis by auto
next
  case (SetShardOwners sid owners)
  with run quiet_ccc [OF balance_ops(1) view_change_shard(1) [OF new(2)]] show ?thesis by auto
next
  case (SetShardUsers sid users)
  with run quiet_ccc [OF balance_ops(2) view_change_shard(2) [OF new(2)]] show ?thesis by auto
next
  case (Store content certifier sig)
  with run quiet_ccc [OF balance_ops(3) view_texts(1)] show ?thesis by auto
next
  case (Remove h sig)
  with run quiet_ccc [OF balance_ops(4) view_texts(2)] show ?thesis by auto
qed (use ok in simp_all)

section \<open>Transactions\<close>

lemma discarded_view [simp]: "shard_view lib (discarded s u) = shard_view lib u"
  by (simp add: fun_eq_iff shard_view_def discarded_def cache_discard_def split: option.split)

lemma checkpoint_supply:
  "ccc_supply lib (marked i s) = ccc_supply lib s" "ccc_supply lib (discarded s u) = ccc_supply lib u"
proof -
  have "total_ccc (marked i s) = total_ccc s" "total_ccc (discarded s u) = total_ccc u"
    by (rule same_total, rule same_balance_accounts, simp add: discarded_def)+
  moreover have "wrapped_ccc lib (marked i s) = wrapped_ccc lib s" "wrapped_ccc lib (discarded s u) = wrapped_ccc lib u"
    by (rule wrapped_cong, simp)+
  ultimately show "ccc_supply lib (marked i s) = ccc_supply lib s" "ccc_supply lib (discarded s u) = ccc_supply lib u"
    by (simp_all add: ccc_supply_def)
qed

text \<open>A transaction that succeeds, from its state to its action and back.\<close>

lemma top_apply_Ok:
  assumes "top_apply lib tx h p s = (Inr x, t)" "handlers_ok lib"
  obtains fee_payer w1 w2 w v where
    "fee_payer_of (tl_keys lib) tx p (marked FEE_CHECKPOINT s) = (Inr fee_payer, w1)"
    "seq_of w1 fee_payer = tx_seq tx" "inc_seq fee_payer w1 = (Inr (), w2)"
    "sub_balance fee_payer (tx_fee tx) w2 = (Inr (), w)" "only_keys (marked FEE_CHECKPOINT s) w"
    "act lib tx h p fee_payer (marked ACTION_CHECKPOINT w) = (Inr (), v)" "t = discarded s (discarded w v)"
  using assms(1) [unfolded top_apply_def] internal_stacks [OF assms(2)]
proof (cases rule: under_checkpoint_cases)
  case (kept u)
  from kept(1) show ?thesis
  proof (cases rule: internal_cases)
    case (acted fee_payer w1 w2 w)
    have "advances same_stacks (act lib tx h p fee_payer)" unfolding act_def by (rule stacks_action [OF assms(2)])
    with acted(6) show ?thesis
    proof (cases rule: under_checkpoint_cases)
      case inner: (kept v)
      show ?thesis using acted inner(1,3) kept(3) by (intro that) simp_all
    qed simp_all
  qed simp_all
qed simp_all


end
