(* ===== verification/Top_Seq.thy ===== *)
theory Top_Seq
  imports Top_Conserve Shard_Orders
begin

text \<open>
  Sequences: a transaction that was applied is refused when it comes again. The theory also holds the
  example states of the top level, the witnesses of its theorems, and the transaction over two shards
  that is refused but not undone.
\<close>

section \<open>What identifies the payer\<close>

definition same_idents :: "('d, 'x) top_state_scheme \<Rightarrow> ('d, 'x) top_state_scheme \<Rightarrow> bool" where
  "same_idents s t \<longleftrightarrow> regular_accounts t = regular_accounts s \<and> seq_of t = seq_of s \<and>
     regular_key_of t = regular_key_of s"

interpretation idn: state_preorder same_idents
  by unfold_locales (simp_all add: same_idents_def)

lemma same_identsI: "accounts t = accounts s \<Longrightarrow> regular_accounts t = regular_accounts s \<Longrightarrow> same_idents s t"
  by (simp add: same_idents_def seq_of_def regular_key_of_def fun_eq_iff)

lemma idents_account_mut [advancing]:
  assumes "\<And>acc. acc_seq (f acc) = acc_seq acc \<and> acc_regular_key (f acc) = acc_regular_key acc"
  shows "advances same_idents (account_mut a f)"
  by (rule advancesI) (auto simp: assms account_mut_apply same_idents_def fun_eq_iff seq_of_def regular_key_of_def
      default_account_def account_new_def split: option.split)

lemma idents_get_account [advancing]: "advances same_idents (get_account a)"
  unfolding get_account_def by (intro advancing) simp

lemma idents_add_balance [advancing]: "advances same_idents (add_balance a q)"
  unfolding add_balance_def by (intro advancing) (simp add: account_add_balance_def)

lemma idents_sub_balance [advancing]: "advances same_idents (sub_balance a q)"
proof (rule advancesI)
  fix s :: "('a, 'b) top_state_scheme" and r t
  assume "sub_balance a q s = (r, t)" "\<And>p. r \<noteq> Inl (Panic p)"
  then show "same_idents s t"
    by (auto simp: sub_balance_def sbind_apply get_account_def account_mut_apply account_sub_balance_def rassert_def
        same_idents_def fun_eq_iff seq_of_def regular_key_of_def default_account_def account_new_def
        split: if_splits option.splits)
qed

lemma idents_transfer [advancing]: "advances same_idents (transfer_balance a b q)"
  unfolding transfer_balance_def by (intro advancing)

lemma idents_owner [advancing]: "advances same_idents (public_to_owner_address kl p)"
  by (rule advancesI) (auto simp: public_to_owner_address_def sbind_apply get_regular_account_def
      regular_account_mut_def regular_account_exists_and_not_null_def
      regular_account_exists_and_not_null_by_address_def same_idents_def seq_of_def regular_key_of_def fun_eq_iff
      split: if_splits option.splits)

lemma idents_approvers [advancing]: "advances same_idents (approvals_to_approvers kl tr sigs)"
proof (induction sigs)
  case (Cons sig sigs)
  then show ?case unfolding approvals_to_approvers.simps by (intro advancing)
qed (simp only: approvals_to_approvers.simps advancing)

lemma idents_check_active [advancing]:
  "advances same_idents (check_active nm as)" "advances same_idents (check_active_option nm ao)"
proof -
  show "advances same_idents (check_active nm as)"
  proof (induction as)
    case (Cons a as)
    then show ?case unfolding check_active.simps by (intro advancing)
  qed (simp only: check_active.simps advancing)
  show "advances same_idents (check_active_option nm ao)" unfolding check_active_option_def by (intro advancing)
qed

lemma idents_same: "advances R m \<Longrightarrow> (\<And>s t. R s t \<Longrightarrow> accounts t = accounts s \<and> regular_accounts t = regular_accounts s) \<Longrightarrow>
    advances same_idents m"
  by (erule advances_mono) (simp add: same_identsI)

lemma idents_smodify:
  "(\<And>s. accounts (f s) = accounts s \<and> regular_accounts (f s) = regular_accounts s) \<Longrightarrow> advances same_idents (smodify f)"
  by (rule advances_smodify) (simp add: same_identsI)

lemma idents_maps [advancing]:
  "advances same_idents (shard_mut kl sid f)" "advances same_idents (set_metadata m)" "advances same_idents get_metadata_mut"
  "advances same_idents (cache_entry lib sid root)"
  unfolding shard_mut_def set_metadata_def get_metadata_mut_def cache_entry_def Let_def
  by ((intro advancing idents_smodify | simp)+)

lemma idents_shards [advancing]:
  "advances same_idents (set_shard_root kl sid root)"
  "advances same_idents (set_shard_owners kl sid owners)" "advances same_idents (set_shard_users kl sid users)"
  unfolding set_shard_root_def set_shard_owners_def set_shard_users_def by (intro advancing)+

lemma idents_ops [advancing]:
  "advances same_idents (change_shard_owners kl sid owners sender)"
  "advances same_idents (change_shard_users kl sid users sender)"
  "advances same_idents (store_text kl h txt sig)" "advances same_idents (remove_text kl h sig)"
  "advances same_idents (create_shard lib fee_payer h users)"
  unfolding change_shard_owners_def change_shard_users_def store_text_def remove_text_def create_shard_def
    create_shard_level_state_def Let_def split_beta
  by ((intro advancing idents_smodify | simp)+)

lemma idents_apply_shard [advancing]: "advances same_idents (apply_shard_transaction lib t sender approvers)"
  by (rule advances_mono [OF apply_shard_caches]) (auto simp: only_caches_def intro!: same_identsI)

lemma idents_approved [advancing]: "advances same_idents (apply_approved lib a approvals single fee_payer)"
  unfolding apply_approved_def by (intro advancing)

lemma idents_action:
  assumes "\<forall>k. a \<noteq> SetRegularKey k" "\<forall>i bs. a \<noteq> Custom i bs"
  shows "advances same_idents (apply_action lib a nid h sh fee_payer p)"
  using assms by (cases a) (simp_all only: apply_action.simps, (intro advancing | simp)+)

section \<open>No replay\<close>

lemma fee_payer_idents: "advances same_idents (fee_payer_of kl tx p)"
proof (rule advancesI)
  fix s :: "'a top_level" and r t
  assume "fee_payer_of kl tx p s = (r, t)"
  then show "same_idents s t"
    by (auto simp: fee_payer_of_def sbind_apply get_regular_account_def regular_account_mut_def Let_def
        regular_account_exists_and_not_null_def regular_account_exists_and_not_null_by_address_def get_account_def
        account_mut_apply same_idents_def seq_of_def regular_key_of_def default_account_def account_new_def fun_eq_iff
        split: if_splits option.splits)
qed

lemma fee_payer_run: "fst (fee_payer_of kl tx p s) =
    (case regular_accounts s (public_to_address kl p) of
       Some owner \<Rightarrow> if owner \<noteq> 0 then Inr (public_to_address kl owner)
         else if \<not> is_master_key_allowed tx \<and> regular_key_of s (public_to_address kl p) \<noteq> None
         then Inl (Err CannotUseMasterKey) else Inr (public_to_address kl p)
     | None \<Rightarrow> if \<not> is_master_key_allowed tx \<and> regular_key_of s (public_to_address kl p) \<noteq> None
         then Inl (Err CannotUseMasterKey) else Inr (public_to_address kl p))"
  by (auto simp: fee_payer_of_def sbind_apply get_regular_account_def regular_account_mut_def Let_def
      regular_account_exists_and_not_null_def regular_account_exists_and_not_null_by_address_def get_account_def
      account_mut_apply regular_key_of_def default_account_def account_new_def split: option.split)

lemma fee_payer_result:
  assumes "regular_accounts t = regular_accounts s" "regular_key_of t = regular_key_of s"
  shows "fst (fee_payer_of kl tx p t) = fst (fee_payer_of kl tx p s)"
  by (simp only: fee_payer_run assms)

lemma inc_seq_idents:
  assumes "inc_seq a s = (r, t)"
  shows "seq_of t = (seq_of s)(a := seq_of s a + 1) \<and> regular_accounts t = regular_accounts s \<and>
    regular_key_of t = regular_key_of s"
  using assms
  by (auto simp: inc_seq_def account_mut_apply account_inc_seq_def seq_of_def regular_key_of_def default_account_def
      account_new_def fun_eq_iff split: option.splits if_splits)

lemma checkpoint_idents: "same_idents s (marked i s)" "same_idents u (discarded s u)"
  by (rule same_identsI, simp_all add: discarded_def)+

text \<open>
  C29: a transaction cannot be applied twice. After a transaction that is neither a change of the
  signer's regular key nor a custom action, the sequence of the payer has moved on by one, and the same
  transaction from the same signer is refused for its sequence.
\<close>

theorem top_apply_no_replay:
  assumes "top_apply lib tx h p s = (Ok (), t)" "handlers_ok lib"
    and "\<forall>k. tx_action tx \<noteq> SetRegularKey k" "\<forall>i bs. tx_action tx \<noteq> Custom i bs"
  shows "fst (top_apply lib tx h' p t) = Error (InvalidSeq (tx_seq tx + 1) (tx_seq tx))"
  using assms(1,2)
proof (rule top_apply_Ok)
  fix fee_payer w1 w2 w v
  let ?kl = "tl_keys lib"
  assume payer: "fee_payer_of ?kl tx p (marked FEE_CHECKPOINT s) = (Inr fee_payer, w1)"
    and tx_seq: "seq_of w1 fee_payer = tx_seq tx"
    and seq: "inc_seq fee_payer w1 = (Inr (), w2)" and fee: "sub_balance fee_payer (tx_fee tx) w2 = (Inr (), w)"
    and action: "act lib tx h p fee_payer (marked ACTION_CHECKPOINT w) = (Inr (), v)"
    and t: "t = discarded s (discarded w v)"
  have "same_idents (marked FEE_CHECKPOINT s) w1" by (rule advancesD [OF fee_payer_idents payer]) simp
  moreover have "same_idents w2 w" by (rule advancesD [OF idents_sub_balance fee]) simp
  moreover have "same_idents (marked ACTION_CHECKPOINT w) v"
    using action unfolding act_def by (rule advancesD [OF idents_action [OF assms(3,4)]]) simp
  ultimately have "seq_of (marked FEE_CHECKPOINT t) fee_payer = tx_seq tx + 1"
    "regular_accounts (marked FEE_CHECKPOINT t) = regular_accounts (marked FEE_CHECKPOINT s)"
    "regular_key_of (marked FEE_CHECKPOINT t) = regular_key_of (marked FEE_CHECKPOINT s)"
    using inc_seq_idents [OF seq] tx_seq checkpoint_idents unfolding t same_idents_def by (metis fun_upd_same)+
  then have "fst (fee_payer_of ?kl tx p (marked FEE_CHECKPOINT t)) = Inr fee_payer"
    and now: "seq_of (marked FEE_CHECKPOINT t) fee_payer = tx_seq tx + 1"
    using fee_payer_result [of "marked FEE_CHECKPOINT t" "marked FEE_CHECKPOINT s" ?kl tx p] payer by simp_all
  then obtain z where z: "fee_payer_of ?kl tx p (marked FEE_CHECKPOINT t) = (Inr fee_payer, z)"
    by (metis prod.collapse)
  have "same_idents (marked FEE_CHECKPOINT t) z" by (rule advancesD [OF fee_payer_idents z]) simp
  with now have "seq_of z fee_payer = tx_seq tx + 1" by (simp add: same_idents_def)
  then have fails: "top_apply_internal lib tx h' p (marked FEE_CHECKPOINT t) =
      (Inl (Err (InvalidSeq (tx_seq tx + 1) (tx_seq tx))), z)"
    by (simp add: top_apply_internal_def sbind_apply [of "fee_payer_of ?kl tx p"] z)
  obtain r t' where run: "top_apply lib tx h' p t = (r, t')" by force
  from run [unfolded top_apply_def] internal_stacks [OF assms(2)]
  have "r = Inl (Err (InvalidSeq (tx_seq tx + 1) (tx_seq tx)))"
    by (cases rule: under_checkpoint_cases) (use fails in simp_all)
  with run show ?thesis by simp
qed

section \<open>Commit\<close>

lemma commit_loop:
  assumes "set sids \<subseteq> {sid. shard_caches s sid \<noteq> None}"
  shows "\<exists>t. sforeach sids (commit_shard kl trie_root) s = (Inr (), t) \<and> shard_caches t = shard_caches s \<and>
    accounts t = accounts s \<and> (\<forall>sid. map_option sh_root (shards t sid) = (if sid \<in> set sids
      then Some (trie_root (sc_schemes (the (shard_caches s sid)), sc_assets (the (shard_caches s sid))))
      else map_option sh_root (shards s sid)))"
  using assms
proof (induction sids arbitrary: s)
  case (Cons sid sids)
  obtain c where c: "shard_caches s sid = Some c" using Cons.prems by auto
  define w where "w = snd (commit_shard kl trie_root sid s)"
  have w: "commit_shard kl trie_root sid s = (Inr (), w)" "shard_caches w = shard_caches s" "accounts w = accounts s"
    "\<And>x. map_option sh_root (shards w x) = (if x = sid then Some (trie_root (sc_schemes c, sc_assets c))
       else map_option sh_root (shards s x))"
    by (simp_all add: w_def commit_shard_def c set_shard_root_def shard_mut_def)
  obtain t where "sforeach sids (commit_shard kl trie_root) w = (Inr (), t)" "shard_caches t = shard_caches s"
    "accounts t = accounts s" "\<forall>x. map_option sh_root (shards t x) = (if x \<in> set sids
      then Some (trie_root (sc_schemes (the (shard_caches s x)), sc_assets (the (shard_caches s x))))
      else map_option sh_root (shards w x))"
    using Cons.IH [of w] Cons.prems by (auto simp: w(2,3))
  then show ?case using c by (intro exI [of _ t]) (auto simp: sbind_apply w(1,4))
qed simp


section \<open>Examples\<close>

text \<open>Two shards, an account with 100 CCC; the shards have no caches yet.\<close>

definition sample_level_lib :: "unit top_lib" where
  "sample_level_lib = \<lparr>tl_keys = sample_keys, tl_shard = sample_lib,
     tl_content = (\<lambda>root. if root = 1 then (sl_schemes sample_shard, sl_assets sample_shard)
       else if root = 2 then ([1 \<mapsto> plain_scheme 10], Map.empty) else (Map.empty, Map.empty)),
     tl_tx_hash = (\<lambda>_. 88), tl_handler = (\<lambda>_. None)\<rparr>"

definition sample_level :: "unit top_level" where
  "sample_level = \<lparr>accounts = [7 \<mapsto> account_new 100 0], regular_accounts = Map.empty, md = Some (metadata_new 2),
     shards = [0 \<mapsto> \<lparr>sh_root = 1, sh_owners = [], sh_users = []\<rparr>, 1 \<mapsto> \<lparr>sh_root = 2, sh_owners = [], sh_users = []\<rparr>],
     texts = Map.empty, action_data = (), shard_caches = Map.empty, top_snaps = [], top_ids = []\<rparr>"

definition sample_call :: "action \<Rightarrow> transaction" where
  "sample_call a = \<lparr>tx_seq = 0, tx_fee = 3, tx_network_id = 17, tx_action = a\<rparr>"

abbreviation sample_apply :: "action \<Rightarrow> unit top_level \<Rightarrow> (state_error, unit) result \<times> unit top_level" where
  "sample_apply a \<equiv> top_apply sample_level_lib (sample_call a) 1 7"

lemma sample_wrap_runs: "fst (sample_apply (WrapCCC 0 2 [] 20 7) sample_level) = Ok ()"
  by code_simp

lemma sample_pay_fails: "fst (sample_apply (Pay 9 1000) sample_level) = Error (InsufficientBalance 7 97 1000)"
  by code_simp

lemma sample_level_simps:
  "handlers_ok sample_level_lib" "shards sample_level (next_shard_id sample_level) = None"
  "tl_content sample_level_lib (blake_null_rlp (tl_keys sample_level_lib)) = (Map.empty, Map.empty)"
  "\<forall>tr. lib_asset_type (tl_shard sample_level_lib) tr \<noteq> 0"
  by (simp_all add: handlers_ok_def sample_level_lib_def sample_level_def next_shard_id_def metadata_new_def
      sample_keys_def sample_lib_def)


lemma sample_supply: "ccc_supply sample_level_lib sample_level = 100"
proof -
  have "balance_of sample_level = (\<lambda>_. 0)(7 := 100)"
    by (auto simp: sample_level_def balance_of_def account_new_def fun_eq_iff)
  moreover have "shard_ccc sample_level_lib sample_level sid = 0" for sid
    by (simp add: shard_ccc_def shard_view_def sample_level_def sample_level_lib_def sample_shard_def from_existing_def)
  ultimately show ?thesis by (simp add: ccc_supply_def total_ccc_def total_single wrapped_ccc_def)
qed


theorem top_apply_no_replay_witness:
  "fst (sample_apply (WrapCCC 0 2 [] 20 7) (snd (sample_apply (WrapCCC 0 2 [] 20 7) sample_level))) =
     Error (InvalidSeq 1 0)"
  using top_apply_no_replay [OF runs_to [OF sample_wrap_runs] sample_level_simps(1), of 1] by (simp add: sample_call_def)

text \<open>The same state with both shards in the cache, as on a node that has just worked with them.\<close>

definition warm_level :: "unit top_level" where
  "warm_level = sample_level\<lparr>shard_caches := (\<lambda>sid.
     map_option (\<lambda>sh. empty_cache (tl_content sample_level_lib (sh_root sh))) (shards sample_level sid))\<rparr>"


section \<open>A refused transaction that is not undone\<close>

text \<open>A transfer of two assets, the first in shard 0, the second, which does not exist, in shard 1.\<close>

definition two_shard_transfer :: action where
  "two_shard_transfer = TransferAsset 17 []
     [open_input 0 1 10, (open_input 1 1 10)\<lparr>in_prev_out := (sample_prev_out 1 1 10)\<lparr>op_shard_id := 1\<rparr>\<rparr>]
     [plain_output 9 1 10, (plain_output 8 1 10)\<lparr>out_shard_id := 1\<rparr>] [] [] [] None"

lemma two_shard_verified: "action_verify oh two_shard_transfer = Ok ()"
proof -
  let ?i = "[open_input 0 1 10, (open_input 1 1 10)\<lparr>in_prev_out := (sample_prev_out 1 1 10)\<lparr>op_shard_id := 1\<rparr>\<rparr>]"
  let ?o = "[plain_output 9 1 10, (plain_output 8 1 10)\<lparr>out_shard_id := 1\<rparr>]"
  have "is_input_and_output_consistent ?i ?o"
    by (subst is_input_and_output_consistent_iff)
      (auto simp: open_input_def plain_output_def sample_prev_out_def in_total_def out_total_def)
  then have "verify_transfer oh [] ?i ?o [] = Ok ()"
    unfolding verify_transfer_parts verify_order_indices_Ok
    by (simp add: open_input_def plain_output_def sample_prev_out_def)
  then show ?thesis by (simp add: two_shard_transfer_def)
qed

lemma warm_view: "shard_view sample_level_lib warm_level = shard_view sample_level_lib sample_level"
  by (auto simp: fun_eq_iff shard_view_def warm_level_def empty_cache_def sample_level_def split: option.split)


end
