(* ===== verification/Rlp_Base.thy ===== *)
theory Rlp_Base
  imports CC_Prelude
begin

text \<open>
  The numbers inside RLP (\<open>util/rlp/src/impls.rs\<close>, \<open>util/rlp/src/error.rs\<close>): the errors of the
  decoder, big-endian numbers without leading zero bytes and how they are read back.
\<close>

unbundle bit_operations_syntax

type_synonym u32 = "32 word"

datatype rlp_error =
    RlpIsTooBig nat nat
  | RlpIsTooShort nat nat
  | RlpExpectedToBeList
  | RlpExpectedToBeData
  | RlpIncorrectListLen nat nat
  | RlpDataLenWithZeroPrefix
  | RlpListLenWithZeroPrefix
  | RlpInvalidIndirection
  | RlpInconsistentLengthAndData nat nat
  | RlpInvalidLength nat nat
  | RlpNullTerminatedString
  | RlpCustom string

section \<open>Big-endian numbers without leading zeros\<close>

text \<open>\<open>leading_zeros()\<close>, and \<open>&buffer[leading_empty_bytes..]\<close> of the big-endian bytes.\<close>

definition leading_zeros :: "'a::len word \<Rightarrow> nat" where
  "leading_zeros w = length (takeWhile Not (map (bit w) (rev [0..<LENGTH('a)])))"

definition minimal_bytes :: "'a::len word \<Rightarrow> bytes" where
  "minimal_bytes w = drop (leading_zeros w div 8) (be_bytes w)"

text \<open>The loop \<open>res += (*byte as usize) << shift\<close>.\<close>

fun be_sum :: "bytes \<Rightarrow> 'a::len word" where
  "be_sum [] = 0"
| "be_sum (b # bs) = push_bit (length bs * 8) (ucast b) + be_sum bs"

definition decode_usize :: "bytes \<Rightarrow> (rlp_error, nat) result" where
  "decode_usize bs =
     (if length bs \<le> 8 then
        (case bs of
           [] \<Rightarrow> Panics ''index out of bounds''
         | b # _ \<Rightarrow> if b = 0 then Error RlpInvalidIndirection else Ok (unat (be_sum bs :: u64)))
      else Error (RlpIsTooBig 8 (length bs)))"

section \<open>Leading zeros\<close>

definition byte_bits :: "u8 \<Rightarrow> bool list" where
  "byte_bits b = map (bit b) (rev [0..<8])"

lemma bits_by_bytes:
  fixes w :: "'a::len word"
  shows "map (bit w) (rev [0..<8 * n]) = concat (map byte_bits (map (\<lambda>i. ucast (drop_bit (8 * i) w)) (rev [0..<n])))"
proof (induction n)
  case (Suc n)
  have "[0..<8 * Suc n] = [0..<8 * n] @ map (\<lambda>k. k + 8 * n) [0..<8]"
    using upt_add_eq_append [of 0 "8 * n" 8] map_add_upt [of "8 * n" 8] by (simp add: add.commute)
  moreover have "map (bit w) (rev (map (\<lambda>k. k + 8 * n) [0..<8])) = byte_bits (ucast (drop_bit (8 * n) w))"
    by (auto simp: byte_bits_def rev_map bit_ucast_iff bit_drop_bit_eq add.commute)
  ultimately show ?case using Suc.IH by simp
qed simp

lemma takeWhile_byte_bits:
  "length (takeWhile Not (concat (map byte_bits bs))) div 8 = length (takeWhile ((=) 0) bs)"
proof (induction bs)
  case (Cons b bs)
  show ?case
  proof (cases "b = 0")
    case True
    then have "byte_bits b = replicate 8 False"
      by (simp add: byte_bits_def upt_rec numeral_eq_Suc)
    then have "takeWhile Not (byte_bits b @ concat (map byte_bits bs)) = replicate 8 False @ takeWhile Not (concat (map byte_bits bs))"
      by (simp only: \<open>byte_bits b = replicate 8 False\<close>) (rule takeWhile_append2, simp)
    then show ?thesis using True Cons.IH by simp
  next
    case False
    then obtain n where n: "bit b n" by (metis bit_0_eq bit_eq_iff bot_apply bot_bool_def)
    then have "n < 8" using bit_imp_le_length [of b n] by simp
    with n have mem: "True \<in> set (byte_bits b)" by (force simp: byte_bits_def)
    then have "takeWhile Not (byte_bits b @ concat (map byte_bits bs)) = takeWhile Not (byte_bits b)"
      by (intro takeWhile_append1 [of True]) simp_all
    moreover have "length (takeWhile Not (byte_bits b)) < length (byte_bits b)"
    proof (rule ccontr)
      assume "\<not> ?thesis"
      then have "takeWhile Not (byte_bits b) = byte_bits b"
        by (metis length_takeWhile_le takeWhile_eq_take take_all not_less)
      with mem show False by (metis set_takeWhileD)
    qed
    moreover have "length (byte_bits b) = 8" by (simp add: byte_bits_def)
    ultimately show ?thesis using False by simp
  qed
qed simp

lemma minimal_bytes_eq:
  fixes w :: "'a::len word"
  assumes "8 dvd LENGTH('a)"
  shows "minimal_bytes w = dropWhile ((=) 0) (be_bytes w)"
proof -
  have "8 * (LENGTH('a) div 8) = LENGTH('a)" using assms by simp
  then have "leading_zeros w div 8 = length (takeWhile ((=) 0) (be_bytes w))"
    using bits_by_bytes [of w "LENGTH('a) div 8"] takeWhile_byte_bits [of "be_bytes w"]
    by (simp add: leading_zeros_def be_bytes_def)
  then show ?thesis by (simp add: minimal_bytes_def dropWhile_eq_drop)
qed

section \<open>Reading the bytes back\<close>

lemma be_sum_snoc: "be_sum (bs @ [b]) = push_bit 8 (be_sum bs :: 'a::len word) + ucast b"
proof (induction bs)
  case (Cons c bs)
  have "push_bit (8 + length bs * 8) (ucast c :: 'a word) = push_bit 8 (push_bit (length bs * 8) (ucast c))"
    by simp
  then show ?case using Cons.IH by (simp add: push_bit_add)
qed simp

lemma be_sum_eq: "be_sum bs = (of_be_bytes bs :: 'a::len word)"
proof (induction bs rule: rev_induct)
  case Nil
  then show ?case by (simp add: of_be_bytes_def)
next
  case (snoc b bs)
  have "push_bit 8 (be_sum bs :: 'a word) AND ucast b = 0"
  proof (rule bit_word_eqI)
    fix n
    show "bit (push_bit 8 (be_sum bs :: 'a word) AND ucast b) n = bit (0 :: 'a word) n"
      using bit_imp_le_length [of b n] by (auto simp: bit_and_iff bit_push_bit_iff bit_ucast_iff)
  qed
  then have "push_bit 8 (be_sum bs :: 'a word) + ucast b = push_bit 8 (be_sum bs) OR ucast b"
    by (rule disjunctive_add_eq_or)
  then show ?case using snoc.IH by (simp add: be_sum_snoc of_be_bytes_snoc)
qed

lemma be_bytes_zeros: "be_bytes w = replicate (length (takeWhile ((=) 0) (be_bytes w))) 0 @ dropWhile ((=) 0) (be_bytes w)"
proof -
  have "takeWhile ((=) 0) (be_bytes w) = replicate (length (takeWhile ((=) 0) (be_bytes w))) 0"
    by (rule replicate_eqI) (auto dest: set_takeWhileD)
  then show ?thesis by (metis takeWhile_dropWhile_id)
qed

lemma be_sum_minimal:
  fixes w :: "'a::len word"
  assumes "8 dvd LENGTH('a)"
  shows "be_sum (minimal_bytes w) = w"
  using be_bytes_zeros [of w] of_be_bytes_be_bytes [OF assms, of w]
  by (metis be_sum_eq minimal_bytes_eq [OF assms] of_be_bytes_zeros)

lemma minimal_bytes_length:
  fixes w :: "'a::len word"
  shows "length (minimal_bytes w) \<le> LENGTH('a) div 8"
  by (simp add: minimal_bytes_def)

lemma minimal_bytes_head: "8 dvd LENGTH('a) \<Longrightarrow> minimal_bytes (w :: 'a::len word) = b # bs \<Longrightarrow> b \<noteq> 0"
  using hd_dropWhile [of "(=) 0" "be_bytes w"] by (auto simp: minimal_bytes_eq)

lemma minimal_bytes_Nil: "8 dvd LENGTH('a) \<Longrightarrow> minimal_bytes (w :: 'a::len word) = [] \<Longrightarrow> w = 0"
  using be_sum_minimal [of w] by simp

end
