(* ===== verification/Rlp_Stream.thy ===== *)
theory Rlp_Stream
  imports Rlp_Base
begin

text \<open>
  The RLP encoder (\<open>util/rlp/src/stream.rs\<close>): a stream that collects bytes, reserves one byte for the
  header of each list it opens, counts the items appended to it, and inserts the header when the last
  item arrives. The stack of unfinished lists is kept with the innermost list first. It is shown to
  write what the recursive definition of RLP says.
\<close>

section \<open>The stream\<close>

record list_info =
  li_position :: nat
  li_current :: nat
  li_max :: "nat option"

record rlp_stream =
  unfinished_lists :: "list_info list"
  buffer :: bytes
  finished_list :: bool

definition rlp_new :: rlp_stream where
  "rlp_new = \<lparr>unfinished_lists = [], buffer = [], finished_list = False\<rparr>"

text \<open>\<open>BasicEncoder\<close>\<close>

definition insert_size :: "nat \<Rightarrow> nat \<Rightarrow> bytes \<Rightarrow> u8 \<times> bytes" where
  "insert_size sz pos buf =
     (let bs = minimal_bytes (of_nat sz :: u32) in
      (4 - of_nat (leading_zeros (of_nat sz :: u32) div 8), take pos buf @ bs @ drop pos buf))"

definition insert_list_payload :: "nat \<Rightarrow> nat \<Rightarrow> bytes \<Rightarrow> bytes" where
  "insert_list_payload len pos buf =
     (if len \<le> 55 then buf[pos - 1 := 0xc0 + of_nat len]
      else case insert_size len pos buf of (n, buf') \<Rightarrow> buf'[pos - 1 := 0xf7 + n])"

definition encode_value :: "bytes \<Rightarrow> rlp_stream \<Rightarrow> rlp_stream" where
  "encode_value value s = s\<lparr>buffer :=
     (case value of
        [] \<Rightarrow> buffer s @ [0x80]
      | b # bs \<Rightarrow>
          if bs = [] \<and> b < 0x80 then buffer s @ [b]
          else if length value \<le> 55 then buffer s @ [0x80 + of_nat (length value)] @ value
          else case insert_size (length value) (length (buffer s) + 1) (buffer s @ [0]) of
            (n, buf) \<Rightarrow> buf[length (buffer s) := 0xb7 + n] @ value)\<rparr>"

function note_appended :: "nat \<Rightarrow> rlp_stream \<Rightarrow> ('e, rlp_stream) result" where
  "note_appended inserted_items s =
     (case unfinished_lists s of
        [] \<Rightarrow> Ok s
      | x # xs \<Rightarrow>
          let current = li_current x + inserted_items in
          if (case li_max x of Some mx \<Rightarrow> mx < current | None \<Rightarrow> False)
          then Panics ''You cannot append more items then you expect!''
          else if li_max x = Some current
          then rbind (note_appended 1 (s\<lparr>unfinished_lists := xs,
                 buffer := insert_list_payload (length (buffer s) - li_position x) (li_position x) (buffer s)\<rparr>))
                 (\<lambda>s'. Ok (s'\<lparr>finished_list := True\<rparr>))
          else Ok (s\<lparr>unfinished_lists := x\<lparr>li_current := current\<rparr> # xs, finished_list := False\<rparr>))"
  by pat_completeness auto
termination
  by (relation "measure (\<lambda>(_, s). length (unfinished_lists s))") auto

declare note_appended.simps [simp del]

definition begin_list :: "nat \<Rightarrow> rlp_stream \<Rightarrow> ('e, rlp_stream) result" where
  "begin_list len s =
     (let s = s\<lparr>finished_list := False\<rparr> in
      if len = 0 then
        rbind (note_appended 1 (s\<lparr>buffer := buffer s @ [0xc0]\<rparr>)) (\<lambda>s'. Ok (s'\<lparr>finished_list := True\<rparr>))
      else Ok (s\<lparr>buffer := buffer s @ [0],
             unfinished_lists := \<lparr>li_position = length (buffer s) + 1, li_current = 0, li_max = Some len\<rparr> # unfinished_lists s\<rparr>))"

definition begin_unbounded_list :: "rlp_stream \<Rightarrow> rlp_stream" where
  "begin_unbounded_list s = s\<lparr>finished_list := False, buffer := buffer s @ [0],
     unfinished_lists := \<lparr>li_position = length (buffer s) + 1, li_current = 0, li_max = None\<rparr> # unfinished_lists s\<rparr>"

definition complete_unbounded_list :: "rlp_stream \<Rightarrow> ('e, rlp_stream) result" where
  "complete_unbounded_list s = (case unfinished_lists s of
     [] \<Rightarrow> Panics ''No open list.''
   | x # xs \<Rightarrow> if li_max x \<noteq> None then Panics ''List type mismatch.''
       else note_appended 1 (s\<lparr>unfinished_lists := xs,
         buffer := insert_list_payload (length (buffer s) - li_position x) (li_position x) (buffer s)\<rparr>))"

text \<open>\<open>append\<close> with the \<open>rlp_append\<close> of the value; \<open>append_list\<close>.\<close>

definition stream_append :: "(rlp_stream \<Rightarrow> ('e, rlp_stream) result) \<Rightarrow> rlp_stream \<Rightarrow> ('e, rlp_stream) result" where
  "stream_append rlp_append s =
     rbind (rlp_append (s\<lparr>finished_list := False\<rparr>)) (\<lambda>s'.
       if \<not> finished_list s' then note_appended 1 s' else Ok s')"

fun append_all :: "(rlp_stream \<Rightarrow> ('e, rlp_stream) result) list \<Rightarrow> rlp_stream \<Rightarrow> ('e, rlp_stream) result" where
  "append_all [] s = Ok s"
| "append_all (a # as) s = rbind (stream_append a s) (append_all as)"

definition append_list :: "(rlp_stream \<Rightarrow> ('e, rlp_stream) result) list \<Rightarrow> rlp_stream \<Rightarrow> ('e, rlp_stream) result" where
  "append_list values s = rbind (begin_list (length values) s) (append_all values)"

definition append_empty_data :: "rlp_stream \<Rightarrow> ('e, rlp_stream) result" where
  "append_empty_data s = note_appended 1 (s\<lparr>buffer := buffer s @ [0x80]\<rparr>)"

definition append_raw :: "bytes \<Rightarrow> nat \<Rightarrow> rlp_stream \<Rightarrow> ('e, rlp_stream) result" where
  "append_raw bs item_count s = note_appended item_count (s\<lparr>buffer := buffer s @ bs\<rparr>)"

definition estimate_size :: "nat \<Rightarrow> rlp_stream \<Rightarrow> nat" where
  "estimate_size add s =
     (let total_size = length (buffer s) + add in
      total_size + (\<Sum>l\<leftarrow>unfinished_lists s.
        let len = total_size - li_position l in
        if 55 < len then 8 - leading_zeros (of_nat len :: u64) div 8 else 0))"

definition append_raw_checked :: "bytes \<Rightarrow> nat \<Rightarrow> nat \<Rightarrow> rlp_stream \<Rightarrow> ('e, bool \<times> rlp_stream) result" where
  "append_raw_checked bs item_count max_size s =
     (if max_size < estimate_size (length bs) s then Ok (False, s)
      else rbind (append_raw bs item_count s) (\<lambda>s'. Ok (True, s')))"

definition is_finished :: "rlp_stream \<Rightarrow> bool" where
  "is_finished s \<longleftrightarrow> unfinished_lists s = []"

definition rlp_out :: "rlp_stream \<Rightarrow> ('e, bytes) result" where
  "rlp_out s = rbind (rassert ''self.is_finished()'' (is_finished s)) (\<lambda>_. Ok (buffer s))"

definition rlp_clear :: "rlp_stream \<Rightarrow> rlp_stream" where
  "rlp_clear s = s\<lparr>buffer := [], unfinished_lists := []\<rparr>"

section \<open>What RLP is\<close>

datatype rlp_item = RData bytes | RList "rlp_item list"

text \<open>The header of a string or list: the length itself up to 55 bytes, above that the length of the
  length and the length, which the code keeps in 32 bits.\<close>

definition rlp_header :: "u8 \<Rightarrow> nat \<Rightarrow> bytes" where
  "rlp_header base n =
     (if n \<le> 55 then [base + of_nat n]
      else let l = minimal_bytes (of_nat n :: u32) in (base + 55 + of_nat (length l)) # l)"

fun rlp_bytes :: "rlp_item \<Rightarrow> bytes" where
  "rlp_bytes (RData bs) = (if length bs = 1 \<and> hd bs < 0x80 then bs else rlp_header 0x80 (length bs) @ bs)"
| "rlp_bytes (RList ts) = (let payload = concat (map rlp_bytes ts) in rlp_header 0xc0 (length payload) @ payload)"

text \<open>Writing an item to the stream, the way the \<open>Encodable\<close> instances do.\<close>

function item_append :: "rlp_item \<Rightarrow> rlp_stream \<Rightarrow> ('e, rlp_stream) result" where
  "item_append (RData bs) s = Ok (encode_value bs s)"
| "item_append (RList ts) s = append_list (map item_append ts) s"
  by pat_completeness auto
termination
  by (relation "measure (\<lambda>(t, _). size t)") (auto simp: less_Suc_eq_le size_list_estimation')

section \<open>The stream writes RLP\<close>

lemma size_bytes_eq:
  "4 - of_nat (leading_zeros (w :: u32) div 8) = (of_nat (length (minimal_bytes w)) :: u8)"
proof -
  have "leading_zeros w \<le> 32" unfolding leading_zeros_def by (rule order_trans [OF length_takeWhile_le]) simp
  then have "leading_zeros w div 8 \<le> 4" by simp
  then show ?thesis by (simp add: minimal_bytes_def of_nat_diff)
qed

lemma encode_value_bytes: "encode_value bs s = s\<lparr>buffer := buffer s @ rlp_bytes (RData bs)\<rparr>"
proof (cases bs)
  case (Cons b bs')
  then show ?thesis
    by (auto simp: encode_value_def rlp_header_def insert_size_def size_bytes_eq Let_def list_update_append)
qed (simp add: encode_value_def rlp_header_def)

lemma insert_list_payload_bytes:
  "insert_list_payload (length p) (Suc (length B)) (B @ 0 # p) = B @ rlp_header 0xc0 (length p) @ p"
  by (auto simp: insert_list_payload_def insert_size_def rlp_header_def size_bytes_eq Let_def list_update_append)

lemma stream_updates [simp]:
  fixes s :: rlp_stream
  shows "s\<lparr>finished_list := f, buffer := b\<rparr> = s\<lparr>buffer := b, finished_list := f\<rparr>"
    "s\<lparr>finished_list := f, unfinished_lists := l\<rparr> = s\<lparr>unfinished_lists := l, finished_list := f\<rparr>"
    "s\<lparr>buffer := b, unfinished_lists := l\<rparr> = s\<lparr>unfinished_lists := l, buffer := b\<rparr>"
  by (cases s; simp)+

definition set_finished :: "('e, rlp_stream) result \<Rightarrow> ('e, rlp_stream) result" where
  "set_finished r = rbind r (\<lambda>s. Ok (s\<lparr>finished_list := True\<rparr>))"

lemma set_finished_twice [simp]: "set_finished (set_finished r) = set_finished r"
  by (cases r) (simp_all add: set_finished_def)

lemma append_flag [simp]: "stream_append a (s\<lparr>finished_list := f\<rparr>) = stream_append a s"
  by (simp add: stream_append_def)

text \<open>An open list with \<open>k\<close> of its \<open>n\<close> items, whose bytes are \<open>p\<close>, on top of the stream \<open>s\<close>.\<close>

definition opened :: "nat \<Rightarrow> nat \<Rightarrow> bytes \<Rightarrow> bool \<Rightarrow> rlp_stream \<Rightarrow> rlp_stream" where
  "opened n k p f s = s\<lparr>buffer := buffer s @ 0 # p, finished_list := f, unfinished_lists :=
     \<lparr>li_position = Suc (length (buffer s)), li_current = k, li_max = Some n\<rparr> # unfinished_lists s\<rparr>"

definition with_bytes :: "bytes \<Rightarrow> rlp_stream \<Rightarrow> rlp_stream" where
  "with_bytes p s = s\<lparr>buffer := buffer s @ p, finished_list := False\<rparr>"

lemma note_open:
  "Suc k < n \<Longrightarrow> note_appended 1 (with_bytes b (opened n k p f s)) = Ok (opened n (Suc k) (p @ b) False s)"
  by (subst note_appended.simps) (simp add: opened_def with_bytes_def)

lemma note_last:
  "Suc k = n \<Longrightarrow> note_appended 1 (with_bytes b (opened n k p f s)) =
     set_finished (note_appended 1 (with_bytes (rlp_header 0xc0 (length (p @ b)) @ p @ b) s))"
  using insert_list_payload_bytes [of "p @ b" "buffer s"]
  by (subst note_appended.simps) (simp add: opened_def with_bytes_def set_finished_def)

text \<open>What \<open>append\<close> does with an item; a finished list is not counted again.\<close>

definition counted :: "rlp_item \<Rightarrow> rlp_stream \<Rightarrow> ('e, rlp_stream) result" where
  "counted t s = (let r = note_appended 1 (with_bytes (rlp_bytes t) s) in
     case t of RData _ \<Rightarrow> r | RList _ \<Rightarrow> set_finished r)"

lemma append_all_Nil [simp]: "rbind r (append_all []) = r"
  by (cases r) simp_all

lemma append_items_last:
  assumes "\<And>t s. t \<in> set ts \<Longrightarrow> stream_append (item_append t) s = (counted t s :: ('e, _) result)"
    and "ts \<noteq> []" "k + length ts = n"
  shows "append_all (map item_append ts) (opened n k p f s) =
    (set_finished (note_appended 1 (with_bytes (rlp_header 0xc0 (length (p @ concat (map rlp_bytes ts))) @
       p @ concat (map rlp_bytes ts)) s)) :: ('e, _) result)"
  using assms
proof (induction ts arbitrary: k p f)
  case (Cons t ts)
  let ?o = "opened n k p f s"
  note app = Cons.prems(1) [of t ?o]
  show ?case
  proof (cases "ts = []")
    case True
    then have "Suc k = n" using Cons.prems(3) by simp
    then have "note_appended 1 (with_bytes (rlp_bytes t) ?o) = (set_finished (note_appended 1
        (with_bytes (rlp_header 0xc0 (length (p @ rlp_bytes t)) @ p @ rlp_bytes t) s)) :: ('e, _) result)"
      by (rule note_last)
    with app True show ?thesis by (cases t) (simp_all add: counted_def del: item_append.simps rlp_bytes.simps)
  next
    case False
    then have k: "Suc k < n" "Suc k + length ts = n" using Cons.prems(3) by (cases ts; simp)+
    have "stream_append (item_append t) ?o =
        (Ok (opened n (Suc k) (p @ rlp_bytes t) (case t of RData _ \<Rightarrow> False | RList _ \<Rightarrow> True) s) :: ('e, _) result)"
      using app note_open [OF k(1), of "rlp_bytes t" p f s, where 'a = 'e] by (cases t) (simp_all add: counted_def set_finished_def opened_def del: item_append.simps rlp_bytes.simps)
    then show ?thesis using Cons.IH [OF _ False k(2), of "p @ rlp_bytes t"] Cons.prems(1)
      by (simp del: item_append.simps rlp_bytes.simps)
  qed
qed simp

lemma append_item_counted: "stream_append (item_append t) s = (counted t s :: ('e, _) result)"
proof (induction t arbitrary: s)
  case (RData bs)
  show ?case
    by (simp add: counted_def stream_append_def encode_value_bytes with_bytes_def del: rlp_bytes.simps)
next
  case (RList ts)
  have "append_list (map item_append ts) (s\<lparr>finished_list := False\<rparr>) =
      (set_finished (note_appended 1 (with_bytes (rlp_bytes (RList ts)) s)) :: ('e, _) result)"
  proof (cases "ts = []")
    case True
    then show ?thesis
      by (simp add: append_list_def begin_list_def with_bytes_def rlp_header_def set_finished_def rbind_assoc Let_def)
  next
    case False
    have "append_all (map item_append ts) (opened (length ts) 0 [] False s) =
        (set_finished (note_appended 1 (with_bytes (rlp_header 0xc0 (length ([] @ concat (map rlp_bytes ts))) @
          [] @ concat (map rlp_bytes ts)) s)) :: ('e, _) result)"
      by (rule append_items_last [OF RList.IH False]) simp_all
    with False show ?thesis by (simp add: append_list_def begin_list_def opened_def Let_def)
  qed
  then show ?case
    by (cases "note_appended 1 (with_bytes (rlp_bytes (RList ts)) s) :: ('e, _) result")
      (simp_all add: counted_def stream_append_def set_finished_def del: rlp_bytes.simps)
qed

text \<open>
  C31: the RLP stream writes what RLP is. Appending any item, nested lists included, to an empty stream
  never panics, leaves no list open, and its bytes are the header of every string and list followed by
  its content, although the stream only learns the length of a list when its last item arrives.
\<close>

theorem stream_writes_rlp:
  "rbind (stream_append (item_append t) rlp_new) rlp_out = Ok (rlp_bytes t)"
  by (cases t) (simp_all add: append_item_counted counted_def with_bytes_def rlp_new_def note_appended.simps set_finished_def
      rlp_out_def is_finished_def del: rlp_bytes.simps)

end
