(* ===== verification/Rlp_In.thy ===== *)
theory Rlp_In
  imports Rlp_Stream
begin

text \<open>
  The RLP decoder (\<open>util/rlp/src/untrusted_rlp.rs\<close>, \<open>util/rlp/src/impls.rs\<close>): a view onto bytes that
  are not trusted. Slices are lists; indexing and slicing out of range are panics, unless the code has
  checked the range before. The cached position of \<open>at\<close> is modelled and shown to change nothing.
\<close>

section \<open>Headers\<close>

record header_info =
  header_len :: nat
  value_len :: nat

definition payload_info_new :: "nat \<Rightarrow> nat \<Rightarrow> header_info" where
  "payload_info_new h v = \<lparr>header_len = h, value_len = v\<rparr>"

definition calculate_payload_info :: "bytes \<Rightarrow> nat \<Rightarrow> (rlp_error, header_info) result" where
  "calculate_payload_info header_bytes len_of_len =
     (let hl = 1 + len_of_len in
      if length header_bytes \<le> 1 then Error (RlpIsTooShort 1 0)
      else if header_bytes ! 1 = 0 then Error RlpDataLenWithZeroPrefix
      else if length header_bytes < hl then Error (RlpIsTooShort hl (length header_bytes))
      else rbind (decode_usize (take len_of_len (drop 1 header_bytes))) (\<lambda>vl. Ok (payload_info_new hl vl)))"

definition payload_info_from :: "bytes \<Rightarrow> (rlp_error, header_info) result" where
  "payload_info_from bs = (case bs of
     [] \<Rightarrow> Error (RlpIsTooShort 1 0)
   | l # _ \<Rightarrow>
       if l \<le> 0x7f then Ok (payload_info_new 0 1)
       else if l \<le> 0xb7 then Ok (payload_info_new 1 (unat l - 0x80))
       else if l \<le> 0xbf then calculate_payload_info bs (unat l - 0xb7)
       else if l \<le> 0xf7 then Ok (payload_info_new 1 (unat l - 0xc0))
       else calculate_payload_info bs (unat l - 0xf7))"

definition payload_info :: "bytes \<Rightarrow> (rlp_error, header_info) result" where
  "payload_info bs = rbind (payload_info_from bs) (\<lambda>item.
     let x = header_len item + value_len item in
     if x < 2 ^ 64 \<and> x \<le> length bs then Ok item else Error (RlpIsTooShort 1 0))"

section \<open>Items of a list\<close>

definition is_null :: "bytes \<Rightarrow> bool" where
  "is_null bs \<longleftrightarrow> bs = []"

definition rlp_is_empty :: "bytes \<Rightarrow> bool" where
  "rlp_is_empty bs \<longleftrightarrow> \<not> is_null bs \<and> (hd bs = 0xc0 \<or> hd bs = 0x80)"

definition is_list :: "bytes \<Rightarrow> bool" where
  "is_list bs \<longleftrightarrow> \<not> is_null bs \<and> 0xc0 \<le> hd bs"

definition is_data :: "bytes \<Rightarrow> bool" where
  "is_data bs \<longleftrightarrow> \<not> is_null bs \<and> hd bs < 0xc0"

definition is_int :: "bytes \<Rightarrow> (rlp_error, bool) result" where
  "is_int bs = (case bs of
     [] \<Rightarrow> Ok False
   | b # _ \<Rightarrow>
       if b \<le> 0x80 then Ok True
       else if b \<le> 0xb7 then rbind (rassert ''index out of bounds'' (1 < length bs)) (\<lambda>_. Ok (bs ! 1 \<noteq> 0))
       else if b \<le> 0xbf then let i = 1 + unat b - 0xb7 in
         rbind (rassert ''index out of bounds'' (i < length bs)) (\<lambda>_. Ok (bs ! i \<noteq> 0))
       else Ok False)"

definition rlp_data :: "bytes \<Rightarrow> (rlp_error, bytes) result" where
  "rlp_data bs = rbind (payload_info bs) (\<lambda>pi. Ok (take (value_len pi) (drop (header_len pi) bs)))"

definition rlp_size :: "bytes \<Rightarrow> nat" where
  "rlp_size bs = (if \<not> is_data bs then 0
     else case payload_info bs of Inr pi \<Rightarrow> value_len pi | Inl _ \<Rightarrow> 0)"

definition consume :: "bytes \<Rightarrow> nat \<Rightarrow> (rlp_error, bytes) result" where
  "consume bs len = (if len \<le> length bs then Ok (drop len bs) else Error (RlpIsTooShort len (length bs)))"

fun consume_items :: "bytes \<Rightarrow> nat \<Rightarrow> (rlp_error, bytes) result" where
  "consume_items bs 0 = Ok bs"
| "consume_items bs (Suc n) =
     rbind (payload_info bs) (\<lambda>i. rbind (consume bs (header_len i + value_len i)) (\<lambda>rest. consume_items rest n))"

definition consume_list_payload :: "bytes \<Rightarrow> (rlp_error, bytes) result" where
  "consume_list_payload bs = rbind (payload_info bs) (\<lambda>item. consume bs (header_len item))"

text \<open>The end of \<open>at\<close>: \<open>rest\<close> starts at the wanted item.\<close>

definition item_at_rest :: "bytes \<Rightarrow> header_info \<Rightarrow> bytes \<Rightarrow> (rlp_error, bytes) result" where
  "item_at_rest bs info rest =
     (let offset_max = header_len info + value_len info - 1; new_offset = length bs - length rest in
      if offset_max < new_offset then Error (RlpIsTooShort new_offset offset_max)
      else rbind (payload_info rest) (\<lambda>found. Ok (take (header_len found + value_len found) rest)))"

text \<open>\<open>at\<close> with its cache: the index and offset of the item found last; the first value of the cache
  is an index that is never reached.\<close>

definition new_cache :: "nat \<times> nat" where
  "new_cache = (2 ^ 64 - 1, 0)"

definition at_cached :: "bytes \<Rightarrow> nat \<Rightarrow> nat \<times> nat \<Rightarrow> (rlp_error, bytes) result \<times> (nat \<times> nat)" where
  "at_cached bs index cache =
     (if \<not> is_list bs then (Error RlpExpectedToBeList, cache)
      else case payload_info bs of
        Inl e \<Rightarrow> (Inl e, cache)
      | Inr info \<Rightarrow>
          (case (if fst cache \<le> index
                 then rbind (consume bs (snd cache)) (\<lambda>rest. consume_items rest (index - fst cache))
                 else rbind (consume_list_payload bs) (\<lambda>rest. consume_items rest index)) of
             Inl e \<Rightarrow> (Inl e, cache)
           | Inr rest \<Rightarrow>
               let new_offset = length bs - length rest in
               if header_len info + value_len info - 1 < new_offset
               then (Error (RlpIsTooShort new_offset (header_len info + value_len info - 1)), cache)
               else (item_at_rest bs info rest, (index, new_offset))))"

text \<open>The same without the cache.\<close>

definition rlp_at :: "bytes \<Rightarrow> nat \<Rightarrow> (rlp_error, bytes) result" where
  "rlp_at bs index =
     (if \<not> is_list bs then Error RlpExpectedToBeList
      else rbind (payload_info bs) (\<lambda>info.
           rbind (consume_list_payload bs) (\<lambda>rest.
           rbind (consume_items rest index) (\<lambda>rest. item_at_rest bs info rest))))"

lemma payload_total_pos:
  assumes "payload_info bs = Ok i"
  shows "0 < header_len i + value_len i" "header_len i + value_len i \<le> length bs"
  using assms
  by (auto simp: payload_info_def payload_info_from_def calculate_payload_info_def payload_info_new_def Let_def
      rbind_eq_Ok_iff split: list.splits if_splits)

lemma consume_items_length: "consume_items bs n = Ok rest \<Longrightarrow> length rest + n \<le> length bs"
proof (induction n arbitrary: bs)
  case (Suc n)
  then obtain i rest' where i: "payload_info bs = Ok i" "consume bs (header_len i + value_len i) = Ok rest'"
    "consume_items rest' n = Ok rest" by (auto simp: rbind_eq_Ok_iff)
  from Suc.IH [OF i(3)] payload_total_pos [OF i(1)] i(2) show ?case by (auto simp: consume_def split: if_splits)
qed simp

lemma rlp_at_bound: "rlp_at bs index = Ok item \<Longrightarrow> index < length bs"
proof -
  assume "rlp_at bs index = Ok item"
  then obtain rest rest' where "consume_list_payload bs = Ok rest" "consume_items rest index = Ok rest'"
    "\<exists>i. payload_info rest' = Ok i"
    by (auto simp: rlp_at_def item_at_rest_def rbind_eq_Ok_iff Let_def split: if_splits)
  then show ?thesis
    using consume_items_length [of rest index rest'] payload_total_pos [of rest']
    by (fastforce simp: consume_list_payload_def consume_def rbind_eq_Ok_iff split: if_splits)
qed

text \<open>The iterator over the items: it stops at the first index that \<open>at\<close> refuses.\<close>

function iter_from :: "bytes \<Rightarrow> nat \<Rightarrow> bytes list" where
  "iter_from bs index = (case rlp_at bs index of Inr item \<Rightarrow> item # iter_from bs (index + 1) | Inl _ \<Rightarrow> [])"
  by pat_completeness auto
termination
  by (relation "measure (\<lambda>(bs, i). length bs - i)") (auto dest!: rlp_at_bound)

declare iter_from.simps [simp del]

definition rlp_iter :: "bytes \<Rightarrow> bytes list" where
  "rlp_iter bs = iter_from bs 0"

definition item_count :: "bytes \<Rightarrow> (rlp_error, nat) result" where
  "item_count bs = (if \<not> is_list bs then Error RlpExpectedToBeList else Ok (length (rlp_iter bs)))"

datatype prototype = Null | Data nat | ListOf nat

definition rlp_prototype :: "bytes \<Rightarrow> (rlp_error, prototype) result" where
  "rlp_prototype bs =
     (if is_data bs then Ok (Data (rlp_size bs))
      else if is_list bs then rbind (item_count bs) (\<lambda>n. Ok (ListOf n)) else Ok Null)"

section \<open>Values\<close>

definition decode_value :: "(bytes \<Rightarrow> (rlp_error, 'a) result) \<Rightarrow> bytes \<Rightarrow> (rlp_error, 'a) result" where
  "decode_value f bs = (case bs of
     [] \<Rightarrow> Error (RlpIsTooShort 1 0)
   | l # _ \<Rightarrow>
       if l \<le> 0x7f then f [l]
       else if l \<le> 0xb7 then
         let last_index_of = 1 + unat l - 0x80 in
         if length bs < last_index_of then Error (RlpInconsistentLengthAndData (length bs) last_index_of)
         else let d = take (last_index_of - 1) (drop 1 bs) in
           if l = 0x81 \<and> d ! 0 < 0x80 then Error RlpInvalidIndirection else f d
       else if l \<le> 0xbf then
         let len_of_len = unat l - 0xb7; begin_of_value = 1 + len_of_len in
         if length bs < begin_of_value then Error (RlpInconsistentLengthAndData (length bs) begin_of_value)
         else rbind (decode_usize (take len_of_len (drop 1 bs))) (\<lambda>len.
           let last_index_of_value = begin_of_value + len in
           if 2 ^ 64 \<le> last_index_of_value then Error (RlpInvalidLength (2 ^ 64 - 1) (2 ^ 64 - 1))
           else if length bs < last_index_of_value
           then Error (RlpInconsistentLengthAndData (length bs) last_index_of_value)
           else f (take len (drop begin_of_value bs)))
       else Error RlpExpectedToBeData)"

type_synonym 'a decoder = "bytes \<Rightarrow> (rlp_error, 'a) result"

definition bool_decode :: "bool decoder" where
  "bool_decode = decode_value (\<lambda>bs. case bs of [] \<Rightarrow> Ok False | [b] \<Rightarrow> Ok (b \<noteq> 0)
     | _ \<Rightarrow> Error (RlpIsTooBig 1 (length bs)))"

definition bytes_decode :: "bytes decoder" where
  "bytes_decode = decode_value Ok"

definition u8_decode :: "u8 decoder" where
  "u8_decode = decode_value (\<lambda>bs. case bs of [] \<Rightarrow> Ok 0
     | [b] \<Rightarrow> if b \<noteq> 0 then Ok b else Error RlpInvalidIndirection
     | _ \<Rightarrow> Error (RlpIsTooBig 1 (length bs)))"

text \<open>The macro for \<open>u16\<close>, \<open>u32\<close>, \<open>u64\<close> and \<open>u128\<close>; \<open>usize\<close> is a \<open>u64\<close>.\<close>

definition uint_decode :: "'a::len word decoder" where
  "uint_decode rlp = decode_value (\<lambda>bs.
     if length bs \<le> 1 then rbind (u8_decode rlp) (\<lambda>b. Ok (ucast b))
     else if length bs \<le> LENGTH('a) div 8 then
       if hd bs = 0 then Error RlpInvalidIndirection else Ok (be_sum bs)
     else Error (RlpIsTooBig (LENGTH('a) div 8) (length bs))) rlp"

text \<open>The macro for \<open>H128\<close> to \<open>H520\<close>.\<close>

definition hash_decode :: "'a::len word decoder" where
  "hash_decode = decode_value (\<lambda>bs.
     if length bs < LENGTH('a) div 8 then Error (RlpIsTooShort (LENGTH('a) div 8) (length bs))
     else if LENGTH('a) div 8 < length bs then Error (RlpIsTooBig (LENGTH('a) div 8) (length bs))
     else Ok (of_be_bytes bs))"

text \<open>The macro for \<open>U256\<close>.\<close>

definition U256_decode :: "256 word decoder" where
  "U256_decode = decode_value (\<lambda>bs.
     if bs \<noteq> [] \<and> hd bs = 0 then Error RlpInvalidIndirection
     else if length bs \<le> 32 then Ok (of_be_bytes bs) else Error (RlpIsTooBig 32 (length bs)))"

definition val_at :: "'a decoder \<Rightarrow> bytes \<Rightarrow> nat \<Rightarrow> (rlp_error, 'a) result" where
  "val_at dec bs index = rbind (rlp_at bs index) dec"

fun decode_each :: "'a decoder \<Rightarrow> bytes list \<Rightarrow> (rlp_error, 'a list) result" where
  "decode_each dec [] = Ok []"
| "decode_each dec (i # is) = rbind (dec i) (\<lambda>x. rbind (decode_each dec is) (\<lambda>xs. Ok (x # xs)))"

definition as_list :: "'a decoder \<Rightarrow> 'a list decoder" where
  "as_list dec bs = decode_each dec (rlp_iter bs)"

definition list_at :: "'a decoder \<Rightarrow> bytes \<Rightarrow> nat \<Rightarrow> (rlp_error, 'a list) result" where
  "list_at dec bs index = rbind (rlp_at bs index) (as_list dec)"

definition option_decode :: "'a decoder \<Rightarrow> 'a option decoder" where
  "option_decode dec bs = rbind (item_count bs) (\<lambda>items.
     if items = 1 then rbind (val_at dec bs 0) (\<lambda>x. Ok (Some x))
     else if items = 0 then Ok None else Error (RlpIncorrectListLen 1 items))"

definition triple_decode :: "'a decoder \<Rightarrow> 'b decoder \<Rightarrow> 'c decoder \<Rightarrow> ('a \<times> 'b \<times> 'c) decoder" where
  "triple_decode d1 d2 d3 bs = rbind (item_count bs) (\<lambda>n.
     if n \<noteq> 3 then Error (RlpIncorrectListLen 3 n)
     else rbind (val_at d1 bs 0) (\<lambda>x. rbind (val_at d2 bs 1) (\<lambda>y. rbind (val_at d3 bs 2) (\<lambda>z. Ok (x, y, z)))))"

text \<open>The encoders of the same types, as items.\<close>

definition bool_item :: "bool \<Rightarrow> rlp_item" where
  "bool_item b = RData [if b then 1 else 0]"

definition u8_item :: "u8 \<Rightarrow> rlp_item" where
  "u8_item b = RData (if b \<noteq> 0 then [b] else [])"

definition uint_item :: "'a::len word \<Rightarrow> rlp_item" where
  "uint_item w = RData (minimal_bytes w)"

definition hash_item :: "'a::len word \<Rightarrow> rlp_item" where
  "hash_item h = RData (be_bytes h)"

definition option_item :: "('a \<Rightarrow> rlp_item) \<Rightarrow> 'a option \<Rightarrow> rlp_item" where
  "option_item f x = (case x of None \<Rightarrow> RList [] | Some v \<Rightarrow> RList [f v])"

section \<open>The cache changes nothing\<close>

lemma consume_items_add:
  "consume_items bs (m + n) = rbind (consume_items bs m) (\<lambda>rest. consume_items rest n)"
  by (induction m arbitrary: bs) (simp_all add: rbind_assoc)

lemma consume_items_SucE:
  assumes "consume_items bs (Suc n) = Ok rest"
  obtains i rest' where "payload_info bs = Ok i" "consume bs (header_len i + value_len i) = Ok rest'"
    "consume_items rest' n = Ok rest"
  using assms by (auto simp: rbind_eq_Ok_iff)

lemma consume_items_suffix: "consume_items bs n = Ok rest \<Longrightarrow> \<exists>k\<le>length bs. rest = drop k bs"
proof (induction n arbitrary: bs)
  case (Suc n)
  from Suc.prems obtain i :: header_info and rest' where i: "consume bs (header_len i + value_len i) = Ok rest'"
    "consume_items rest' n = Ok rest" by (rule consume_items_SucE)
  from Suc.IH [OF i(2)] obtain k where "k \<le> length rest'" "rest = drop k rest'" by auto
  with i(1) show ?case
    by (intro exI [of _ "k + (header_len i + value_len i)"]) (auto simp: consume_def add.commute split: if_splits)
qed auto

definition item_start :: "bytes \<Rightarrow> nat \<Rightarrow> (rlp_error, bytes) result" where
  "item_start bs index = rbind (consume_list_payload bs) (\<lambda>rest. consume_items rest index)"

lemma item_start_suffix: "item_start bs n = Ok rest \<Longrightarrow> \<exists>k\<le>length bs. rest = drop k bs"
proof -
  assume "item_start bs n = Ok rest"
  then obtain r h where r: "r = drop h bs" "h \<le> length bs" and items: "consume_items r n = Ok rest"
    by (auto simp: item_start_def consume_list_payload_def consume_def rbind_eq_Ok_iff split: if_splits)
  from consume_items_suffix [OF items] obtain k where "k \<le> length r" "rest = drop k r" by auto
  with r show ?thesis by (intro exI [of _ "k + h"]) auto
qed

text \<open>A cache is good when its offset is where the item of its index starts.\<close>

definition good_cache :: "bytes \<Rightarrow> nat \<times> nat \<Rightarrow> bool" where
  "good_cache bs cache \<longleftrightarrow> cache = new_cache \<or>
     snd cache \<le> length bs \<and> item_start bs (fst cache) = Ok (drop (snd cache) bs)"

lemma at_cached_start:
  assumes "good_cache bs cache" "index < 2 ^ 64 - 1"
  shows "(if fst cache \<le> index
          then rbind (consume bs (snd cache)) (\<lambda>rest. consume_items rest (index - fst cache))
          else item_start bs index) = item_start bs index"
  using assms(1)
proof (cases "fst cache \<le> index")
  case True
  with assms have "snd cache \<le> length bs" and start: "item_start bs (fst cache) = Ok (drop (snd cache) bs)"
    by (auto simp: good_cache_def new_cache_def)
  moreover from start have "item_start bs (fst cache + (index - fst cache)) =
      consume_items (drop (snd cache) bs) (index - fst cache)"
    by (auto simp: item_start_def consume_items_add rbind_eq_Ok_iff)
  ultimately show ?thesis using True by (simp add: consume_def)
qed simp

lemma at_cached_correct:
  assumes "good_cache bs cache" "index < 2 ^ 64 - 1"
  shows "fst (at_cached bs index cache) = rlp_at bs index" "good_cache bs (snd (at_cached bs index cache))"
proof -
  have cached: "at_cached bs index cache =
     (if \<not> is_list bs then (Error RlpExpectedToBeList, cache)
      else case payload_info bs of
        Inl e \<Rightarrow> (Inl e, cache)
      | Inr info \<Rightarrow>
          (case item_start bs index of
             Inl e \<Rightarrow> (Inl e, cache)
           | Inr rest \<Rightarrow>
               let new_offset = length bs - length rest in
               if header_len info + value_len info - 1 < new_offset
               then (Error (RlpIsTooShort new_offset (header_len info + value_len info - 1)), cache)
               else (item_at_rest bs info rest, (index, new_offset))))"
    unfolding at_cached_def item_start_def [symmetric] at_cached_start [OF assms] ..
  show "fst (at_cached bs index cache) = rlp_at bs index"
    by (cases "payload_info bs"; cases "item_start bs index")
      (auto simp: cached rlp_at_def item_at_rest_def Let_def simp flip: item_start_def rbind_assoc)
  have "good_cache bs (index, length bs - length rest)" if "item_start bs index = Ok rest" for rest
    using item_start_suffix [OF that] that by (auto simp: good_cache_def)
  with assms(1) show "good_cache bs (snd (at_cached bs index cache))"
    by (auto simp: cached Let_def split: sum.splits)
qed

end
