(* ===== verification/Rlp_Codec.thy ===== *)
theory Rlp_Codec
  imports Rlp_In
begin

text \<open>
  Round trips of RLP: what the stream writes for an item, the decoder reads back. The locale
  \<open>rlp_codec\<close> is the contract between the \<open>Encodable\<close> and the \<open>Decodable\<close> instance of a type; lists,
  options and triples of such types keep it, and every instance of \<open>util/rlp/src/impls.rs\<close> has it. The length
  of an item has to fit the 32 bits that the stream keeps of it.
\<close>

section \<open>Lengths\<close>

fun be_val :: "bytes \<Rightarrow> nat" where
  "be_val [] = 0"
| "be_val (b # bs) = unat b * 2 ^ (length bs * 8) + be_val bs"

lemma be_sum_val: "be_sum bs = (of_nat (be_val bs) :: 'a::len word)"
  by (induction bs) (simp_all add: push_bit_eq_mult mult.commute)

lemma be_val_bound: "be_val bs < 2 ^ (length bs * 8)"
proof (induction bs)
  case (Cons b bs)
  have "unat b < 2 ^ 8" using unsigned_less [of b, where 'a = nat] by simp
  then have "unat b + 1 \<le> 2 ^ 8" by linarith
  then have "(unat b + 1) * 2 ^ (length bs * 8) \<le> 2 ^ 8 * 2 ^ (length bs * 8)" by (rule mult_le_mono1)
  with Cons.IH have "be_val (b # bs) < 2 ^ 8 * 2 ^ (length bs * 8)" by (simp only: be_val.simps distrib_right mult_1)
  then show ?case by (simp add: power_add)
qed simp

lemma unat_be_sum:
  assumes "length bs * 8 \<le> LENGTH('a)"
  shows "unat (be_sum bs :: 'a::len word) = be_val bs"
proof -
  have "be_val bs < 2 ^ LENGTH('a)"
    by (rule less_le_trans [OF be_val_bound power_increasing]) (use assms in simp_all)
  then show ?thesis by (simp add: be_sum_val unat_of_nat)
qed

lemma size_bytes:
  fixes n :: nat
  assumes "n < 2 ^ 32" "0 < n"
  defines "l \<equiv> minimal_bytes (of_nat n :: u32)"
  shows "0 < length l" "length l \<le> 4" "l ! 0 \<noteq> 0" "decode_usize l = Ok n"
proof -
  have n: "unat (of_nat n :: u32) = n" using assms(1) by (simp add: unat_of_nat take_bit_nat_eq_self)
  have len: "length l \<le> 4" using minimal_bytes_length [of "of_nat n :: u32"] by (simp add: l_def)
  then show "length l \<le> 4" .
  have "(of_nat n :: u32) \<noteq> 0" using n assms(2) by auto
  then have "l \<noteq> []" using minimal_bytes_Nil [of "of_nat n :: u32"] by (auto simp: l_def)
  then obtain b bs where l: "l = b # bs" by (cases l) auto
  then show "0 < length l" by simp
  have b: "b \<noteq> 0" using minimal_bytes_head [of "of_nat n :: u32" b bs] l by (simp add: l_def)
  with l show "l ! 0 \<noteq> 0" by simp
  have "be_val l = n"
    using unat_be_sum [of l, where 'a = 32] len be_sum_minimal [of "of_nat n :: u32"] n by (simp add: l_def)
  then show "decode_usize l = Ok n"
    using unat_be_sum [of l, where 'a = 64] len l b by (simp add: decode_usize_def del: be_sum.simps be_val.simps)
qed

section \<open>Headers\<close>

lemma unat_header: "unat (base :: u8) + k < 256 \<Longrightarrow> unat (base + of_nat k) = unat base + k"
  by (simp add: unat_word_ariths unat_of_nat take_bit_nat_eq_self)

lemma header_payload_short:
  assumes "base = 0x80 \<or> base = 0xc0" "n \<le> 55" "n \<le> length rest"
  shows "payload_info (rlp_header base n @ rest) = Ok (payload_info_new 1 n)"
  using assms unat_header [of base n]
  by (auto simp: payload_info_def payload_info_from_def rlp_header_def word_le_nat_alt payload_info_new_def)

lemma header_payload_long:
  assumes "base = 0x80 \<or> base = 0xc0" "55 < n" "n < 2 ^ 32" "n \<le> length rest"
  shows "payload_info (rlp_header base n @ rest) = Ok (payload_info_new (length (rlp_header base n)) n)"
proof -
  define l where "l = minimal_bytes (of_nat n :: u32)"
  note l = size_bytes [OF assms(3), folded l_def]
  define b where "b = base + 55 + of_nat (length l)"
  have header: "rlp_header base n = b # l"
    using assms(2) by (simp add: rlp_header_def l_def b_def Let_def)
  have "unat (base + of_nat (55 + length l)) = unat base + (55 + length l)"
    using l(2) assms(1,2) by (intro unat_header) auto
  then have first: "unat b = unat base + 55 + length l"
    by (simp add: b_def add.assoc)
  have "calculate_payload_info (b # l @ rest) (length l) = Ok (payload_info_new (1 + length l) n)"
    using l assms(2) by (simp add: calculate_payload_info_def nth_append)
  then have "payload_info_from (b # l @ rest) = Ok (payload_info_new (1 + length l) n)"
    using l(1,2) assms(1,2) by (elim disjE) (simp_all add: payload_info_from_def word_le_nat_alt first)
  then show ?thesis
    using l(2) assms(2,3,4) by (simp add: payload_info_def header payload_info_new_def)
qed

lemma header_payload:
  assumes "base = 0x80 \<or> base = 0xc0" "n < 2 ^ 32" "n \<le> length rest"
  shows "payload_info (rlp_header base n @ rest) = Ok (payload_info_new (length (rlp_header base n)) n)"
proof (cases "n \<le> 55")
  case True
  then have "length (rlp_header base n) = 1" by (simp add: rlp_header_def)
  then show ?thesis using header_payload_short [OF assms(1) True assms(3)] by simp
next
  case False
  then show ?thesis using header_payload_long [OF assms(1) _ assms(2,3)] by simp
qed

lemma header_first:
  assumes "base = 0x80 \<or> base = 0xc0" "n < 2 ^ 32"
  shows "rlp_header base n \<noteq> [] \<and> unat base \<le> unat (hd (rlp_header base n)) \<and> unat (hd (rlp_header base n)) \<le> unat base + 59"
proof (cases "n \<le> 55")
  case True
  with assms unat_header [of base n] show ?thesis by (auto simp: rlp_header_def)
next
  case False
  let ?k = "length (minimal_bytes (of_nat n :: u32))"
  have "?k \<le> 4" using size_bytes(2) [OF assms(2)] False by simp
  with assms have "unat (base + of_nat (55 + ?k)) = unat base + (55 + ?k)" by (intro unat_header) auto
  with \<open>?k \<le> 4\<close> False show ?thesis by (simp add: rlp_header_def Let_def add.assoc)
qed

section \<open>Items\<close>

lemma item_payload:
  assumes "length (rlp_bytes t) < 2 ^ 32"
  shows "\<exists>i. payload_info (rlp_bytes t @ rest) = Ok i \<and> header_len i + value_len i = length (rlp_bytes t)"
proof (cases t)
  case (RData bs)
  show ?thesis
  proof (cases "length bs = 1 \<and> hd bs < 0x80")
    case True
    then obtain b where "bs = [b]" "b < 0x80" by (cases bs) auto
    then show ?thesis
      by (simp add: RData payload_info_def payload_info_from_def payload_info_new_def word_le_nat_alt word_less_nat_alt)
  next
    case False
    then show ?thesis
      using assms header_payload [of "0x80" "length bs" "bs @ rest"] by (auto simp: RData payload_info_new_def)
  qed
next
  case (RList ts)
  let ?p = "concat (map rlp_bytes ts)"
  show ?thesis
    using assms header_payload [of "0xc0" "length ?p" "?p @ rest"] by (auto simp: RList payload_info_new_def Let_def)
qed

lemma decode_value_short:
  assumes "length bs \<le> 55" "\<not> (length bs = 1 \<and> hd bs < 0x80)"
  shows "decode_value f (rlp_bytes (RData bs)) = f bs"
proof -
  define l :: u8 where "l = 0x80 + of_nat (length bs)"
  have "unat l = 128 + length bs" using unat_header [of "0x80" "length bs"] assms(1) by (simp add: l_def)
  moreover from this have "l = 0x81 \<longleftrightarrow> length bs = 1" by (auto simp: word_unat_eq_iff)
  moreover have "rlp_bytes (RData bs) = l # bs" using assms by (simp add: rlp_header_def l_def)
  ultimately show ?thesis
    using assms by (cases bs) (auto simp: decode_value_def word_le_nat_alt)
qed

lemma decode_value_long:
  assumes "55 < length bs" "length bs < 2 ^ 32"
  shows "decode_value f (rlp_bytes (RData bs)) = f bs"
proof -
  define l where "l = minimal_bytes (of_nat (length bs) :: u32)"
  have "0 < length bs" using assms(1) by linarith
  note l = size_bytes [OF assms(2) this, folded l_def]
  define b :: u8 where "b = 0x80 + of_nat (55 + length l)"
  have "unat b = 128 + (55 + length l)" unfolding b_def using l(2) assms(1) by (subst unat_header) auto
  moreover have "rlp_bytes (RData bs) = b # l @ bs"
    using assms(1) by (auto simp: rlp_header_def l_def b_def Let_def add.assoc)
  ultimately show ?thesis
    using l assms by (simp add: decode_value_def word_le_nat_alt)
qed

lemma decode_value_item:
  assumes "length (rlp_bytes (RData bs)) < 2 ^ 32"
  shows "decode_value f (rlp_bytes (RData bs)) = f bs"
proof (cases "length bs = 1 \<and> hd bs < 0x80")
  case True
  then obtain b where "bs = [b]" "b < 0x80" by (cases bs) auto
  then show ?thesis by (simp add: decode_value_def word_le_nat_alt word_less_nat_alt)
next
  case False
  then have "length bs < 2 ^ 32" using assms by auto
  then show ?thesis
    using decode_value_short [OF _ False] decode_value_long [of bs] by (cases "length bs \<le> 55") auto
qed

section \<open>Lists of items\<close>

lemma concat_bytes_bound: "t \<in> set ts \<Longrightarrow> length (rlp_bytes t) \<le> length (concat (map rlp_bytes ts))"
  by (induction ts) auto

lemma consume_items_list:
  assumes "length (concat (map rlp_bytes ts)) < 2 ^ 32" "n \<le> length ts"
  shows "consume_items (concat (map rlp_bytes ts) @ rest) n = Ok (concat (map rlp_bytes (drop n ts)) @ rest)"
  using assms
proof (induction n arbitrary: ts)
  case (Suc n)
  then obtain t ts' where ts: "ts = t # ts'" by (cases ts) auto
  with Suc.prems have "length (rlp_bytes t) < 2 ^ 32" by simp
  from item_payload [OF this, of "concat (map rlp_bytes ts') @ rest"] show ?case
    using Suc.IH [of ts'] Suc.prems by (auto simp: ts consume_def simp del: rlp_bytes.simps)
qed simp

lemma list_bytes:
  assumes "length (rlp_bytes (RList ts)) < 2 ^ 32"
  defines "p \<equiv> concat (map rlp_bytes ts)"
  shows "is_list (rlp_bytes (RList ts))" "length p < 2 ^ 32"
    "rlp_bytes (RList ts) = rlp_header 0xc0 (length p) @ p"
    "payload_info (rlp_bytes (RList ts)) = Ok (payload_info_new (length (rlp_header 0xc0 (length p))) (length p))"
    "consume_list_payload (rlp_bytes (RList ts)) = Ok p"
proof -
  show bytes: "rlp_bytes (RList ts) = rlp_header 0xc0 (length p) @ p" by (simp add: p_def Let_def)
  with assms(1) show p: "length p < 2 ^ 32" by simp
  show "is_list (rlp_bytes (RList ts))"
    using header_first [of "0xc0" "length p"] p by (simp only: bytes) (simp add: is_list_def is_null_def word_le_nat_alt)
  show info: "payload_info (rlp_bytes (RList ts)) = Ok (payload_info_new (length (rlp_header 0xc0 (length p))) (length p))"
    using header_payload [of "0xc0" "length p" p] p by (simp only: bytes) simp
  then show "consume_list_payload (rlp_bytes (RList ts)) = Ok p"
    by (simp only: consume_list_payload_def) (simp add: consume_def payload_info_new_def bytes del: rlp_bytes.simps)
qed

lemma rlp_at_start:
  assumes "length (rlp_bytes (RList ts)) < 2 ^ 32" "i \<le> length ts"
  defines "bs \<equiv> rlp_bytes (RList ts)"
  shows "rlp_at bs i = (let rest = concat (map rlp_bytes (drop i ts)) in
     if rest = [] then Error (RlpIsTooShort (length bs) (length bs - 1))
     else rbind (payload_info rest) (\<lambda>found. Ok (take (header_len found + value_len found) rest)))"
proof -
  note l = list_bytes [OF assms(1), folded bs_def]
  obtain info :: header_info where info: "payload_info bs = Ok info" "header_len info + value_len info = length bs"
    using l(3,4) by (simp add: payload_info_new_def)
  have "bs \<noteq> []" using l(1) by (auto simp: is_list_def is_null_def)
  moreover have "length (concat (map rlp_bytes (drop i ts))) \<le> length bs"
    using l(3) by (simp only: length_append) (metis append_take_drop_id concat_append length_append map_append le_add2 trans_le_add2)
  ultimately have "length bs - 1 < length bs - length (concat (map rlp_bytes (drop i ts))) \<longleftrightarrow> concat (map rlp_bytes (drop i ts)) = []"
    by (cases "concat (map rlp_bytes (drop i ts))"; cases bs) (auto simp del: concat_eq_Nil_conv)
  then show ?thesis
    using consume_items_list [OF l(2) assms(2), of "[]"] l(1,5) info
    by (auto simp: rlp_at_def item_at_rest_def Let_def simp del: concat_eq_Nil_conv)
qed

lemma rlp_at_item:
  assumes "length (rlp_bytes (RList ts)) < 2 ^ 32"
  shows "i < length ts \<Longrightarrow> rlp_at (rlp_bytes (RList ts)) i = Ok (rlp_bytes (ts ! i))"
    and "\<exists>e. rlp_at (rlp_bytes (RList ts)) (length ts) = Inl e"
proof -
  show "\<exists>e. rlp_at (rlp_bytes (RList ts)) (length ts) = Inl e"
    by (simp add: rlp_at_start [OF assms] del: rlp_bytes.simps)
  assume i: "i < length ts"
  let ?rest = "concat (map rlp_bytes (drop (Suc i) ts))"
  have drop: "concat (map rlp_bytes (drop i ts)) = rlp_bytes (ts ! i) @ ?rest"
    using i by (simp flip: Cons_nth_drop_Suc del: rlp_bytes.simps)
  have "length (rlp_bytes (ts ! i)) < 2 ^ 32"
    using concat_bytes_bound [of "ts ! i" ts] i list_bytes(2) [OF assms] by simp
  from item_payload [OF this, of ?rest] obtain info :: header_info where
    info: "payload_info (rlp_bytes (ts ! i) @ ?rest) = Ok info" "header_len info + value_len info = length (rlp_bytes (ts ! i))"
    by auto
  with payload_total_pos [OF info(1)] have "rlp_bytes (ts ! i) \<noteq> []" by auto
  with info i show "rlp_at (rlp_bytes (RList ts)) i = Ok (rlp_bytes (ts ! i))"
    unfolding rlp_at_start [OF assms less_imp_le [OF i]] drop Let_def by (simp del: rlp_bytes.simps)
qed

lemma iter_from_items:
  assumes "length (rlp_bytes (RList ts)) < 2 ^ 32" "i \<le> length ts"
  shows "iter_from (rlp_bytes (RList ts)) i = map rlp_bytes (drop i ts)"
  using assms(2)
proof (induction "length ts - i" arbitrary: i)
  case 0
  then show ?case using rlp_at_item(2) [OF assms(1)] by (auto simp: iter_from.simps [of _ "length ts"] simp del: rlp_bytes.simps)
next
  case (Suc k)
  then have "i < length ts" "iter_from (rlp_bytes (RList ts)) (Suc i) = map rlp_bytes (drop (Suc i) ts)" by simp_all
  then show ?case
    using rlp_at_item(1) [OF assms(1)]
    by (subst iter_from.simps) (simp del: rlp_bytes.simps flip: Cons_nth_drop_Suc)
qed

lemma rlp_iter_items:
  assumes "length (rlp_bytes (RList ts)) < 2 ^ 32"
  shows "rlp_iter (rlp_bytes (RList ts)) = map rlp_bytes ts" "item_count (rlp_bytes (RList ts)) = Ok (length ts)"
  using iter_from_items [OF assms, of 0] list_bytes(1) [OF assms]
  by (simp_all add: rlp_iter_def item_count_def del: rlp_bytes.simps)

text \<open>
  C32: the decoder reads back what the stream writes. For every item whose encoding fits 32 bits, the
  encoding is read as the same item: the content of a string reaches the decoding function as it was
  appended, and a list has as many items as were appended, each of them found at its index and by the iterator
  with the bytes that its own encoding has.
\<close>

theorem rlp_roundtrip:
  assumes "length (rlp_bytes t) < 2 ^ 32"
  shows "case t of
      RData d \<Rightarrow> \<not> is_list (rlp_bytes t) \<and> decode_value f (rlp_bytes t) = f d
    | RList ts \<Rightarrow> is_list (rlp_bytes t) \<and> item_count (rlp_bytes t) = Ok (length ts) \<and>
        rlp_iter (rlp_bytes t) = map rlp_bytes ts \<and>
        (\<forall>i < length ts. rlp_at (rlp_bytes t) i = Ok (rlp_bytes (ts ! i)))"
proof (cases t)
  case (RData d)
  have "\<not> is_list (rlp_bytes (RData d))"
  proof (cases "length d = 1 \<and> hd d < 0x80")
    case True
    then show ?thesis by (auto simp: is_list_def word_le_nat_alt word_less_nat_alt)
  next
    case False
    then show ?thesis
      using header_first [of "0x80" "length d"] assms by (auto simp: RData is_list_def word_le_nat_alt)
  qed
  with decode_value_item [of d f] assms show ?thesis by (simp add: RData del: rlp_bytes.simps)
next
  case (RList ts)
  with assms show ?thesis
    using list_bytes(1) rlp_iter_items rlp_at_item(1) by (simp del: rlp_bytes.simps)
qed

theorem rlp_roundtrip_witness:
  defines "t \<equiv> RList [RData [1, 0x80], RList [], RData (replicate 60 7)]"
  shows "rlp_at (rlp_bytes t) 2 = Ok ([0xb8, 60] @ replicate 60 7)"
proof -
  have bytes: "rlp_bytes t = [0xf8, 66, 0x82, 1, 0x80, 0xc0, 0xb8, 60] @ replicate 60 7"
    "rlp_bytes (RData (replicate 60 7)) = [0xb8, 60] @ replicate 60 7" unfolding t_def by code_simp+
  have "length (rlp_bytes t) < 2 ^ 32" by (simp add: bytes(1))
  from rlp_roundtrip [OF this] show ?thesis by (simp add: t_def bytes(2) del: rlp_bytes.simps)
qed

section \<open>Types\<close>

text \<open>The contract of the two instances of a type.\<close>

locale rlp_codec =
  fixes item :: "'a \<Rightarrow> rlp_item" and decode :: "'a decoder" and fine :: "'a \<Rightarrow> bool"
  assumes decode_item: "fine x \<Longrightarrow> length (rlp_bytes (item x)) < 2 ^ 32 \<Longrightarrow> decode (rlp_bytes (item x)) = Ok x"
begin

lemma decode_each_items:
  assumes "\<forall>x \<in> set xs. fine x" "length (concat (map (rlp_bytes \<circ> item) xs)) < 2 ^ 32"
  shows "decode_each decode (map rlp_bytes (map item xs)) = Ok xs"
  using assms by (induction xs) (simp_all add: decode_item)

lemma list_item:
  assumes "\<forall>x \<in> set xs. fine x" "length (rlp_bytes (RList (map item xs))) < 2 ^ 32"
  shows "as_list decode (rlp_bytes (RList (map item xs))) = Ok xs"
  using decode_each_items [OF assms(1)] rlp_iter_items(1) [OF assms(2)] list_bytes(2) [OF assms(2)]
  by (simp add: as_list_def comp_def del: rlp_bytes.simps)

lemma val_at_item:
  assumes "length (rlp_bytes (RList ts)) < 2 ^ 32" "i < length ts" "ts ! i = item x" "fine x"
  shows "val_at decode (rlp_bytes (RList ts)) i = Ok x"
  using rlp_at_item(1) [OF assms(1,2)] concat_bytes_bound [of "ts ! i" ts] list_bytes(2) [OF assms(1)]
    nth_mem [OF assms(2)] assms(3,4)
  by (simp add: val_at_def decode_item del: rlp_bytes.simps)

lemma option_value:
  assumes "case x of None \<Rightarrow> True | Some v \<Rightarrow> fine v" "length (rlp_bytes (option_item item x)) < 2 ^ 32"
  shows "option_decode decode (rlp_bytes (option_item item x)) = Ok x"
  using assms rlp_iter_items(2) val_at_item [of _ 0]
  by (cases x) (simp_all add: option_decode_def option_item_def del: rlp_bytes.simps)

end

definition triple_item :: "('a \<Rightarrow> rlp_item) \<Rightarrow> ('b \<Rightarrow> rlp_item) \<Rightarrow> ('c \<Rightarrow> rlp_item) \<Rightarrow> 'a \<times> 'b \<times> 'c \<Rightarrow> rlp_item" where
  "triple_item i1 i2 i3 = (\<lambda>(x, y, z). RList [i1 x, i2 y, i3 z])"

lemma triple_codec:
  assumes "rlp_codec i1 d1 f1" "rlp_codec i2 d2 f2" "rlp_codec i3 d3 f3"
  shows "rlp_codec (triple_item i1 i2 i3) (triple_decode d1 d2 d3) (\<lambda>(x, y, z). f1 x \<and> f2 y \<and> f3 z)"
  by unfold_locales
    (auto simp: triple_item_def triple_decode_def rlp_iter_items rlp_codec.val_at_item [OF assms(1)]
      rlp_codec.val_at_item [OF assms(2)] rlp_codec.val_at_item [OF assms(3)] simp del: rlp_bytes.simps)

lemma option_codec: "rlp_codec i d f \<Longrightarrow> rlp_codec (option_item i) (option_decode d) (case_option True f)"
  by unfold_locales (auto intro: rlp_codec.option_value)

lemma list_codec: "rlp_codec i d f \<Longrightarrow> rlp_codec (\<lambda>xs. RList (map i xs)) (as_list d) (list_all f)"
  by unfold_locales (auto intro: rlp_codec.list_item simp: list_all_iff simp del: rlp_bytes.simps)

text \<open>The instances of \<open>impls.rs\<close>.\<close>

interpretation bool_rlp: rlp_codec bool_item bool_decode "\<lambda>_. True"
  by unfold_locales (simp add: bool_item_def bool_decode_def decode_value_item del: rlp_bytes.simps)

interpretation bytes_rlp: rlp_codec RData bytes_decode "\<lambda>_. True"
  by unfold_locales (simp add: bytes_decode_def decode_value_item del: rlp_bytes.simps)

interpretation u8_rlp: rlp_codec u8_item u8_decode "\<lambda>_. True"
  by unfold_locales (simp add: u8_item_def u8_decode_def decode_value_item del: rlp_bytes.simps)

interpretation uint_rlp: rlp_codec "uint_item :: 'a::len word \<Rightarrow> rlp_item" uint_decode "\<lambda>_. 8 dvd LENGTH('a)"
proof
  fix w :: "'a word"
  assume dvd: "8 dvd LENGTH('a)" and len: "length (rlp_bytes (uint_item w)) < 2 ^ 32"
  let ?bs = "minimal_bytes w"
  note sum = be_sum_minimal [OF dvd, of w]
  have small: "u8_decode (rlp_bytes (RData ?bs)) = Ok b" if "?bs = [b]" for b
    using that minimal_bytes_head [OF dvd, of w] len
    by (simp add: u8_decode_def uint_item_def decode_value_item del: rlp_bytes.simps)
  have zero: "u8_decode (rlp_bytes (RData ?bs)) = Ok 0" if "?bs = []"
    using that len by (simp add: u8_decode_def uint_item_def decode_value_item del: rlp_bytes.simps)
  show "uint_decode (rlp_bytes (uint_item w)) = Ok w"
    using len minimal_bytes_length [of w] small zero sum minimal_bytes_head [OF dvd, of w]
    by (cases ?bs rule: remdups_adj.cases)
      (auto simp: uint_decode_def uint_item_def decode_value_item simp del: rlp_bytes.simps)
qed

text \<open>\<open>usize\<close> goes through \<open>u64\<close>.\<close>

definition usize_item :: "nat \<Rightarrow> rlp_item" where
  "usize_item n = uint_item (of_nat n :: u64)"

definition usize_decode :: "nat decoder" where
  "usize_decode bs = rbind (uint_decode bs) (\<lambda>w :: u64. Ok (unat w))"

interpretation usize_rlp: rlp_codec usize_item usize_decode "\<lambda>n. n < 2 ^ 64"
proof
  fix n :: nat
  assume "n < 2 ^ 64" "length (rlp_bytes (usize_item n)) < 2 ^ 32"
  then show "usize_decode (rlp_bytes (usize_item n)) = Ok n"
    using uint_rlp.decode_item [of "of_nat n :: u64"] by (simp add: usize_item_def usize_decode_def unat_of_nat)
qed

interpretation hash_rlp: rlp_codec "hash_item :: 'a::len word \<Rightarrow> rlp_item" hash_decode "\<lambda>_. 8 dvd LENGTH('a)"
  by unfold_locales (simp add: hash_item_def hash_decode_def decode_value_item of_be_bytes_be_bytes del: rlp_bytes.simps)

interpretation U256_rlp: rlp_codec uint_item U256_decode "\<lambda>_. True"
proof
  fix w :: "256 word"
  assume len: "length (rlp_bytes (uint_item w)) < 2 ^ 32"
  then show "U256_decode (rlp_bytes (uint_item w)) = Ok w"
    using minimal_bytes_length [of w] minimal_bytes_head [of w] be_sum_minimal [of w]
    by (cases "minimal_bytes w")
      (auto simp: U256_decode_def uint_item_def decode_value_item simp del: rlp_bytes.simps be_sum.simps simp flip: be_sum_eq)
qed

text \<open>The check of the number of items that many decoders start with.\<close>

definition expect_items :: "nat \<Rightarrow> bytes \<Rightarrow> (rlp_error, unit) result" where
  "expect_items n bs = rbind (item_count bs) (\<lambda>got. if got \<noteq> n then Error (RlpIncorrectListLen n got) else Ok ())"

lemma expect_items_list:
  "length (rlp_bytes (RList ts)) < 2 ^ 32 \<Longrightarrow> length ts = n \<Longrightarrow> expect_items n (rlp_bytes (RList ts)) = Ok ()"
  by (simp add: expect_items_def rlp_iter_items del: rlp_bytes.simps)

lemma nested_bytes: "length (rlp_bytes (RList ts)) < 2 ^ 32 \<Longrightarrow> t \<in> set ts \<Longrightarrow> length (rlp_bytes t) < 2 ^ 32"
  using concat_bytes_bound [of t ts] list_bytes(2) [of ts] by simp

section \<open>Lengths of encodings\<close>

lemma header_length: "length (rlp_header base n) \<le> 5"
  using minimal_bytes_length [of "of_nat n :: u32"] by (simp add: rlp_header_def Let_def)

lemma data_item_length: "length (rlp_bytes (RData bs)) \<le> 5 + length bs"
  using header_length [of "0x80" "length bs"] by simp

lemma list_item_length: "length (rlp_bytes (RList ts)) \<le> 5 + (\<Sum>t\<leftarrow>ts. length (rlp_bytes t))"
  using header_length [of "0xc0" "length (concat (map rlp_bytes ts))"] by (simp add: Let_def length_concat comp_def)

lemma uint_item_length: "length (rlp_bytes (uint_item (w :: 'a::len word))) \<le> 5 + LENGTH('a) div 8"
  using data_item_length [of "minimal_bytes w"] minimal_bytes_length [of w] by (simp add: uint_item_def del: rlp_bytes.simps)

lemma hash_item_length: "length (rlp_bytes (hash_item (w :: 'a::len word))) \<le> 5 + LENGTH('a) div 8"
  using data_item_length [of "be_bytes w"] by (simp add: hash_item_def del: rlp_bytes.simps)

lemma u8_item_length: "length (rlp_bytes (u8_item b)) \<le> 6"
  using data_item_length [of "[b]"] data_item_length [of "[]"] by (simp add: u8_item_def del: rlp_bytes.simps)

text \<open>A long form whose length would fit the short form is accepted as well: the bytes of a value are not
  unique.\<close>

lemma long_form_accepted: "decode_value f [0xb8, 1, 5] = f [5]" "decode_value f [5] = f [5]"
  by (simp_all add: decode_value_def decode_usize_def)

end
