(* ===== verification/Bit_Set.thy ===== *)
theory Bit_Set
  imports Rlp_Codec
begin

text \<open>
  The set of validator indices of a seal (\<open>core/src/consensus/bit_set.rs\<close>): 800 bits in an array of
  100 bytes. Indexing past the array panics. The iterator over the indices is a loop that skips the
  bits that are not set; it is shown to end and to give the indices in ascending order.
\<close>

unbundle bit_operations_syntax

type_synonym bit_set = "u8 list"

definition MAX_VALIDATOR_SIZE :: nat where
  "MAX_VALIDATOR_SIZE = 800"

definition BITSET_SIZE :: nat where
  "BITSET_SIZE = MAX_VALIDATOR_SIZE div 8"

definition bs_new :: bit_set where
  "bs_new = replicate BITSET_SIZE 0"

definition all_set :: bit_set where
  "all_set = replicate BITSET_SIZE (- 1)"

definition bs_is_empty :: "bit_set \<Rightarrow> bool" where
  "bs_is_empty bs \<longleftrightarrow> bs = bs_new"

text \<open>\<open>self.0[array_index] & (1 << bit_index) != 0\<close>, and with the bounds check of the array.\<close>

definition bit_at :: "bit_set \<Rightarrow> nat \<Rightarrow> bool" where
  "bit_at bs index \<longleftrightarrow> bs ! (index div 8) AND push_bit (index mod 8) 1 \<noteq> 0"

definition in_array :: "nat \<Rightarrow> bit_set \<Rightarrow> ('e, unit) result" where
  "in_array index bs = rassert ''index out of bounds'' (index div 8 < length bs)"

definition is_set :: "nat \<Rightarrow> bit_set \<Rightarrow> ('e, bool) result" where
  "is_set index bs = rbind (in_array index bs) (\<lambda>_. Ok (bit_at bs index))"

definition bs_set :: "nat \<Rightarrow> bit_set \<Rightarrow> ('e, bit_set) result" where
  "bs_set index bs = rbind (in_array index bs) (\<lambda>_.
     Ok (bs[index div 8 := bs ! (index div 8) OR push_bit (index mod 8) 1]))"

definition bs_reset :: "nat \<Rightarrow> bit_set \<Rightarrow> ('e, bit_set) result" where
  "bs_reset index bs = rbind (in_array index bs) (\<lambda>_.
     Ok (bs[index div 8 := bs ! (index div 8) AND (255 XOR push_bit (index mod 8) 1)]))"

fun set_all :: "nat list \<Rightarrow> bit_set \<Rightarrow> ('e, bit_set) result" where
  "set_all [] bs = Ok bs"
| "set_all (i # is) bs = rbind (bs_set i bs) (set_all is)"

definition new_with_indices :: "nat list \<Rightarrow> ('e, bit_set) result" where
  "new_with_indices indices = set_all indices bs_new"

text \<open>\<open>u8::count_ones\<close>\<close>

definition count_ones :: "u8 \<Rightarrow> nat" where
  "count_ones v = length (filter (bit v) [0..<8])"

definition bs_count :: "bit_set \<Rightarrow> nat" where
  "bs_count bs = (\<Sum>v\<leftarrow>bs. count_ones v)"

definition bs_sub :: "bit_set \<Rightarrow> bit_set \<Rightarrow> bit_set" where
  "bs_sub lhs rhs = map2 (\<lambda>l r. l AND NOT r) lhs rhs"

text \<open>\<open>BitSetIndexIterator::next\<close>: the found index; the iterator goes on from the next one. The
  index stays below 800, so the array access of \<open>is_set\<close> is in bounds.\<close>

function next_index :: "bit_set \<Rightarrow> nat \<Rightarrow> nat option" where
  "next_index bs index =
     (if MAX_VALIDATOR_SIZE \<le> index then None
      else if bit_at bs index then Some index else next_index bs (index + 1))"
  by pat_completeness auto
termination
  by (relation "measure (\<lambda>(_, i). MAX_VALIDATOR_SIZE - i)") auto

declare next_index.simps [simp del]

lemma next_index_Some:
  "next_index bs index = Some i \<Longrightarrow> index \<le> i \<and> i < MAX_VALIDATOR_SIZE \<and> bit_at bs i \<and> (\<forall>j. index \<le> j \<longrightarrow> j < i \<longrightarrow> \<not> bit_at bs j)"
proof (induction bs index rule: next_index.induct)
  case (1 bs index)
  show ?case
  proof (cases "MAX_VALIDATOR_SIZE \<le> index \<or> bit_at bs index")
    case True
    then show ?thesis using "1.prems" by (auto simp: next_index.simps [of bs index] split: if_splits)
  next
    case False
    then have "next_index bs (index + 1) = Some i" using "1.prems" by (simp add: next_index.simps [of bs index])
    with "1.IH" False have ih: "index + 1 \<le> i" "i < MAX_VALIDATOR_SIZE" "bit_at bs i"
      "\<forall>j. index + 1 \<le> j \<longrightarrow> j < i \<longrightarrow> \<not> bit_at bs j" by auto
    have "\<not> bit_at bs j" if "index \<le> j" "j < i" for j
      using that ih(4) False by (cases "j = index") auto
    with ih show ?thesis by auto
  qed
qed

lemma next_index_None: "next_index bs index = None \<Longrightarrow> index \<le> j \<Longrightarrow> j < MAX_VALIDATOR_SIZE \<Longrightarrow> \<not> bit_at bs j"
proof (induction bs index rule: next_index.induct)
  case (1 bs index)
  then show ?case by (cases "j = index") (auto simp: next_index.simps [of bs index] split: if_splits)
qed

text \<open>The loop over the iterator.\<close>

function indices_from :: "bit_set \<Rightarrow> nat \<Rightarrow> nat list" where
  "indices_from bs index =
     (case next_index bs index of None \<Rightarrow> [] | Some i \<Rightarrow> i # indices_from bs (i + 1))"
  by pat_completeness auto
termination
  by (relation "measure (\<lambda>(_, i). MAX_VALIDATOR_SIZE - i)") (auto dest!: next_index_Some)

declare indices_from.simps [simp del]

definition true_index_iter :: "bit_set \<Rightarrow> nat list" where
  "true_index_iter bs = indices_from bs 0"

lemma indices_from_eq: "indices_from bs index = filter (bit_at bs) [index..<MAX_VALIDATOR_SIZE]"
proof (induction bs index rule: indices_from.induct)
  case (1 bs index)
  show ?case
  proof (cases "next_index bs index")
    case None
    then show ?thesis using next_index_None [OF None] by (simp add: indices_from.simps [of bs index])
  next
    case (Some i)
    from next_index_Some [OF Some] have i: "index \<le> i" "i < MAX_VALIDATOR_SIZE" "bit_at bs i"
      "\<forall>j. index \<le> j \<longrightarrow> j < i \<longrightarrow> \<not> bit_at bs j" by auto
    have "[index..<MAX_VALIDATOR_SIZE] = [index..<i] @ i # [i + 1..<MAX_VALIDATOR_SIZE]"
      using upt_add_eq_append [OF i(1), of "MAX_VALIDATOR_SIZE - i"] upt_conv_Cons [OF i(2)] i(2) by simp
    moreover have "filter (bit_at bs) [index..<i] = []" using i(4) by simp
    ultimately show ?thesis using Some "1.IH" i(3) by (simp add: indices_from.simps [of bs index])
  qed
qed

lemma true_index_iter_eq: "true_index_iter bs = filter (bit_at bs) [0..<800]"
  by (simp add: true_index_iter_def indices_from_eq MAX_VALIDATOR_SIZE_def)

section \<open>The set it stands for\<close>

definition bs_ok :: "bit_set \<Rightarrow> bool" where
  "bs_ok bs \<longleftrightarrow> length bs = BITSET_SIZE"

lemma BITSET_SIZE_eq [simp]: "BITSET_SIZE = 100"
  by (simp add: BITSET_SIZE_def MAX_VALIDATOR_SIZE_def)

lemma array_index: "index < 800 \<Longrightarrow> index div 8 < 100" for index :: nat
  by (rule less_mult_imp_div_less) simp

lemma bit_one_shifted: "bit (push_bit k (1 :: u8)) n \<longleftrightarrow> n = k \<and> k < 8"
  by (auto simp: bit_exp_iff)

lemma bit_at_bit: "bit_at bs index \<longleftrightarrow> bit (bs ! (index div 8)) (index mod 8)"
  unfolding bit_at_def
proof
  assume "bs ! (index div 8) AND push_bit (index mod 8) 1 \<noteq> 0"
  then obtain n where "bit (bs ! (index div 8) AND push_bit (index mod 8) 1) n" by (auto simp: bit_eq_iff)
  then show "bit (bs ! (index div 8)) (index mod 8)"
    by (auto simp: bit_and_iff bit_one_shifted simp del: push_bit_of_1)
next
  assume "bit (bs ! (index div 8)) (index mod 8)"
  then have "bit (bs ! (index div 8) AND push_bit (index mod 8) 1) (index mod 8)"
    by (auto simp: bit_and_iff bit_one_shifted simp del: push_bit_of_1)
  then show "bs ! (index div 8) AND push_bit (index mod 8) 1 \<noteq> 0" by (metis bit_0_eq bot_apply bot_bool_def)
qed

lemma bs_set_Ok:
  assumes "bs_ok bs" "index < 800"
  obtains bs' where "bs_set index bs = Ok bs'" "bs_ok bs'" "\<forall>j<800. bit_at bs' j \<longleftrightarrow> j = index \<or> bit_at bs j"
proof -
  let ?bs = "bs[index div 8 := bs ! (index div 8) OR push_bit (index mod 8) 1]"
  have "bit_at ?bs j \<longleftrightarrow> j = index \<or> bit_at bs j" if "j < 800" for j
  proof (cases "j div 8 = index div 8")
    case True
    then have "j = index \<longleftrightarrow> j mod 8 = index mod 8" by (metis div_mult_mod_eq)
    moreover have "j mod 8 < 8" by simp
    ultimately show ?thesis using True assms that
      by (auto simp: bit_at_bit bs_ok_def nth_list_update bit_or_iff bit_one_shifted array_index simp del: push_bit_of_1)
  next
    case False
    then show ?thesis by (auto simp: bit_at_bit nth_list_update)
  qed
  with assms show ?thesis by (intro that [of ?bs]) (simp_all add: bs_set_def in_array_def bs_ok_def array_index)
qed

lemma is_set_run: "bs_ok bs \<Longrightarrow> index < 800 \<Longrightarrow> is_set index bs = Ok (bit_at bs index)"
  by (simp add: is_set_def in_array_def bs_ok_def array_index)

lemma bs_new_ok [simp]: "bs_ok bs_new" "j < 800 \<Longrightarrow> \<not> bit_at bs_new j"
  by (simp_all add: bs_ok_def bs_new_def bit_at_def array_index)

lemma count_blocks: "length (filter (bit_at bs) [0..<8 * length bs]) = bs_count bs"
proof (induction bs rule: rev_induct)
  case (snoc v bs)
  let ?n = "8 * length bs"
  have "filter (bit_at (bs @ [v])) [0..<?n] = filter (bit_at bs) [0..<?n]"
    by (rule filter_cong) (auto simp: bit_at_def nth_append less_mult_imp_div_less mult.commute)
  moreover have "length (filter (bit_at (bs @ [v])) [?n..<?n + 8]) = count_ones v"
  proof -
    have "[?n..<?n + 8] = map (\<lambda>k. k + ?n) [0..<8]" by (simp only: map_add_upt add.commute)
    moreover have "bit_at (bs @ [v]) (k + ?n) \<longleftrightarrow> bit v k" if "k < 8" for k
      using that by (simp add: bit_at_bit nth_append)
    then have "filter (bit_at (bs @ [v]) \<circ> (\<lambda>k. k + ?n)) [0..<8] = filter (bit v) [0..<8]"
      by (intro filter_cong) auto
    ultimately show ?thesis by (simp only: filter_map length_map count_ones_def)
  qed
  moreover have "[0..<8 * length (bs @ [v])] = [0..<?n] @ [?n..<?n + 8]"
    using upt_add_eq_append [of 0 ?n 8] by (simp add: add.commute [of 8])
  ultimately show ?case using snoc.IH by (simp only: filter_append length_append) (simp add: bs_count_def)
qed (simp add: bs_count_def)

section \<open>RLP\<close>

definition bitset_item :: "bit_set \<Rightarrow> rlp_item" where
  "bitset_item bs = RData bs"

definition bitset_decode :: "bit_set decoder" where
  "bitset_decode = decode_value (\<lambda>bs.
     let expected = BITSET_SIZE; got = length bs in
     if expected < got then Error (RlpIsTooBig expected got)
     else if got < expected then Error (RlpIsTooShort expected got)
     else Ok bs)"

interpretation bitset_rlp: rlp_codec bitset_item bitset_decode bs_ok
  by unfold_locales (simp add: bitset_item_def bitset_decode_def decode_value_item bs_ok_def del: rlp_bytes.simps)

lemma bitset_decode_ok: "bitset_decode bytes = Ok bs \<Longrightarrow> bs_ok bs"
  by (auto simp: bitset_decode_def decode_value_def bs_ok_def Let_def rbind_eq_Ok_iff split: list.splits if_splits)

text \<open>
  C33: the iterator over a bit set ends and yields exactly the indices whose bit is set, each once and
  in ascending order; their number is what \<open>count\<close> adds up byte by byte.
\<close>

theorem true_index_iter_exact:
  assumes "length bs = BITSET_SIZE"
  shows "sorted (true_index_iter bs) \<and> distinct (true_index_iter bs) \<and>
    (\<forall>i. i \<in> set (true_index_iter bs) \<longleftrightarrow> i < MAX_VALIDATOR_SIZE \<and> is_set i bs = (Ok True :: (unit, bool) result)) \<and>
    length (true_index_iter bs) = bs_count bs"
  using assms count_blocks [of bs]
  by (auto simp: true_index_iter_eq is_set_run bs_ok_def MAX_VALIDATOR_SIZE_def sorted_wrt_filter)

theorem true_index_iter_exact_witness:
  "sorted (true_index_iter (bs_new[2 := 129])) \<and> bs_count (bs_new[2 := 129]) = length (true_index_iter (bs_new[2 := 129]))"
  using true_index_iter_exact [of "bs_new[2 := 129]"] by (simp add: bs_new_def)

end
