(* ===== verification/Tendermint_Message.thy ===== *)
theory Tendermint_Message
  imports Bit_Set
begin

text \<open>
  The messages of Tendermint (\<open>core/src/consensus/tendermint/message.rs\<close>, \<open>tendermint/types.rs\<close>): the
  steps of a round and their order, votes, and the messages on the wire. The instances that the source derives
  with \<open>RlpEncodable\<close> and \<open>RlpDecodable\<close> are lists of the fields in order, read with \<open>val_at\<close>. The
  compression of proposals is a library: a record of two functions.
\<close>

section \<open>Steps\<close>

datatype tm_step = Propose | Prevote | Precommit | Commit

fun is_pre :: "tm_step \<Rightarrow> bool" where
  "is_pre Prevote \<longleftrightarrow> True"
| "is_pre Precommit \<longleftrightarrow> True"
| "is_pre Propose \<longleftrightarrow> False"
| "is_pre Commit \<longleftrightarrow> False"

fun step_number :: "tm_step \<Rightarrow> u8" where
  "step_number Propose = 0"
| "step_number Prevote = 1"
| "step_number Precommit = 2"
| "step_number Commit = 3"

definition step_item :: "tm_step \<Rightarrow> rlp_item" where
  "step_item s = u8_item (step_number s)"

definition step_decode :: "tm_step decoder" where
  "step_decode bs = rbind (u8_decode bs) (\<lambda>n.
     if n = 0 then Ok Propose else if n = 1 then Ok Prevote else if n = 2 then Ok Precommit
     else if n = 3 then Ok Commit else Error (RlpCustom ''Invalid step.''))"

datatype 'block tendermint_state =
    StPropose
  | ProposeWaitBlockGeneration h256
  | ProposeWaitImported 'block
  | ProposeWaitEmptyBlockTimer 'block
  | StPrevote
  | StPrecommit
  | StCommit
  | CommitTimedout

fun to_step :: "'block tendermint_state \<Rightarrow> tm_step" where
  "to_step StPropose = Propose"
| "to_step (ProposeWaitBlockGeneration _) = Propose"
| "to_step (ProposeWaitImported _) = Propose"
| "to_step (ProposeWaitEmptyBlockTimer _) = Propose"
| "to_step StPrevote = Prevote"
| "to_step StPrecommit = Precommit"
| "to_step StCommit = Commit"
| "to_step CommitTimedout = Commit"

fun is_commit :: "'block tendermint_state \<Rightarrow> bool" where
  "is_commit StCommit \<longleftrightarrow> True"
| "is_commit CommitTimedout \<longleftrightarrow> True"
| "is_commit _ \<longleftrightarrow> False"

fun is_commit_timedout :: "'block tendermint_state \<Rightarrow> bool" where
  "is_commit_timedout CommitTimedout \<longleftrightarrow> True"
| "is_commit_timedout _ \<longleftrightarrow> False"

fun state_of_step :: "tm_step \<Rightarrow> 'block tendermint_state" where
  "state_of_step Propose = StPropose"
| "state_of_step Prevote = StPrevote"
| "state_of_step Precommit = StPrecommit"
| "state_of_step Commit = StCommit"

lemma to_step_of_step [simp]: "to_step (state_of_step s) = s"
  by (cases s) simp_all

section \<open>Rounds and their order\<close>

datatype vote_step = VoteStep (vs_height: u64) (vs_view: u64) (vs_step: tm_step)

fun is_step :: "vote_step \<Rightarrow> u64 \<Rightarrow> u64 \<Rightarrow> tm_step \<Rightarrow> bool" where
  "is_step (VoteStep h v s) height view step \<longleftrightarrow> h = height \<and> v = view \<and> s = step"

definition vote_step_default :: vote_step where
  "vote_step_default = VoteStep 0 0 Propose"

instantiation vote_step :: linorder
begin

fun less_vote_step :: "vote_step \<Rightarrow> vote_step \<Rightarrow> bool" where
  "less_vote_step (VoteStep h v s) (VoteStep h' v' s') \<longleftrightarrow>
     (if h \<noteq> h' then h < h' else if v \<noteq> v' then v < v' else step_number s < step_number s')"

definition less_eq_vote_step :: "vote_step \<Rightarrow> vote_step \<Rightarrow> bool" where
  "less_eq_vote_step a b \<longleftrightarrow> a = b \<or> a < b"

lemma step_number_inj: "step_number a = step_number b \<longleftrightarrow> a = b"
  by (cases a; cases b) simp_all

instance
proof
  fix x y z :: vote_step
  show "x < y \<longleftrightarrow> x \<le> y \<and> \<not> y \<le> x"
    by (cases x; cases y) (auto simp: less_eq_vote_step_def split: if_splits)
  show "x \<le> x" by (simp add: less_eq_vote_step_def)
  show "x \<le> y \<Longrightarrow> y \<le> z \<Longrightarrow> x \<le> z"
    by (cases x; cases y; cases z) (auto simp: less_eq_vote_step_def split: if_splits)
  show "x \<le> y \<Longrightarrow> y \<le> x \<Longrightarrow> x = y"
    by (cases x; cases y) (auto simp: less_eq_vote_step_def split: if_splits)
  show "x \<le> y \<or> y \<le> x"
    by (cases x; cases y) (auto simp: less_eq_vote_step_def step_number_inj [symmetric] split: if_splits)
qed

end

lemma vote_step_default_least: "vote_step_default \<le> r"
proof (cases r)
  case (VoteStep h v s)
  then show ?thesis
    by (cases s) (auto simp: vote_step_default_def less_eq_vote_step_def word_gt_0)
qed

section \<open>Votes\<close>

datatype vote_on = VoteOn (vo_step: vote_step) (vo_block_hash: "h256 option")

datatype consensus_message = ConsensusMessage (msg_on: vote_on) (msg_signature: schnorr_signature) (msg_signer_index: nat)

fun vote_step_item :: "vote_step \<Rightarrow> rlp_item" where
  "vote_step_item (VoteStep h v s) = RList [uint_item h, uint_item v, step_item s]"

definition vote_step_decode :: "vote_step decoder" where
  "vote_step_decode bs = rbind (val_at uint_decode bs 0) (\<lambda>h. rbind (val_at uint_decode bs 1) (\<lambda>v.
     rbind (val_at step_decode bs 2) (\<lambda>s. Ok (VoteStep h v s))))"

fun vote_on_item :: "vote_on \<Rightarrow> rlp_item" where
  "vote_on_item (VoteOn s h) = RList [vote_step_item s, option_item hash_item h]"

definition vote_on_decode :: "vote_on decoder" where
  "vote_on_decode bs = rbind (val_at vote_step_decode bs 0) (\<lambda>s.
     rbind (val_at (option_decode hash_decode) bs 1) (\<lambda>h. Ok (VoteOn s h)))"

fun consensus_message_item :: "consensus_message \<Rightarrow> rlp_item" where
  "consensus_message_item (ConsensusMessage vote sig i) = RList [vote_on_item vote, hash_item sig, usize_item i]"

definition consensus_message_decode :: "consensus_message decoder" where
  "consensus_message_decode bs = rbind (val_at vote_on_decode bs 0) (\<lambda>vote.
     rbind (val_at hash_decode bs 1) (\<lambda>sig. rbind (val_at usize_decode bs 2) (\<lambda>i. Ok (ConsensusMessage vote sig i))))"

text \<open>What a validator signs: the bytes of a vote, hashed.\<close>

definition message_info_rlp :: "vote_step \<Rightarrow> h256 option \<Rightarrow> bytes" where
  "message_info_rlp step block_hash = rlp_bytes (vote_on_item (VoteOn step block_hash))"

definition message_hash :: "(bytes \<Rightarrow> h256) \<Rightarrow> vote_step \<Rightarrow> h256 \<Rightarrow> h256" where
  "message_hash blake256 step block_hash = blake256 (rlp_bytes (vote_on_item (VoteOn step (Some block_hash))))"

definition message_verify :: "(bytes \<Rightarrow> h256) \<Rightarrow> (public \<Rightarrow> schnorr_signature \<Rightarrow> h256 \<Rightarrow> bool option) \<Rightarrow>
    consensus_message \<Rightarrow> public \<Rightarrow> bool option" where
  "message_verify blake256 verify_schnorr m signer_public =
     (let vote_info = message_info_rlp (vo_step (msg_on m)) (vo_block_hash (msg_on m)) in
      verify_schnorr signer_public (msg_signature m) (blake256 vote_info))"

definition msg_round :: "consensus_message \<Rightarrow> vote_step" where
  "msg_round m = vo_step (msg_on m)"

definition msg_block_hash :: "consensus_message \<Rightarrow> h256 option" where
  "msg_block_hash m = vo_block_hash (msg_on m)"

definition msg_height :: "consensus_message \<Rightarrow> u64" where
  "msg_height m = vs_height (msg_round m)"

definition is_broadcastable :: "consensus_message \<Rightarrow> bool" where
  "is_broadcastable m = is_pre (vs_step (msg_round m))"

interpretation step_rlp: rlp_codec step_item step_decode "\<lambda>_. True"
proof
  fix s :: tm_step
  assume "length (rlp_bytes (step_item s)) < 2 ^ 32"
  then show "step_decode (rlp_bytes (step_item s)) = Ok s"
    using u8_rlp.decode_item [of "step_number s"] by (cases s) (simp_all add: step_decode_def step_item_def)
qed

lemmas wire_items = uint_rlp.val_at_item hash_rlp.val_at_item usize_rlp.val_at_item step_rlp.val_at_item
  u8_rlp.val_at_item bytes_rlp.val_at_item bitset_rlp.val_at_item

interpretation vote_step_rlp: rlp_codec vote_step_item vote_step_decode "\<lambda>_. True"
proof
  fix s :: vote_step
  assume "length (rlp_bytes (vote_step_item s)) < 2 ^ 32"
  then show "vote_step_decode (rlp_bytes (vote_step_item s)) = Ok s"
    by (cases s) (simp add: vote_step_decode_def wire_items del: rlp_bytes.simps)
qed

lemma always_fine: "case_option True (\<lambda>_. True) = (\<lambda>_. True)"
  by (auto split: option.split)

interpretation hash_option_rlp: rlp_codec "option_item (hash_item :: h256 \<Rightarrow> rlp_item)" "option_decode hash_decode" "\<lambda>_. True"
  using option_codec [OF hash_rlp.rlp_codec_axioms, where 'a1 = 256] by (simp add: always_fine)

interpretation view_option_rlp: rlp_codec "option_item (uint_item :: u64 \<Rightarrow> rlp_item)" "option_decode uint_decode" "\<lambda>_. True"
  using option_codec [OF uint_rlp.rlp_codec_axioms, where 'a1 = 64] by (simp add: always_fine)

interpretation vote_on_rlp: rlp_codec vote_on_item vote_on_decode "\<lambda>_. True"
proof
  fix v :: vote_on
  assume "length (rlp_bytes (vote_on_item v)) < 2 ^ 32"
  then show "vote_on_decode (rlp_bytes (vote_on_item v)) = Ok v"
    by (cases v) (simp add: vote_on_decode_def vote_step_rlp.val_at_item hash_option_rlp.val_at_item del: rlp_bytes.simps)
qed

interpretation consensus_message_rlp: rlp_codec consensus_message_item consensus_message_decode "\<lambda>m. msg_signer_index m < 2 ^ 64"
proof
  fix m :: consensus_message
  assume "msg_signer_index m < 2 ^ 64" "length (rlp_bytes (consensus_message_item m)) < 2 ^ 32"
  then show "consensus_message_decode (rlp_bytes (consensus_message_item m)) = Ok m"
    by (cases m) (simp add: consensus_message_decode_def vote_on_rlp.val_at_item wire_items del: rlp_bytes.simps)
qed

section \<open>Messages between nodes\<close>

record snappy =
  compress :: "bytes \<Rightarrow> bytes option"
  decompress :: "bytes \<Rightarrow> bytes option"

definition MESSAGE_ID_CONSENSUS_MESSAGE :: u8 where "MESSAGE_ID_CONSENSUS_MESSAGE = 1"
definition MESSAGE_ID_PROPOSAL_BLOCK :: u8 where "MESSAGE_ID_PROPOSAL_BLOCK = 2"
definition MESSAGE_ID_STEP_STATE :: u8 where "MESSAGE_ID_STEP_STATE = 3"
definition MESSAGE_ID_REQUEST_MESSAGE :: u8 where "MESSAGE_ID_REQUEST_MESSAGE = 4"
definition MESSAGE_ID_REQUEST_PROPOSAL :: u8 where "MESSAGE_ID_REQUEST_PROPOSAL = 5"

lemmas message_ids = MESSAGE_ID_CONSENSUS_MESSAGE_def MESSAGE_ID_PROPOSAL_BLOCK_def MESSAGE_ID_STEP_STATE_def
  MESSAGE_ID_REQUEST_MESSAGE_def MESSAGE_ID_REQUEST_PROPOSAL_def

datatype tendermint_message =
    ConsensusMessages "bytes list"
  | ProposalBlock schnorr_signature u64 bytes
  | StepState vote_step "h256 option" "u64 option" bit_set
  | RequestMessage vote_step bit_set
  | RequestProposal u64 u64

fun tendermint_message_item :: "snappy \<Rightarrow> tendermint_message \<Rightarrow> ('e, rlp_item) result" where
  "tendermint_message_item sn (ConsensusMessages messages) =
     Ok (RList [u8_item MESSAGE_ID_CONSENSUS_MESSAGE, RList (map RData messages)])"
| "tendermint_message_item sn (ProposalBlock sig view message) =
     rbind (expect ''Compression always succeed'' (compress sn message)) (\<lambda>compressed.
     Ok (RList [u8_item MESSAGE_ID_PROPOSAL_BLOCK, hash_item sig, uint_item view, RData compressed]))"
| "tendermint_message_item sn (StepState vote proposal lock_view known_votes) =
     Ok (RList [u8_item MESSAGE_ID_STEP_STATE, vote_step_item vote, option_item hash_item proposal,
       option_item uint_item lock_view, bitset_item known_votes])"
| "tendermint_message_item sn (RequestMessage vote requested_votes) =
     Ok (RList [u8_item MESSAGE_ID_REQUEST_MESSAGE, vote_step_item vote, bitset_item requested_votes])"
| "tendermint_message_item sn (RequestProposal height view) =
     Ok (RList [u8_item MESSAGE_ID_REQUEST_PROPOSAL, uint_item height, uint_item view])"

definition tendermint_message_decode :: "snappy \<Rightarrow> tendermint_message decoder" where
  "tendermint_message_decode sn bs = rbind (val_at u8_decode bs 0) (\<lambda>id.
     if id = MESSAGE_ID_CONSENSUS_MESSAGE then
       rbind (expect_items 2 bs) (\<lambda>_. rbind (list_at bytes_decode bs 1) (\<lambda>ms. Ok (ConsensusMessages ms)))
     else if id = MESSAGE_ID_PROPOSAL_BLOCK then
       rbind (expect_items 4 bs) (\<lambda>_. rbind (rlp_at bs 1) (\<lambda>sig. rbind (rlp_at bs 2) (\<lambda>view.
       rbind (val_at bytes_decode bs 3) (\<lambda>compressed.
       rbind (ok_or (RlpCustom ''Invalid compression format'') (decompress sn compressed)) (\<lambda>message.
       rbind (hash_decode sig) (\<lambda>sig. rbind (uint_decode view) (\<lambda>view. Ok (ProposalBlock sig view message))))))))
     else if id = MESSAGE_ID_STEP_STATE then
       rbind (expect_items 5 bs) (\<lambda>_. rbind (val_at vote_step_decode bs 1) (\<lambda>vote.
       rbind (val_at (option_decode hash_decode) bs 2) (\<lambda>proposal.
       rbind (val_at (option_decode uint_decode) bs 3) (\<lambda>lock_view.
       rbind (val_at bitset_decode bs 4) (\<lambda>known_votes. Ok (StepState vote proposal lock_view known_votes))))))
     else if id = MESSAGE_ID_REQUEST_MESSAGE then
       rbind (expect_items 3 bs) (\<lambda>_. rbind (val_at vote_step_decode bs 1) (\<lambda>vote.
       rbind (val_at bitset_decode bs 2) (\<lambda>requested_votes. Ok (RequestMessage vote requested_votes))))
     else if id = MESSAGE_ID_REQUEST_PROPOSAL then
       rbind (expect_items 3 bs) (\<lambda>_. rbind (val_at uint_decode bs 1) (\<lambda>height.
       rbind (val_at uint_decode bs 2) (\<lambda>view. Ok (RequestProposal height view))))
     else Error (RlpCustom ''Unknown message id detected''))"

text \<open>The arrays of the bit sets have their length by their type in the source.\<close>

fun arrays_ok :: "tendermint_message \<Rightarrow> bool" where
  "arrays_ok (StepState _ _ _ known_votes) \<longleftrightarrow> bs_ok known_votes"
| "arrays_ok (RequestMessage _ requested_votes) \<longleftrightarrow> bs_ok requested_votes"
| "arrays_ok _ \<longleftrightarrow> True"

text \<open>
  C34: Tendermint messages survive the wire. Given that the compression library gives back what it
  compressed, every message that a node writes is decoded by its peer to the same message, whatever its
  kind.
\<close>

theorem tendermint_message_roundtrip:
  assumes "\<And>m c. compress sn m = Some c \<Longrightarrow> decompress sn c = Some m"
    and "arrays_ok msg" "tendermint_message_item sn msg = (Ok t :: ('e, rlp_item) result)" "length (rlp_bytes t) < 2 ^ 32"
  shows "tendermint_message_decode sn (rlp_bytes t) = Ok msg"
proof (cases msg)
  case (ConsensusMessages ms)
  with assms(3,4) show ?thesis
    using bytes_rlp.list_item [of ms] nested_bytes [of "[u8_item MESSAGE_ID_CONSENSUS_MESSAGE, RList (map RData ms)]" "RList (map RData ms)"]
    by (auto simp: tendermint_message_decode_def expect_items_list wire_items list_at_def rlp_at_item simp del: rlp_bytes.simps)
next
  case (ProposalBlock sig view message)
  with assms(3) obtain c where c: "compress sn message = Some c"
    "t = RList [u8_item MESSAGE_ID_PROPOSAL_BLOCK, hash_item sig, uint_item view, RData c]"
    by (auto simp: rbind_eq_Ok_iff expect_def split: option.splits)
  with assms(4) have "length (rlp_bytes (hash_item sig)) < 2 ^ 32" "length (rlp_bytes (uint_item view)) < 2 ^ 32"
    by (auto intro: nested_bytes)
  with c assms(1) [OF c(1)] assms(4) ProposalBlock show ?thesis
    by (simp add: tendermint_message_decode_def expect_items_list wire_items rlp_at_item hash_rlp.decode_item uint_rlp.decode_item
        message_ids ok_or_def del: rlp_bytes.simps)
next
  case (StepState vote proposal lock_view known_votes)
  with assms(2-4) show ?thesis
    by (auto simp: tendermint_message_decode_def expect_items_list wire_items vote_step_rlp.val_at_item hash_option_rlp.val_at_item
        view_option_rlp.val_at_item message_ids simp del: rlp_bytes.simps)
next
  case (RequestMessage vote requested_votes)
  with assms(2-4) show ?thesis
    by (auto simp: tendermint_message_decode_def expect_items_list wire_items vote_step_rlp.val_at_item message_ids simp del: rlp_bytes.simps)
next
  case (RequestProposal height view)
  with assms(3,4) show ?thesis
    by (auto simp: tendermint_message_decode_def expect_items_list wire_items message_ids simp del: rlp_bytes.simps)
qed

text \<open>A library that copies its input keeps the law.\<close>

definition copying :: snappy where
  "copying = \<lparr>compress = Some, decompress = Some\<rparr>"

theorem tendermint_message_roundtrip_witness:
  "tendermint_message_decode copying (rlp_bytes (RList [u8_item 2, hash_item (9 :: schnorr_signature), uint_item (3 :: u64), RData [1, 2]])) =
     Ok (ProposalBlock 9 3 [1, 2])"
proof -
  let ?t = "RList [u8_item 2, hash_item (9 :: schnorr_signature), uint_item (3 :: u64), RData [1, 2]]"
  have "length (rlp_bytes ?t) < 2 ^ 32"
    using hash_item_length [of "9 :: schnorr_signature"] uint_item_length [of "3 :: u64"] u8_item_length [of 2]
    by (intro le_less_trans [OF list_item_length]) (simp add: rlp_header_def)
  then show ?thesis
    by (intro tendermint_message_roundtrip [of copying "ProposalBlock 9 3 [1, 2]" ?t]) (simp_all add: copying_def message_ids expect_def)
qed

section \<open>Votes are not ambiguous\<close>

text \<open>Two votes with the same bytes are the same vote: a signature on one is no signature on another.\<close>

lemma vote_step_length: "length (rlp_bytes (vote_step_item s)) \<le> 37"
proof (cases s)
  case (VoteStep h v st)
  then show ?thesis
    using uint_item_length [of h] uint_item_length [of v] u8_item_length [of "step_number st"]
      list_item_length [of "[uint_item h, uint_item v, step_item st]"]
    by (simp add: step_item_def del: rlp_bytes.simps)
qed

lemma vote_on_bytes_short: "length (rlp_bytes (vote_on_item v)) < 2 ^ 32"
proof (cases v)
  case (VoteOn s h)
  have "length (rlp_bytes (option_item hash_item h)) \<le> 42" for h :: "h256 option"
    using list_item_length [of "[]"] list_item_length [of "[hash_item (the h)]"] hash_item_length [of "the h"]
    by (cases h) (simp_all add: option_item_def del: rlp_bytes.simps)
  from this [of h] have "length (rlp_bytes (vote_on_item v)) \<le> 84"
    using vote_step_length [of s] list_item_length [of "[vote_step_item s, option_item hash_item h]"]
    by (simp only: VoteOn vote_on_item.simps list.map sum_list_simps)
  also have "84 < (2 :: nat) ^ 32" by simp
  finally show ?thesis .
qed

lemma message_info_inj: "message_info_rlp s h = message_info_rlp s' h' \<longleftrightarrow> s = s' \<and> h = h'"
proof
  assume "message_info_rlp s h = message_info_rlp s' h'"
  then have "(Ok (VoteOn s h) :: (rlp_error, vote_on) result) = Ok (VoteOn s' h')"
    unfolding message_info_rlp_def by (metis vote_on_rlp.decode_item vote_on_bytes_short)
  then show "s = s' \<and> h = h'" by simp
qed simp

end
