(* ===== verification/Vote_Collector.thy ===== *)
theory Vote_Collector
  imports Tendermint_Message BTree_Collections "HOL-Library.AList"
begin

text \<open>
  The votes that a node has collected (\<open>core/src/consensus/vote_collector.rs\<close>): per round the last message
  of every signer, the signatures per block, and the messages seen. Hash maps and hash sets are association lists and
  lists without duplicates, in some order; ordered maps are the ones of the collections library. The
  collector is compared with the history of the messages it was given.
\<close>

section \<open>One round\<close>

record step_collector =
  voted :: "(nat \<times> consensus_message) list"
  block_votes :: "(h256 option \<times> (nat, schnorr_signature) btree_map) list"
  messages :: "consensus_message list"

definition step_collector_default :: step_collector where
  "step_collector_default = \<lparr>voted = [], block_votes = [], messages = []\<rparr>"

datatype double_vote = DoubleVote (author_index: nat) (vote_one: consensus_message) (vote_two: consensus_message)

definition double_vote_item :: "double_vote \<Rightarrow> rlp_item" where
  "double_vote_item d = RList [consensus_message_item (vote_one d), consensus_message_item (vote_two d)]"

definition votes_for :: "h256 option \<Rightarrow> step_collector \<Rightarrow> (nat, schnorr_signature) btree_map" where
  "votes_for h c = (case map_of (block_votes c) h of None \<Rightarrow> [] | Some votes \<Rightarrow> votes)"

definition step_insert :: "consensus_message \<Rightarrow> step_collector \<Rightarrow> double_vote option \<times> step_collector" where
  "step_insert m c =
     (if m \<in> set (messages c) then (None, c)
      else
        let i = msg_signer_index m;
            c' = c\<lparr>messages := m # messages c, voted := AList.update i m (voted c)\<rparr> in
        case map_of (voted c) i of
          Some previous \<Rightarrow> (Some (DoubleVote i previous m), c')
        | None \<Rightarrow> (None, c'\<lparr>block_votes :=
            AList.update (msg_block_hash m) (bmap_insert i (msg_signature m) (votes_for (msg_block_hash m) c)) (block_votes c)\<rparr>))"

definition count_block :: "h256 option \<Rightarrow> step_collector \<Rightarrow> ('e, bit_set) result" where
  "count_block block_hash c = set_all (map fst (votes_for block_hash c)) bs_new"

fun count_votes :: "nat list \<Rightarrow> bit_set \<Rightarrow> ('e, bit_set) result" where
  "count_votes [] result = Ok result"
| "count_votes (index # rest) result =
     rbind (is_set index result) (\<lambda>b. rbind (rassert ''Cannot vote twice in a round'' (\<not> b)) (\<lambda>_.
     rbind (bs_set index result) (count_votes rest)))"

definition step_count :: "step_collector \<Rightarrow> ('e, bit_set) result" where
  "step_count c = count_votes (concat (map (map fst \<circ> snd) (block_votes c))) bs_new"

section \<open>All rounds\<close>

type_synonym vote_collector = "(vote_step, step_collector) btree_map"

definition vc_default :: vote_collector where
  "vc_default = [(vote_step_default, step_collector_default)]"

definition round_of :: "vote_step \<Rightarrow> vote_collector \<Rightarrow> step_collector" where
  "round_of r vc = (case bmap_get vc r of None \<Rightarrow> step_collector_default | Some c \<Rightarrow> c)"

definition vote :: "consensus_message \<Rightarrow> vote_collector \<Rightarrow> double_vote option \<times> vote_collector" where
  "vote m vc = (case step_insert m (round_of (msg_round m) vc) of (d, c) \<Rightarrow> (d, bmap_insert (msg_round m) c vc))"

definition is_old_or_known :: "consensus_message \<Rightarrow> vote_collector \<Rightarrow> bool" where
  "is_old_or_known m vc \<longleftrightarrow>
     (case bmap_get vc (msg_round m) of None \<Rightarrow> False | Some c \<Rightarrow> m \<in> set (messages c)) \<or>
     (case vc of [] \<Rightarrow> True | (oldest, _) # _ \<Rightarrow> msg_round m < oldest)"

definition throw_out_old :: "vote_step \<Rightarrow> vote_collector \<Rightarrow> ('e, vote_collector) result" where
  "throw_out_old vote_round vc =
     (let new_collector = filter (\<lambda>(r, _). vote_round \<le> r) vc in
      rbind (rassert ''!new_collector.is_empty()'' (new_collector \<noteq> [])) (\<lambda>_. Ok new_collector))"

definition block_votes_at :: "vote_step \<Rightarrow> h256 \<Rightarrow> vote_collector \<Rightarrow> (nat, schnorr_signature) btree_map" where
  "block_votes_at r block_hash vc = (case bmap_get vc r of None \<Rightarrow> [] | Some c \<Rightarrow> votes_for (Some block_hash) c)"

definition round_signatures_and_indices :: "vote_step \<Rightarrow> h256 \<Rightarrow> vote_collector \<Rightarrow> schnorr_signature list \<times> nat list" where
  "round_signatures_and_indices r block_hash vc =
     (let votes = block_votes_at r block_hash vc in (map snd votes, map fst votes))"

definition round_signature :: "vote_step \<Rightarrow> h256 \<Rightarrow> vote_collector \<Rightarrow> schnorr_signature option" where
  "round_signature r block_hash vc =
     (case block_votes_at r block_hash vc of [] \<Rightarrow> None | (_, sig) # _ \<Rightarrow> Some sig)"

definition block_round_votes :: "vote_step \<Rightarrow> h256 option \<Rightarrow> vote_collector \<Rightarrow> ('e, bit_set) result" where
  "block_round_votes r block_hash vc = (case bmap_get vc r of None \<Rightarrow> Ok bs_new | Some c \<Rightarrow> count_block block_hash c)"

definition aligned_votes :: "consensus_message \<Rightarrow> vote_collector \<Rightarrow> ('e, bit_set) result" where
  "aligned_votes m vc = (case bmap_get vc (msg_round m) of None \<Rightarrow> Ok bs_new | Some c \<Rightarrow> count_block (msg_block_hash m) c)"

definition round_votes :: "vote_step \<Rightarrow> vote_collector \<Rightarrow> ('e, bit_set) result" where
  "round_votes r vc = (case bmap_get vc r of None \<Rightarrow> Ok bs_new | Some c \<Rightarrow> step_count c)"

definition get_block_hashes :: "vote_step \<Rightarrow> vote_collector \<Rightarrow> h256 list" where
  "get_block_hashes r vc = (case bmap_get vc r of None \<Rightarrow> [] | Some c \<Rightarrow> List.map_filter fst (block_votes c))"

definition get_all :: "vote_collector \<Rightarrow> consensus_message list" where
  "get_all vc = concat (map (messages \<circ> snd) vc)"

definition get_all_votes_in_round :: "vote_step \<Rightarrow> vote_collector \<Rightarrow> consensus_message list" where
  "get_all_votes_in_round r vc = (case bmap_get vc r of None \<Rightarrow> [] | Some c \<Rightarrow> messages c)"

definition get_all_votes_and_indices_in_round :: "vote_step \<Rightarrow> vote_collector \<Rightarrow> (nat \<times> consensus_message) list" where
  "get_all_votes_and_indices_in_round r vc = (case bmap_get vc r of None \<Rightarrow> [] | Some c \<Rightarrow> voted c)"

fun vote_all :: "consensus_message list \<Rightarrow> vote_collector \<Rightarrow> vote_collector" where
  "vote_all [] vc = vc"
| "vote_all (m # ms) vc = vote_all ms (snd (vote m vc))"

section \<open>The history of a round\<close>

text \<open>What the collector is meant to know: the first message of a signer is its vote.\<close>

definition first_vote :: "consensus_message list \<Rightarrow> vote_step \<Rightarrow> nat \<Rightarrow> consensus_message option" where
  "first_vote ms r i = find (\<lambda>m. msg_round m = r \<and> msg_signer_index m = i) ms"

definition voters :: "consensus_message list \<Rightarrow> vote_step \<Rightarrow> h256 option \<Rightarrow> nat set" where
  "voters ms r h = {i. \<exists>m. first_vote ms r i = Some m \<and> msg_block_hash m = h}"

text \<open>A round agrees with the history.\<close>

definition round_ok :: "consensus_message list \<Rightarrow> vote_step \<Rightarrow> step_collector \<Rightarrow> bool" where
  "round_ok ms r c \<longleftrightarrow>
     set (messages c) = {m \<in> set ms. msg_round m = r} \<and>
     (\<forall>i. map_of (voted c) i = None \<longleftrightarrow> first_vote ms r i = None) \<and>
     distinct (map fst (block_votes c)) \<and>
     (\<forall>h. bmap_inv (votes_for h c)) \<and>
     (\<forall>h i. bmap_get (votes_for h c) i =
        (case first_vote ms r i of Some m \<Rightarrow> if msg_block_hash m = h then Some (msg_signature m) else None | None \<Rightarrow> None))"

lemma round_ok_default:
  assumes "\<forall>m \<in> set ms. msg_round m \<noteq> r"
  shows "round_ok ms r step_collector_default"
proof -
  have "first_vote ms r i = None" for i using assms by (auto simp: first_vote_def find_None_iff)
  then show ?thesis using assms by (auto simp: round_ok_def step_collector_default_def votes_for_def)
qed

lemma first_vote_snoc:
  "first_vote (ms @ [m]) r i =
     (if first_vote ms r i = None \<and> msg_round m = r \<and> msg_signer_index m = i then Some m else first_vote ms r i)"
  by (induction ms) (auto simp: first_vote_def)

lemma first_vote_known: "m \<in> set ms \<Longrightarrow> first_vote ms (msg_round m) (msg_signer_index m) \<noteq> None"
  by (auto simp: first_vote_def find_None_iff)

lemma votes_for_update:
  "votes_for h (d\<lparr>block_votes := AList.update h' votes (block_votes c)\<rparr>) = (if h = h' then votes else votes_for h c)"
  by (simp add: votes_for_def update_conv')

lemma votes_for_frame [simp]: "votes_for h (c\<lparr>messages := x, voted := y\<rparr>) = votes_for h c"
  by (simp add: votes_for_def)

lemma step_insert_ok:
  assumes ok: "round_ok ms r c" and r: "msg_round m = r"
  shows "round_ok (ms @ [m]) r (snd (step_insert m c))"
    and "fst (step_insert m c) \<noteq> None \<longleftrightarrow> m \<notin> set ms \<and> first_vote ms r (msg_signer_index m) \<noteq> None"
proof -
  have known: "m \<in> set (messages c) \<longleftrightarrow> m \<in> set ms" using ok r by (auto simp: round_ok_def)
  have voted_iff: "map_of (voted c) i = None \<longleftrightarrow> first_vote ms r i = None" for i using ok by (auto simp: round_ok_def)
  show "fst (step_insert m c) \<noteq> None \<longleftrightarrow> m \<notin> set ms \<and> first_vote ms r (msg_signer_index m) \<noteq> None"
    using voted_iff [of "msg_signer_index m"] known
    by (cases "map_of (voted c) (msg_signer_index m)") (auto simp: step_insert_def Let_def)
  consider (seen) "m \<in> set ms" | (again) p where "m \<notin> set ms" "map_of (voted c) (msg_signer_index m) = Some p"
    | (new) "m \<notin> set ms" "map_of (voted c) (msg_signer_index m) = None" by fastforce
  then show "round_ok (ms @ [m]) r (snd (step_insert m c))"
  proof cases
    case seen
    then have "first_vote (ms @ [m]) r i = first_vote ms r i" for i
      using first_vote_known [OF seen] by (auto simp: first_vote_snoc r)
    then show ?thesis using ok seen known by (auto simp: round_ok_def step_insert_def)
  next
    case again
    then have "first_vote (ms @ [m]) r i = first_vote ms r i" for i
      using voted_iff [of "msg_signer_index m"] by (auto simp: first_vote_snoc)
    then show ?thesis using ok again known r voted_iff [of "msg_signer_index m"]
      by (auto simp: round_ok_def step_insert_def Let_def update_conv')
  next
    case new
    then have none: "first_vote ms r (msg_signer_index m) = None" by (simp add: voted_iff)
    then have first: "first_vote (ms @ [m]) r i = (if i = msg_signer_index m then Some m else first_vote ms r i)" for i
      by (auto simp: first_vote_snoc r)
    show ?thesis using ok new known r none
      by (auto simp: round_ok_def step_insert_def Let_def update_conv' votes_for_update first distinct_update split: option.splits)
  qed
qed

definition collector_ok :: "consensus_message list \<Rightarrow> vote_collector \<Rightarrow> bool" where
  "collector_ok ms vc \<longleftrightarrow> bmap_inv vc \<and> (\<forall>r. round_ok ms r (round_of r vc))"

lemma collector_ok_default: "collector_ok [] vc_default"
  by (auto simp: collector_ok_def vc_default_def round_of_def bmap_get_def bmap_inv_def intro!: round_ok_default)

lemma round_ok_other: "msg_round m \<noteq> r \<Longrightarrow> round_ok ms r c \<Longrightarrow> round_ok (ms @ [m]) r c"
  by (auto simp: round_ok_def first_vote_snoc)

lemma vote_ok:
  assumes "collector_ok ms vc"
  shows "collector_ok (ms @ [m]) (snd (vote m vc))"
    and "fst (vote m vc) \<noteq> None \<longleftrightarrow> m \<notin> set ms \<and> first_vote ms (msg_round m) (msg_signer_index m) \<noteq> None"
proof -
  let ?r = "msg_round m"
  have ok: "bmap_inv vc" "\<And>r. round_ok ms r (round_of r vc)" using assms by (auto simp: collector_ok_def)
  note ins = step_insert_ok [OF ok(2) refl]
  have vote: "fst (vote m vc) = fst (step_insert m (round_of ?r vc))"
    "snd (vote m vc) = bmap_insert ?r (snd (step_insert m (round_of ?r vc))) vc"
    by (simp_all add: vote_def split: prod.split)
  show "fst (vote m vc) \<noteq> None \<longleftrightarrow> m \<notin> set ms \<and> first_vote ms ?r (msg_signer_index m) \<noteq> None"
    using ins(2) by (simp add: vote(1))
  have "round_of r (snd (vote m vc)) = (if r = ?r then snd (step_insert m (round_of ?r vc)) else round_of r vc)" for r
    using ok(1) by (simp add: vote(2) round_of_def)
  with ok ins(1) show "collector_ok (ms @ [m]) (snd (vote m vc))"
    by (auto simp: collector_ok_def vote(2) intro: round_ok_other)
qed

lemma vote_all_ok: "collector_ok ms vc \<Longrightarrow> collector_ok (ms @ ms') (vote_all ms' vc)"
proof (induction ms' arbitrary: ms vc)
  case (Cons m ms')
  from Cons.IH [OF vote_ok(1) [OF Cons.prems, of m]] show ?case by simp
qed simp

section \<open>Counting\<close>

lemma set_all_bits:
  assumes "bs_ok bs" "\<forall>i \<in> set is. i < 800"
  shows "\<exists>bs'. set_all is bs = (Ok bs' :: ('e, _) result) \<and> bs_ok bs' \<and> (\<forall>j<800. bit_at bs' j \<longleftrightarrow> j \<in> set is \<or> bit_at bs j)"
  using assms
proof (induction "is" arbitrary: bs)
  case (Cons i "is")
  have "bs_ok bs" "i < 800" using Cons.prems by simp_all
  then obtain bs1 where bs1: "bs_set i bs = (Ok bs1 :: ('e, _) result)" "bs_ok bs1"
    "\<forall>j<800. bit_at bs1 j \<longleftrightarrow> j = i \<or> bit_at bs j" by (rule bs_set_Ok [where 'a = 'e])
  from Cons.IH [OF bs1(2)] Cons.prems show ?case by (auto simp: bs1)
qed simp

lemma count_votes_bits:
  assumes "bs_ok bs" "\<forall>i \<in> set is. i < 800 \<and> \<not> bit_at bs i" "distinct is"
  shows "\<exists>bs'. count_votes is bs = (Ok bs' :: ('e, _) result) \<and> bs_ok bs' \<and> (\<forall>j<800. bit_at bs' j \<longleftrightarrow> j \<in> set is \<or> bit_at bs j)"
  using assms
proof (induction "is" arbitrary: bs)
  case (Cons i "is")
  have "bs_ok bs" "i < 800" using Cons.prems by simp_all
  then obtain bs1 where bs1: "bs_set i bs = (Ok bs1 :: ('e, _) result)" "bs_ok bs1"
    "\<forall>j<800. bit_at bs1 j \<longleftrightarrow> j = i \<or> bit_at bs j" by (rule bs_set_Ok [where 'a = 'e])
  from Cons.prems bs1(3) have "\<forall>j \<in> set is. j < 800 \<and> \<not> bit_at bs1 j" by auto
  from Cons.IH [OF bs1(2) this] Cons.prems show ?case by (auto simp: bs1 is_set_run)
qed simp

lemma distinct_values:
  assumes "distinct (map fst al)" "\<And>k v. (k, v) \<in> set al \<Longrightarrow> distinct (g v)"
    and "\<And>k v k' v'. (k, v) \<in> set al \<Longrightarrow> (k', v') \<in> set al \<Longrightarrow> k \<noteq> k' \<Longrightarrow> set (g v) \<inter> set (g v') = {}"
  shows "distinct (concat (map (g \<circ> snd) al))"
  using assms
proof (induction al)
  case (Cons kv al)
  obtain k v where kv: "kv = (k, v)" by (cases kv)
  have "distinct (concat (map (g \<circ> snd) al))"
    by (rule Cons.IH) (simp_all add: Cons.prems(1) [simplified] Cons.prems(2,3) [OF list.set_intros(2)] Cons.prems(3) [OF list.set_intros(2) list.set_intros(2)])
  moreover have "set (g v) \<inter> set (concat (map (g \<circ> snd) al)) = {}"
  proof -
    have "set (g v) \<inter> set (g v') = {}" if "(k', v') \<in> set al" for k' v'
      using Cons.prems(1,3) that kv by (intro Cons.prems(3) [of k v k' v']) (auto simp: image_iff)
    then show ?thesis by fastforce
  qed
  ultimately show ?case using Cons.prems(2) [of k v] kv by (simp add: comp_def)
qed simp

lemma round_ok_votes: "round_ok ms r c \<Longrightarrow> bmap_get (votes_for h c) i =
    (case first_vote ms r i of Some m \<Rightarrow> if msg_block_hash m = h then Some (msg_signature m) else None | None \<Rightarrow> None)"
  by (simp add: round_ok_def)

lemma step_count_ok:
  assumes ok: "round_ok ms r c" and small: "\<forall>m \<in> set ms. msg_signer_index m < 800"
  shows "\<exists>bs. step_count c = (Ok bs :: ('e, _) result) \<and> bs_ok bs \<and> (\<forall>i<800. bit_at bs i \<longleftrightarrow> first_vote ms r i \<noteq> None)"
    and "\<exists>bs. count_block h c = (Ok bs :: ('e, _) result) \<and> bs_ok bs \<and> (\<forall>i<800. bit_at bs i \<longleftrightarrow> i \<in> voters ms r h)"
proof -
  have votes: "votes_for k c = v" if "(k, v) \<in> set (block_votes c)" for k v
    using ok that by (auto simp: round_ok_def votes_for_def)
  have keys: "set (map fst (votes_for k c)) = voters ms r k" for k
    by (subst bmap_keys) (auto simp: round_ok_votes [OF ok] voters_def split: option.splits if_splits)
  have signer: "first_vote ms r i \<noteq> None \<Longrightarrow> i < 800" for i
    using small by (auto simp: first_vote_def find_Some_iff)
  have below: "i < 800" if "i \<in> voters ms r k" for i k using that signer by (auto simp: voters_def)
  show "\<exists>bs. count_block h c = (Ok bs :: ('e, _) result) \<and> bs_ok bs \<and> (\<forall>i<800. bit_at bs i \<longleftrightarrow> i \<in> voters ms r h)"
    using set_all_bits [OF bs_new_ok(1), of "map fst (votes_for h c)", where 'e = 'e] below [of _ h] keys [of h]
    by (auto simp: count_block_def)
  let ?is = "concat (map (map fst \<circ> snd) (block_votes c))"
  have "distinct ?is"
  proof (rule distinct_values)
    show "distinct (map fst (block_votes c))" using ok by (simp add: round_ok_def)
    show "distinct (map fst v)" if "(k, v) \<in> set (block_votes c)" for k v
      using votes [OF that] ok bset_inv_distinct [of "map fst v"] by (auto simp: round_ok_def bmap_inv_def bset_inv_def)
    show "set (map fst v) \<inter> set (map fst v') = {}" if "(k, v) \<in> set (block_votes c)" "(k', v') \<in> set (block_votes c)" "k \<noteq> k'" for k v k' v'
      using keys [of k] keys [of k'] votes [OF that(1)] votes [OF that(2)] that(3) by (auto simp: voters_def)
  qed
  moreover have "set ?is = {i. first_vote ms r i \<noteq> None}"
  proof (intro equalityI subsetI)
    fix i assume "i \<in> set ?is"
    then obtain k v where "(k, v) \<in> set (block_votes c)" "i \<in> set (map fst v)" by force
    with votes keys have "i \<in> voters ms r k" by metis
    then show "i \<in> {i. first_vote ms r i \<noteq> None}" by (auto simp: voters_def)
  next
    fix i assume "i \<in> {i. first_vote ms r i \<noteq> None}"
    then obtain k where "i \<in> voters ms r k" by (auto simp: voters_def)
    then have i: "i \<in> set (map fst (votes_for k c))" by (simp only: keys)
    then obtain v where "map_of (block_votes c) k = Some v" "votes_for k c = v"
      by (cases "map_of (block_votes c) k") (auto simp: votes_for_def)
    with i show "i \<in> set ?is" by (force dest: map_of_SomeD)
  qed
  ultimately show "\<exists>bs. step_count c = (Ok bs :: ('e, _) result) \<and> bs_ok bs \<and> (\<forall>i<800. bit_at bs i \<longleftrightarrow> first_vote ms r i \<noteq> None)"
    using count_votes_bits [OF bs_new_ok(1), of ?is, where 'e = 'e] signer by (simp add: step_count_def)
qed

lemma count_rounds:
  assumes "collector_ok ms vc"
  shows "round_votes r vc = (step_count (round_of r vc) :: ('e, _) result)"
    and "block_round_votes r h vc = (count_block h (round_of r vc) :: ('e, _) result)"
    and "block_votes_at r b vc = votes_for (Some b) (round_of r vc)"
  by (cases "bmap_get vc r"; simp add: round_votes_def block_round_votes_def block_votes_at_def round_of_def step_count_def count_block_def
      step_collector_default_def votes_for_def)+

text \<open>
  C35: the collector counts every validator once per round. After any sequence of messages whose signers
  are validator indices, no count panics; the votes of a round are exactly those of the signers heard in it; a signer
  counts for one block only, that of its first message of the round, whatever it sends later, and the signature kept for
  it is the one of that message, the indices ascending; and a message is reported as a double vote exactly when
  it is new and its signer was heard before in that round.
\<close>

theorem votes_counted_once:
  fixes ms :: "consensus_message list"
  assumes "\<forall>m \<in> set ms. msg_signer_index m < MAX_VALIDATOR_SIZE"
  defines "vc \<equiv> vote_all ms vc_default"
  shows "(\<exists>bs. round_votes r vc = (Ok bs :: ('e, _) result) \<and>
      (\<forall>i < MAX_VALIDATOR_SIZE. is_set i bs = (Ok (first_vote ms r i \<noteq> None) :: ('e, _) result))) \<and>
    (\<exists>bs. block_round_votes r h vc = (Ok bs :: ('e, _) result) \<and>
      (\<forall>i < MAX_VALIDATOR_SIZE. is_set i bs = (Ok (i \<in> voters ms r h) :: ('e, _) result))) \<and>
    (\<exists>sigs indices. round_signatures_and_indices r b vc = (sigs, indices) \<and> sorted_wrt (<) indices \<and>
      set indices = voters ms r (Some b) \<and> sigs = map (\<lambda>i. msg_signature (the (first_vote ms r i))) indices) \<and>
    (fst (vote m vc) \<noteq> None \<longleftrightarrow> m \<notin> set ms \<and> first_vote ms (msg_round m) (msg_signer_index m) \<noteq> None)"
proof (intro conjI)
  have vc: "collector_ok ms vc" using vote_all_ok [OF collector_ok_default, of ms] by (simp add: vc_def)
  then have ok: "round_ok ms r (round_of r vc)" for r by (simp add: collector_ok_def)
  have small: "\<forall>m \<in> set ms. msg_signer_index m < 800" using assms(1) by (simp add: MAX_VALIDATOR_SIZE_def)
  note counts = step_count_ok [OF ok small, where 'e = 'e]
  show "\<exists>bs. round_votes r vc = (Ok bs :: ('e, _) result) \<and>
      (\<forall>i < MAX_VALIDATOR_SIZE. is_set i bs = (Ok (first_vote ms r i \<noteq> None) :: ('e, _) result))"
    using counts(1) [of r] by (auto simp: count_rounds [OF vc] MAX_VALIDATOR_SIZE_def is_set_run)
  show "\<exists>bs. block_round_votes r h vc = (Ok bs :: ('e, _) result) \<and>
      (\<forall>i < MAX_VALIDATOR_SIZE. is_set i bs = (Ok (i \<in> voters ms r h) :: ('e, _) result))"
    using counts(2) [of h r] by (auto simp: count_rounds [OF vc] MAX_VALIDATOR_SIZE_def is_set_run)
  let ?votes = "votes_for (Some b) (round_of r vc)"
  note get = round_ok_votes [OF ok]
  have inv: "bmap_inv ?votes" using ok [of r] by (auto simp: round_ok_def)
  have "set (map fst ?votes) = voters ms r (Some b)"
    by (subst bmap_keys) (auto simp: get voters_def split: option.splits if_splits)
  moreover have "snd iv = msg_signature (the (first_vote ms r (fst iv)))" if "iv \<in> set ?votes" for iv
    using that bmap_get_in [OF inv, of "fst iv" "snd iv"] by (auto simp: get split: option.splits if_splits)
  ultimately show "\<exists>sigs indices. round_signatures_and_indices r b vc = (sigs, indices) \<and> sorted_wrt (<) indices \<and>
      set indices = voters ms r (Some b) \<and> sigs = map (\<lambda>i. msg_signature (the (first_vote ms r i))) indices"
    using inv by (auto simp: round_signatures_and_indices_def Let_def count_rounds [OF vc] bmap_inv_def)
  show "fst (vote m vc) \<noteq> None \<longleftrightarrow> m \<notin> set ms \<and> first_vote ms (msg_round m) (msg_signer_index m) \<noteq> None"
    by (rule vote_ok(2) [OF vc])
qed

text \<open>Validator 2 votes for two blocks, validator 7 for the first of them.\<close>

definition sample_votes :: "consensus_message list" where
  "sample_votes = (let r = VoteStep 5 0 Prevote in
     [ConsensusMessage (VoteOn r (Some 1)) 11 2, ConsensusMessage (VoteOn r (Some 2)) 12 2,
      ConsensusMessage (VoteOn r (Some 1)) 13 7])"

theorem votes_counted_once_witness:
  "(\<exists>sigs indices. round_signatures_and_indices (VoteStep 5 0 Prevote) 1 (vote_all sample_votes vc_default) = (sigs, indices) \<and>
     sorted_wrt (<) indices \<and> set indices = {2, 7}) \<and>
   fst (vote (ConsensusMessage (VoteOn (VoteStep 5 0 Prevote) None) 14 7) (vote_all sample_votes vc_default)) \<noteq> None"
proof -
  have "voters sample_votes (VoteStep 5 0 Prevote) (Some 1) = {2, 7}"
    by (auto simp: voters_def sample_votes_def first_vote_def msg_round_def msg_block_hash_def Let_def split: if_splits)
  moreover have "\<forall>m \<in> set sample_votes. msg_signer_index m < MAX_VALIDATOR_SIZE"
    by (simp add: sample_votes_def MAX_VALIDATOR_SIZE_def Let_def)
  note once = votes_counted_once [OF this, of "VoteStep 5 0 Prevote" None 1 "ConsensusMessage (VoteOn (VoteStep 5 0 Prevote) None) 14 7", where 'e = unit]
  moreover have "ConsensusMessage (VoteOn (VoteStep 5 0 Prevote) None) 14 7 \<notin> set sample_votes"
    "first_vote sample_votes (VoteStep 5 0 Prevote) 7 \<noteq> None"
    by (simp_all add: sample_votes_def first_vote_def msg_round_def Let_def)
  ultimately show ?thesis by (auto simp: msg_round_def)
qed

end
