(* ===== verification/Block_Header.thy ===== *)
theory Block_Header
  imports Rlp_Codec
begin

text \<open>
  Block headers (\<open>types/src/header.rs\<close>): their fields with the memoised hashes, and their RLP, in which the
  fields of the seal are already encoded and appended as they are. The hash function is a parameter.
\<close>

record header =
  parent_hash :: h256
  timestamp :: u64
  h_number :: u64
  author :: address
  extra_data :: bytes
  transactions_root :: h256
  state_root :: h256
  score :: "256 word"
  seal :: "bytes list"
  memo_hash :: "h256 option"
  memo_bare_hash :: "h256 option"

definition header_default :: "h256 \<Rightarrow> header" where
  "header_default blake_null_rlp = \<lparr>parent_hash = 0, timestamp = 0, h_number = 0, author = 0, extra_data = [],
     transactions_root = blake_null_rlp, state_root = blake_null_rlp, score = 0, seal = [],
     memo_hash = None, memo_bare_hash = None\<rparr>"

definition SIZE_WITHOUT_SEAL :: nat where
  "SIZE_WITHOUT_SEAL = 8"

definition note_dirty :: "header \<Rightarrow> header" where
  "note_dirty h = h\<lparr>memo_hash := None, memo_bare_hash := None\<rparr>"

definition header_fields :: "header \<Rightarrow> rlp_item list" where
  "header_fields h = [hash_item (parent_hash h), hash_item (author h), hash_item (state_root h),
     hash_item (transactions_root h), uint_item (score h), uint_item (h_number h), uint_item (timestamp h),
     RData (extra_data h)]"

fun append_raws :: "bytes list \<Rightarrow> rlp_stream \<Rightarrow> ('e, rlp_stream) result" where
  "append_raws [] s = Ok s"
| "append_raws (b # bs) s = rbind (append_raw b 1 s) (append_raws bs)"

definition stream_rlp :: "header \<Rightarrow> bool \<Rightarrow> rlp_stream \<Rightarrow> ('e, rlp_stream) result" where
  "stream_rlp h with_seal s =
     rbind (begin_list (SIZE_WITHOUT_SEAL + (if with_seal then length (seal h) else 0)) s) (\<lambda>s.
     rbind (append_all (map item_append (header_fields h)) s) (\<lambda>s.
     if with_seal then append_raws (seal h) s else Ok s))"

definition header_rlp :: "header \<Rightarrow> bool \<Rightarrow> ('e, bytes) result" where
  "header_rlp h with_seal = rbind (stream_rlp h with_seal rlp_new) rlp_out"

definition rlp_blake :: "(bytes \<Rightarrow> h256) \<Rightarrow> header \<Rightarrow> bool \<Rightarrow> ('e, h256) result" where
  "rlp_blake blake256 h with_seal = rbind (header_rlp h with_seal) (\<lambda>bs. Ok (blake256 bs))"

definition header_hash :: "(bytes \<Rightarrow> h256) \<Rightarrow> header \<Rightarrow> ('e, h256 \<times> header) result" where
  "header_hash blake256 h = (case memo_hash h of
     Some x \<Rightarrow> Ok (x, h)
   | None \<Rightarrow> rbind (rlp_blake blake256 h True) (\<lambda>x. Ok (x, h\<lparr>memo_hash := Some x\<rparr>)))"

definition header_bare_hash :: "(bytes \<Rightarrow> h256) \<Rightarrow> header \<Rightarrow> ('e, h256 \<times> header) result" where
  "header_bare_hash blake256 h = (case memo_bare_hash h of
     Some x \<Rightarrow> Ok (x, h)
   | None \<Rightarrow> rbind (rlp_blake blake256 h False) (\<lambda>x. Ok (x, h\<lparr>memo_bare_hash := Some x\<rparr>)))"

definition set_parent_hash :: "h256 \<Rightarrow> header \<Rightarrow> header" where
  "set_parent_hash a h = note_dirty (h\<lparr>parent_hash := a\<rparr>)"

definition set_timestamp :: "u64 \<Rightarrow> header \<Rightarrow> header" where
  "set_timestamp a h = note_dirty (h\<lparr>timestamp := a\<rparr>)"

definition set_number :: "u64 \<Rightarrow> header \<Rightarrow> header" where
  "set_number a h = note_dirty (h\<lparr>h_number := a\<rparr>)"

definition set_author :: "address \<Rightarrow> header \<Rightarrow> header" where
  "set_author a h = (if a \<noteq> author h then note_dirty (h\<lparr>author := a\<rparr>) else h)"

definition set_extra_data :: "bytes \<Rightarrow> header \<Rightarrow> header" where
  "set_extra_data a h = (if a \<noteq> extra_data h then note_dirty (h\<lparr>extra_data := a\<rparr>) else h)"

definition extra_data_mut :: "(bytes \<Rightarrow> bytes) \<Rightarrow> header \<Rightarrow> header" where
  "extra_data_mut f h = (note_dirty h)\<lparr>extra_data := f (extra_data h)\<rparr>"

definition set_state_root :: "h256 \<Rightarrow> header \<Rightarrow> header" where
  "set_state_root a h = note_dirty (h\<lparr>state_root := a\<rparr>)"

definition set_transactions_root :: "h256 \<Rightarrow> header \<Rightarrow> header" where
  "set_transactions_root a h = note_dirty (h\<lparr>transactions_root := a\<rparr>)"

definition set_score :: "256 word \<Rightarrow> header \<Rightarrow> header" where
  "set_score a h = note_dirty (h\<lparr>score := a\<rparr>)"

definition set_seal :: "bytes list \<Rightarrow> header \<Rightarrow> header" where
  "set_seal a h = note_dirty (h\<lparr>seal := a\<rparr>)"

text \<open>\<open>set_timestamp_now\<close> and \<open>generate_child\<close>; \<open>now\<close> is the clock in seconds.\<close>

definition set_timestamp_now :: "u64 \<Rightarrow> u64 \<Rightarrow> header \<Rightarrow> header" where
  "set_timestamp_now now but_later_than h = note_dirty (h\<lparr>timestamp := max now but_later_than\<rparr>)"

definition generate_child :: "(bytes \<Rightarrow> h256) \<Rightarrow> h256 \<Rightarrow> u64 \<Rightarrow> header \<Rightarrow> ('e, header) result" where
  "generate_child blake256 blake_null_rlp now h = rbind (header_hash blake256 h) (\<lambda>(x, h).
     Ok (set_timestamp_now now (timestamp h + 1)
       (note_dirty ((header_default blake_null_rlp)\<lparr>parent_hash := x, h_number := h_number h + 1\<rparr>))))"

fun seal_fields_from :: "bytes \<Rightarrow> nat list \<Rightarrow> (rlp_error, bytes list) result" where
  "seal_fields_from bs [] = Ok []"
| "seal_fields_from bs (i # is) = rbind (rlp_at bs i) (\<lambda>b. rbind (seal_fields_from bs is) (\<lambda>rest. Ok (b # rest)))"

definition header_decode :: "(bytes \<Rightarrow> h256) \<Rightarrow> header decoder" where
  "header_decode blake256 bs =
     rbind (val_at hash_decode bs 0) (\<lambda>parent. rbind (val_at hash_decode bs 1) (\<lambda>auth.
     rbind (val_at hash_decode bs 2) (\<lambda>sroot. rbind (val_at hash_decode bs 3) (\<lambda>troot.
     rbind (val_at U256_decode bs 4) (\<lambda>sc. rbind (val_at uint_decode bs 5) (\<lambda>num.
     rbind (val_at U256_decode bs 6) (\<lambda>time. rbind (val_at bytes_decode bs 7) (\<lambda>extra.
     rbind (item_count bs) (\<lambda>n. rbind (seal_fields_from bs [SIZE_WITHOUT_SEAL..<n]) (\<lambda>fields.
     Ok \<lparr>parent_hash = parent, timestamp = ucast (min time (ucast (- 1 :: u64))), h_number = num, author = auth,
       extra_data = extra, transactions_root = troot, state_root = sroot, score = sc, seal = fields,
       memo_hash = Some (blake256 bs), memo_bare_hash = None\<rparr>))))))))))"

section \<open>The bytes of a header\<close>

lemma opened_flag: "(opened n k p f s)\<lparr>finished_list := g\<rparr> = opened n k p g s"
  by (simp add: opened_def)

lemma append_items_open:
  assumes "k + length ts < n"
  shows "\<exists>f'. append_all (map item_append ts) (opened n k p f s) =
    (Ok (opened n (k + length ts) (p @ concat (map rlp_bytes ts)) f' s) :: ('e, _) result)"
  using assms
proof (induction ts arbitrary: k p f)
  case (Cons t ts)
  then have k: "Suc k < n" by simp
  have "\<exists>f'. stream_append (item_append t) (opened n k p f s) = (Ok (opened n (Suc k) (p @ rlp_bytes t) f' s) :: ('e, _) result)"
    using note_open [OF k, of "rlp_bytes t" p f s, where 'a = 'e]
    by (cases t) (auto simp: append_item_counted counted_def set_finished_def opened_flag simp del: item_append.simps rlp_bytes.simps)
  then show ?case using Cons.IH [of "Suc k" "p @ rlp_bytes t"] Cons.prems by (auto simp del: item_append.simps rlp_bytes.simps)
qed auto

lemma note_flag:
  "rbind (note_appended i (s\<lparr>finished_list := f\<rparr>)) (\<lambda>s. Ok (s\<lparr>finished_list := True\<rparr>)) =
     (rbind (note_appended i s) (\<lambda>s. Ok (s\<lparr>finished_list := True\<rparr>)) :: ('e, _) result)"
proof (induction i s rule: note_appended.induct)
  case (1 i s)
  show ?case
  proof (cases "unfinished_lists s")
    case (Cons x xs)
    with 1 [OF Cons refl] show ?thesis
      by (subst (1 2) note_appended.simps) (simp add: Let_def rbind_assoc)
  qed (simp add: note_appended.simps)
qed

lemma append_raw_opened:
  "append_raw b 1 (opened n k p f s) = (note_appended 1 (with_bytes b (opened n k p f s)) :: ('e, _) result)"
  unfolding append_raw_def by (subst (1 2) note_appended.simps) (simp add: opened_def with_bytes_def Let_def note_flag)

lemma append_raws_done: "rbind r (append_raws []) = r"
  by (cases r) simp_all

lemma append_raws_last:
  assumes "bs \<noteq> []" "k + length bs = n"
  shows "append_raws bs (opened n k p f s) =
    (set_finished (note_appended 1 (with_bytes (rlp_header 0xc0 (length (p @ concat bs)) @ p @ concat bs) s)) :: ('e, _) result)"
  using assms
proof (induction bs arbitrary: k p f)
  case (Cons b bs)
  show ?case
  proof (cases "bs = []")
    case True
    then have "Suc k = n" using Cons.prems by simp
    from note_last [OF this, of b p f s] True show ?thesis by (simp only: append_raws.simps append_raw_opened append_raws_done) simp
  next
    case False
    then have k: "Suc k < n" "Suc k + length bs = n" using Cons.prems by (cases bs; simp)+
    have "append_raw b 1 (opened n k p f s) = (Ok (opened n (Suc k) (p @ b) False s) :: ('e, _) result)"
      by (simp only: append_raw_opened note_open [OF k(1)])
    with Cons.IH [OF False k(2), of "p @ b"] show ?thesis by simp
  qed
qed simp

lemma finished_out:
  "rbind (set_finished (note_appended 1 (with_bytes p rlp_new))) rlp_out = Ok p"
  by (simp add: note_appended.simps with_bytes_def rlp_new_def set_finished_def rlp_out_def is_finished_def)

definition header_payload_bytes :: "header \<Rightarrow> bool \<Rightarrow> bytes" where
  "header_payload_bytes h with_seal = concat (map rlp_bytes (header_fields h)) @ (if with_seal then concat (seal h) else [])"

lemma header_rlp_bytes:
  "header_rlp h with_seal = (Ok (rlp_header 0xc0 (length (header_payload_bytes h with_seal)) @ header_payload_bytes h with_seal) :: ('e, _) result)"
proof -
  let ?n = "SIZE_WITHOUT_SEAL + (if with_seal then length (seal h) else 0)"
  have eight: "length (header_fields h) = SIZE_WITHOUT_SEAL" by (simp add: header_fields_def SIZE_WITHOUT_SEAL_def)
  have start: "begin_list ?n rlp_new = (Ok (opened ?n 0 [] False rlp_new) :: ('e, _) result)"
    by (simp add: begin_list_def opened_def rlp_new_def SIZE_WITHOUT_SEAL_def)
  show ?thesis
  proof (cases "with_seal \<and> seal h \<noteq> []")
    case True
    with eight append_items_open [of 0 "header_fields h" ?n "[]" False rlp_new, where 'e = 'e] obtain f where
      "append_all (map item_append (header_fields h)) (opened ?n 0 [] False rlp_new) =
        (Ok (opened ?n SIZE_WITHOUT_SEAL (concat (map rlp_bytes (header_fields h))) f rlp_new) :: ('e, _) result)" by auto
    moreover have "append_raws (seal h) (opened ?n SIZE_WITHOUT_SEAL (concat (map rlp_bytes (header_fields h))) f rlp_new) =
        (set_finished (note_appended 1 (with_bytes (rlp_header 0xc0 (length (header_payload_bytes h True)) @ header_payload_bytes h True) rlp_new)) :: ('e, _) result)"
      using append_raws_last [of "seal h" SIZE_WITHOUT_SEAL ?n "concat (map rlp_bytes (header_fields h))" f rlp_new, where 'e = 'e] True
      by (simp add: header_payload_bytes_def)
    ultimately show ?thesis using start True finished_out
      by (simp add: header_rlp_def stream_rlp_def)
  next
    case False
    then have n: "?n = SIZE_WITHOUT_SEAL" "header_payload_bytes h with_seal = concat (map rlp_bytes (header_fields h))"
      by (auto simp: header_payload_bytes_def)
    have "header_fields h \<noteq> []" by (simp add: header_fields_def)
    from append_items_last [OF append_item_counted this, of 0 ?n "[]" False rlp_new, where 'e = 'e] eight n
    have "append_all (map item_append (header_fields h)) (opened ?n 0 [] False rlp_new) =
        (set_finished (note_appended 1 (with_bytes (rlp_header 0xc0 (length (header_payload_bytes h with_seal)) @ header_payload_bytes h with_seal) rlp_new)) :: ('e, _) result)"
      by simp
    moreover have "(\<lambda>s. if with_seal then append_raws (seal h) s else Ok s) = (Ok :: _ \<Rightarrow> ('e, _) result)"
      using False by (auto simp: fun_eq_iff)
    ultimately show ?thesis using start finished_out [where 'a = 'e]
      by (simp add: header_rlp_def stream_rlp_def rbind_assoc)
  qed
qed

section \<open>Reading a header back\<close>

lemma U256_of_uint:
  fixes w :: "'a::len word"
  assumes "8 dvd LENGTH('a)" "LENGTH('a) \<le> 256" "length (rlp_bytes (uint_item w)) < 2 ^ 32"
  shows "U256_decode (rlp_bytes (uint_item w)) = Ok (ucast w)"
proof -
  let ?bs = "minimal_bytes w"
  have "length ?bs * 8 \<le> LENGTH('a)" using minimal_bytes_length [of w] assms(1) by (metis dvd_div_mult_self mult_le_mono1)
  from unat_be_sum [OF this] be_sum_minimal [OF assms(1), of w] have "be_val ?bs = unat w" by simp
  then have "(of_be_bytes ?bs :: 256 word) = ucast w"
    by (simp add: be_sum_val flip: be_sum_eq)
  moreover have "length ?bs \<le> 32" using minimal_bytes_length [of w] assms(2) by simp
  moreover have "\<not> (?bs \<noteq> [] \<and> hd ?bs = 0)" using minimal_bytes_head [OF assms(1), of w] by (cases ?bs) auto
  ultimately show ?thesis
    using assms(3) by (simp add: U256_decode_def uint_item_def decode_value_item del: rlp_bytes.simps)
qed

lemma seal_fields_from_items:
  assumes "length (rlp_bytes (RList ts)) < 2 ^ 32" "\<forall>i \<in> set is. i < length ts"
  shows "seal_fields_from (rlp_bytes (RList ts)) is = Ok (map (\<lambda>i. rlp_bytes (ts ! i)) is)"
  using assms(2) by (induction "is") (simp_all add: rlp_at_item [OF assms(1)] del: rlp_bytes.simps)

lemma clip_timestamp: "min (ucast t) (ucast (- 1 :: u64)) = (ucast (t :: u64) :: 256 word)"
proof -
  have "unat t \<le> unat (- 1 :: u64)" by (simp add: word_le_nat_alt [symmetric])
  moreover have "unat (ucast x :: 256 word) = unat x" for x :: u64
    using less_trans [OF unsigned_less [of x, where 'a = nat], of "2 ^ 256"] by (simp add: unsigned_ucast_eq take_bit_nat_eq_self)
  ultimately have "(ucast t :: 256 word) \<le> ucast (- 1 :: u64)" by (simp only: word_le_nat_alt)
  then show ?thesis by (simp add: min_absorb1)
qed

lemma header_roundtrip:
  assumes "seal h = map rlp_bytes ts" "header_rlp h True = (Ok bs :: ('e, _) result)" "length bs < 2 ^ 32"
  shows "header_decode blake256 bs = Ok (h\<lparr>memo_hash := Some (blake256 bs), memo_bare_hash := None\<rparr>)"
proof -
  let ?ts = "header_fields h @ ts"
  have bs: "bs = rlp_bytes (RList ?ts)"
    using assms(1,2) by (simp add: header_rlp_bytes header_payload_bytes_def Let_def)
  then have len: "length (rlp_bytes (RList ?ts)) < 2 ^ 32" using assms(3) by simp
  have eight: "length (header_fields h) = 8" by (simp add: header_fields_def)
  have time: "val_at U256_decode (rlp_bytes (RList ?ts)) 6 = Ok (ucast (timestamp h))"
  proof -
    have "uint_item (timestamp h) \<in> set ?ts" by (simp add: header_fields_def)
    from U256_of_uint [OF _ _ nested_bytes [OF len this]] rlp_at_item(1) [OF len, of 6] eight show ?thesis
      by (simp add: val_at_def header_fields_def del: rlp_bytes.simps)
  qed
  have "seal_fields_from (rlp_bytes (RList ?ts)) [8..<length ?ts] = Ok (map (\<lambda>i. rlp_bytes (?ts ! i)) [8..<length ?ts])"
    by (rule seal_fields_from_items [OF len]) simp
  moreover have "map (\<lambda>i. rlp_bytes (?ts ! i)) [8..<length ?ts] = seal h"
    using assms(1) eight by (intro nth_equalityI) (simp_all add: nth_append)
  moreover have "val_at hash_decode (rlp_bytes (RList ?ts)) 0 = Ok (parent_hash h)"
    "val_at hash_decode (rlp_bytes (RList ?ts)) 1 = Ok (author h)"
    "val_at hash_decode (rlp_bytes (RList ?ts)) 2 = Ok (state_root h)"
    "val_at hash_decode (rlp_bytes (RList ?ts)) 3 = Ok (transactions_root h)"
    by (rule hash_rlp.val_at_item [OF len]; simp add: header_fields_def)+
  moreover have "val_at U256_decode (rlp_bytes (RList ?ts)) 4 = Ok (score h)"
    by (rule U256_rlp.val_at_item [OF len]) (simp_all add: header_fields_def)
  moreover have "val_at uint_decode (rlp_bytes (RList ?ts)) 5 = Ok (h_number h)"
    by (rule uint_rlp.val_at_item [OF len]) (simp_all add: header_fields_def)
  moreover have "val_at bytes_decode (rlp_bytes (RList ?ts)) 7 = Ok (extra_data h)"
    by (rule bytes_rlp.val_at_item [OF len]) (simp_all add: header_fields_def)
  moreover have "ucast (min (ucast (timestamp h)) (ucast (- 1 :: u64)) :: 256 word) = timestamp h"
    unfolding clip_timestamp by (rule bit_word_eqI) (simp add: bit_ucast_iff)
  ultimately show ?thesis
    unfolding bs header_decode_def using time rlp_iter_items(2) [OF len] eight
    by (simp add: SIZE_WITHOUT_SEAL_def del: rlp_bytes.simps)
qed

section \<open>Memoised hashes\<close>

text \<open>A header is well-formed when each memoised hash is the hash of its present fields. The calls of the public interface:\<close>

datatype header_call =
    SetParentHash h256 | SetTimestamp u64 | SetTimestampNow u64 u64 | SetNumber u64 | SetAuthor address
  | SetExtraData bytes | ExtraDataMut "bytes \<Rightarrow> bytes" | SetStateRoot h256 | SetTransactionsRoot h256
  | SetScore "256 word" | SetSeal "bytes list" | GetHash | GetBareHash

fun run_call :: "(bytes \<Rightarrow> h256) \<Rightarrow> header_call \<Rightarrow> header \<Rightarrow> ('e, header) result" where
  "run_call bl (SetParentHash a) h = Ok (set_parent_hash a h)"
| "run_call bl (SetTimestamp a) h = Ok (set_timestamp a h)"
| "run_call bl (SetTimestampNow now a) h = Ok (set_timestamp_now now a h)"
| "run_call bl (SetNumber a) h = Ok (set_number a h)"
| "run_call bl (SetAuthor a) h = Ok (set_author a h)"
| "run_call bl (SetExtraData a) h = Ok (set_extra_data a h)"
| "run_call bl (ExtraDataMut f) h = Ok (extra_data_mut f h)"
| "run_call bl (SetStateRoot a) h = Ok (set_state_root a h)"
| "run_call bl (SetTransactionsRoot a) h = Ok (set_transactions_root a h)"
| "run_call bl (SetScore a) h = Ok (set_score a h)"
| "run_call bl (SetSeal a) h = Ok (set_seal a h)"
| "run_call bl GetHash h = rbind (header_hash bl h) (\<lambda>(_, h'). Ok h')"
| "run_call bl GetBareHash h = rbind (header_bare_hash bl h) (\<lambda>(_, h'). Ok h')"

definition payload_hash :: "(bytes \<Rightarrow> h256) \<Rightarrow> header \<Rightarrow> bool \<Rightarrow> h256" where
  "payload_hash bl h with_seal = bl (rlp_header 0xc0 (length (header_payload_bytes h with_seal)) @ header_payload_bytes h with_seal)"

definition memo_ok :: "(bytes \<Rightarrow> h256) \<Rightarrow> header \<Rightarrow> bool" where
  "memo_ok bl h \<longleftrightarrow> memo_hash h \<in> {None, Some (payload_hash bl h True)} \<and> memo_bare_hash h \<in> {None, Some (payload_hash bl h False)}"

lemma rlp_blake_payload: "rlp_blake bl h with_seal = Ok (payload_hash bl h with_seal)"
  by (simp add: rlp_blake_def header_rlp_bytes payload_hash_def)

lemma payload_hash_memo [simp]:
  "payload_hash bl (h\<lparr>memo_hash := x\<rparr>) = payload_hash bl h" "payload_hash bl (h\<lparr>memo_bare_hash := x\<rparr>) = payload_hash bl h"
  by (simp_all add: fun_eq_iff payload_hash_def header_payload_bytes_def header_fields_def)

lemma memo_ok_dirty: "memo_hash h = None \<Longrightarrow> memo_bare_hash h = None \<Longrightarrow> memo_ok bl h"
  by (simp add: memo_ok_def)

lemma header_call_memo:
  assumes "memo_ok bl h"
  obtains h' where "run_call bl c h = (Ok h' :: ('e, _) result)" "memo_ok bl h'"
proof -
  have "\<exists>h'. run_call bl c h = (Ok h' :: ('e, _) result) \<and> memo_ok bl h'"
  proof (cases c)
    case GetHash
    with assms show ?thesis by (auto simp: header_hash_def rlp_blake_payload memo_ok_def split: option.split)
  next
    case GetBareHash
    with assms show ?thesis by (auto simp: header_bare_hash_def rlp_blake_payload memo_ok_def split: option.split)
  qed (use assms in \<open>auto simp: set_parent_hash_def set_timestamp_def set_timestamp_now_def set_number_def set_author_def set_extra_data_def
      extra_data_mut_def set_state_root_def set_transactions_root_def set_score_def set_seal_def note_dirty_def memo_ok_dirty\<close>)
  then show ?thesis using that by blast
qed

text \<open>
  C40: a header never reports a stale hash. After any sequence of calls of its interface on a new header, with hashes asked for in between,
  all calls succeed, and the hashes it reports are those of the encoding of its present fields, with and without the seal.
\<close>

theorem header_hash_fresh:
  "\<exists>h h1 h2. rfold (run_call bl) calls (header_default n) = (Ok h :: ('e, _) result) \<and>
     header_hash bl h = (Ok (payload_hash bl h True, h1) :: ('e, _) result) \<and>
     header_bare_hash bl h = (Ok (payload_hash bl h False, h2) :: ('e, _) result) \<and>
     rlp_blake bl h True = (Ok (payload_hash bl h True) :: ('e, _) result) \<and> rlp_blake bl h False = (Ok (payload_hash bl h False) :: ('e, _) result)"
proof -
  have "\<exists>h. rfold (run_call bl) calls g = (Ok h :: ('e, _) result) \<and> memo_ok bl h" if "memo_ok bl g" for g
    using that
  proof (induction calls arbitrary: g)
    case (Cons c calls)
    from header_call_memo [OF Cons.prems, where 'e = 'e and c = c]
    obtain g' where "run_call bl c g = (Ok g' :: ('e, _) result)" "memo_ok bl g'" .
    then show ?case using Cons.IH [of g'] by simp
  qed simp
  then obtain h where h: "rfold (run_call bl) calls (header_default n) = (Ok h :: ('e, _) result)" "memo_ok bl h"
    using memo_ok_dirty [of "header_default n" bl] by (auto simp: header_default_def)
  then show ?thesis
    by (auto simp: header_hash_def header_bare_hash_def rlp_blake_payload memo_ok_def split: option.split)
qed

end
