(* ===== verification/Validator_Set.thy ===== *)
theory Validator_Set
  imports Stake_Data Bit_Set Block_Header
begin

text \<open>
  Who may sign (\<open>core/src/consensus/validator_set/validator_list.rs\<close>, \<open>dynamic_validator.rs\<close>): the fixed list of the
  first term, taken in turns, and the elected validators of later terms, weighted by their delegations. The
  node's chain is a record of the queries that the validator sets make. \<open>quorum_system\<close> is what the
  rest of consensus relies on: two sets of votes that are enough share more than a third of the weight.
\<close>

datatype engine_error =
    BlockNotAuthorized address
  | MessageWithInvalidSignature u64 nat address
  | FutureMessage u64 u64
  | ValidatorNotExist u64 nat
  | PrevBlockNotExist u64
  | EngineDoubleVote address
  | NotProposer address address
  | UnexpectedMessage
  | BadSealFieldSize "nat option" "nat option" nat
  | MalformedMessage string
  | CannotOpenBlock

record consensus_client =
  block_header :: "h256 \<Rightarrow> header option"
  current_term_id :: "h256 \<Rightarrow> u64 option"
  state_at :: "h256 \<Rightarrow> stake_data top_state option"

section \<open>The fixed list\<close>

record round_robin =
  rr_validators :: "public list"
  rr_client :: "consensus_client option"

definition rr_new :: "public list \<Rightarrow> round_robin" where
  "rr_new vs = \<lparr>rr_validators = vs, rr_client = None\<rparr>"

definition rr_contains :: "round_robin \<Rightarrow> public \<Rightarrow> bool" where
  "rr_contains rr p \<longleftrightarrow> p \<in> set (rr_validators rr)"

definition rr_contains_address :: "(public \<Rightarrow> address) \<Rightarrow> round_robin \<Rightarrow> address \<Rightarrow> bool" where
  "rr_contains_address adr rr a \<longleftrightarrow> a \<in> adr ` set (rr_validators rr)"

definition rr_get :: "round_robin \<Rightarrow> nat \<Rightarrow> ('e, public) result" where
  "rr_get rr index =
     (let validator_n = length (rr_validators rr) in
      rbind (rassert ''Cannot operate with an empty validator set.'' (validator_n \<noteq> 0)) (\<lambda>_.
      Ok (rr_validators rr ! (index mod validator_n))))"

text \<open>\<open>iter().position(p)\<close>\<close>

fun find_index :: "('a \<Rightarrow> bool) \<Rightarrow> 'a list \<Rightarrow> nat option" where
  "find_index P [] = None"
| "find_index P (x # xs) = (if P x then Some 0 else map_option Suc (find_index P xs))"

definition rr_get_index :: "round_robin \<Rightarrow> public \<Rightarrow> nat option" where
  "rr_get_index rr p = find_index (\<lambda>v. v = p) (rr_validators rr)"

definition rr_get_index_by_address :: "(public \<Rightarrow> address) \<Rightarrow> round_robin \<Rightarrow> address \<Rightarrow> nat option" where
  "rr_get_index_by_address adr rr a = find_index (\<lambda>v. adr v = a) (rr_validators rr)"

definition rr_next_block_proposer :: "(public \<Rightarrow> address) \<Rightarrow> round_robin \<Rightarrow> h256 \<Rightarrow> u64 \<Rightarrow> ('e, address option) result" where
  "rr_next_block_proposer adr rr parent view = (case rr_client rr of
     None \<Rightarrow> Ok None
   | Some client \<Rightarrow> (case block_header client parent of
       None \<Rightarrow> Ok None
     | Some h \<Rightarrow>
         rbind (expect ''The proposer must be in the validator set'' (rr_get_index_by_address adr rr (author h))) (\<lambda>prev_proposer_idx.
         rbind (rr_get rr ((prev_proposer_idx + 1 + unat view) mod 2 ^ 64)) (\<lambda>p. Ok (Some (adr p))))))"

definition rr_count :: "round_robin \<Rightarrow> nat" where
  "rr_count rr = length (rr_validators rr)"

definition rr_check_enough_votes :: "round_robin \<Rightarrow> bit_set \<Rightarrow> (engine_error, unit) result" where
  "rr_check_enough_votes rr votes =
     (let validator_count = rr_count rr; voted = bs_count votes in
      if validator_count * 2 < voted * 3 then Ok ()
      else Error (BadSealFieldSize (Some (validator_count * 2 div 3)) None voted))"

definition rr_addresses :: "(public \<Rightarrow> address) \<Rightarrow> round_robin \<Rightarrow> address list" where
  "rr_addresses adr rr = map adr (rr_validators rr)"

section \<open>The elected validators\<close>

record dynamic_validator =
  initial_list :: round_robin
  dv_client :: "consensus_client option"

definition dv_new :: "public list \<Rightarrow> dynamic_validator" where
  "dv_new vs = \<lparr>initial_list = rr_new vs, dv_client = None\<rparr>"

definition register_client :: "consensus_client \<Rightarrow> dynamic_validator \<Rightarrow> ('e, dynamic_validator) result" where
  "register_client client dv = rbind (rassert ''client_lock.is_none()'' (dv_client dv = None)) (\<lambda>_.
     Ok (dv\<lparr>initial_list := (initial_list dv)\<lparr>rr_client := Some client\<rparr>, dv_client := Some client\<rparr>))"

definition dv_validators :: "dynamic_validator \<Rightarrow> h256 \<Rightarrow> ('e, validator list option) result" where
  "dv_validators dv parent =
     rbind (expect ''Client is not initialized'' (dv_client dv)) (\<lambda>client.
     rbind (expect ''valdators() is called when creating a block or verifying a block.'' (current_term_id client parent)) (\<lambda>term_id.
     if term_id = 0 then Ok None
     else case state_at client parent of
       None \<Rightarrow> Ok None
     | Some state \<Rightarrow>
         let vs = validators (action_data state) in
         if vs = [] then Ok None else Ok (Some (rev vs))))"

definition dv_validators_pubkey :: "dynamic_validator \<Rightarrow> h256 \<Rightarrow> ('e, public list option) result" where
  "dv_validators_pubkey dv parent = rbind (dv_validators dv parent) (\<lambda>vs. Ok (map_option (map v_pubkey) vs))"

definition dv_proposer_index :: "dynamic_validator \<Rightarrow> h256 \<Rightarrow> nat \<Rightarrow> nat \<Rightarrow> ('e, nat) result" where
  "dv_proposer_index dv parent prev_proposer_index proposed_view =
     rbind (dv_validators dv parent) (\<lambda>vs. case vs of
       Some vs \<Rightarrow> Ok (proposed_view mod length vs)
     | None \<Rightarrow>
         let n = rr_count (initial_list dv) in
         rbind (rassert ''attempt to calculate the remainder with a divisor of zero'' (n \<noteq> 0)) (\<lambda>_.
         Ok ((prev_proposer_index + proposed_view + 1) mod 2 ^ 64 mod n)))"

definition dv_contains :: "dynamic_validator \<Rightarrow> h256 \<Rightarrow> public \<Rightarrow> ('e, bool) result" where
  "dv_contains dv parent p = rbind (dv_validators_pubkey dv parent) (\<lambda>vs. case vs of
     Some vs \<Rightarrow> Ok (p \<in> set vs) | None \<Rightarrow> Ok (rr_contains (initial_list dv) p))"

definition dv_contains_address :: "(public \<Rightarrow> address) \<Rightarrow> dynamic_validator \<Rightarrow> h256 \<Rightarrow> address \<Rightarrow> ('e, bool) result" where
  "dv_contains_address adr dv parent a = rbind (dv_validators_pubkey dv parent) (\<lambda>vs. case vs of
     Some vs \<Rightarrow> Ok (a \<in> adr ` set vs) | None \<Rightarrow> Ok (rr_contains_address adr (initial_list dv) a))"

definition dv_get :: "dynamic_validator \<Rightarrow> h256 \<Rightarrow> nat \<Rightarrow> ('e, public) result" where
  "dv_get dv parent index = rbind (dv_validators_pubkey dv parent) (\<lambda>vs. case vs of
     Some vs \<Rightarrow> Ok (vs ! (index mod length vs)) | None \<Rightarrow> rr_get (initial_list dv) index)"

definition dv_get_index :: "dynamic_validator \<Rightarrow> h256 \<Rightarrow> public \<Rightarrow> ('e, nat option) result" where
  "dv_get_index dv parent p = rbind (dv_validators_pubkey dv parent) (\<lambda>vs. case vs of
     Some vs \<Rightarrow> Ok (find_index (\<lambda>v. v = p) vs) | None \<Rightarrow> Ok (rr_get_index (initial_list dv) p))"

definition dv_get_index_by_address :: "(public \<Rightarrow> address) \<Rightarrow> dynamic_validator \<Rightarrow> h256 \<Rightarrow> address \<Rightarrow> ('e, nat option) result" where
  "dv_get_index_by_address adr dv parent a = rbind (dv_validators_pubkey dv parent) (\<lambda>vs. case vs of
     Some vs \<Rightarrow> Ok (find_index (\<lambda>v. adr v = a) vs) | None \<Rightarrow> Ok (rr_get_index_by_address adr (initial_list dv) a))"

definition dv_next_block_proposer :: "(public \<Rightarrow> address) \<Rightarrow> dynamic_validator \<Rightarrow> h256 \<Rightarrow> u64 \<Rightarrow> ('e, address option) result" where
  "dv_next_block_proposer adr dv parent view = rbind (dv_validators_pubkey dv parent) (\<lambda>vs. case vs of
     Some vs \<Rightarrow> Ok (Some (adr (vs ! (unat view mod length vs))))
   | None \<Rightarrow> rr_next_block_proposer adr (initial_list dv) parent view)"

definition dv_count :: "dynamic_validator \<Rightarrow> h256 \<Rightarrow> ('e, nat) result" where
  "dv_count dv parent = rbind (dv_validators dv parent) (\<lambda>vs. case vs of
     Some vs \<Rightarrow> Ok (length vs) | None \<Rightarrow> Ok (rr_count (initial_list dv)))"

fun voted_delegation :: "validator list \<Rightarrow> nat list \<Rightarrow> u64 \<Rightarrow> (engine_error, u64) result" where
  "voted_delegation vs [] acc = Ok acc"
| "voted_delegation vs (index # rest) acc =
     rbind (rassert ''index < n_validators'' (index < length vs)) (\<lambda>_.
     voted_delegation vs rest (acc + v_delegation (vs ! index)))"

definition dv_check_enough_votes :: "dynamic_validator \<Rightarrow> h256 \<Rightarrow> bit_set \<Rightarrow> (engine_error, unit) result" where
  "dv_check_enough_votes dv parent votes = rbind (dv_validators dv parent) (\<lambda>vs. case vs of
     Some vs \<Rightarrow>
       rbind (voted_delegation vs (true_index_iter votes) 0) (\<lambda>voted.
       let total = sum_list (map v_delegation vs) in
       if total * 2 < voted * 3 then Ok ()
       else Error (BadSealFieldSize (Some (unat total * 2 mod 2 ^ 64 div 3)) (Some (unat total)) (unat voted)))
   | None \<Rightarrow> rr_check_enough_votes (initial_list dv) votes)"

definition dv_addresses :: "(public \<Rightarrow> address) \<Rightarrow> dynamic_validator \<Rightarrow> h256 \<Rightarrow> ('e, address list) result" where
  "dv_addresses adr dv parent = rbind (dv_validators_pubkey dv parent) (\<lambda>vs. case vs of
     Some vs \<Rightarrow> Ok (map adr vs) | None \<Rightarrow> Ok (rr_addresses adr (initial_list dv)))"

section \<open>Quorums\<close>

locale quorum_system =
  fixes members :: "'i set" and weight :: "'i \<Rightarrow> nat" and enough :: "'i set \<Rightarrow> bool"
  assumes members_finite: "finite members"
    and enough_members: "enough S \<Longrightarrow> S \<subseteq> members"
    and enough_weight: "enough S \<Longrightarrow> 2 * sum weight members < 3 * sum weight S"
begin

lemma quorums_overlap:
  assumes "enough S" "enough T"
  shows "sum weight members < 3 * sum weight (S \<inter> T)"
proof -
  have fin: "finite S" "finite T"
    using assms enough_members members_finite by (auto intro: finite_subset)
  have "sum weight (S \<union> T) \<le> sum weight members"
    using assms enough_members members_finite by (intro sum_mono2) auto
  moreover have "sum weight (S \<union> T) + sum weight (S \<inter> T) = sum weight S + sum weight T"
    using sum.union_inter [OF fin] .
  ultimately show ?thesis using enough_weight [OF assms(1)] enough_weight [OF assms(2)] by simp
qed

lemma quorum_not_empty: "enough S \<Longrightarrow> S \<noteq> {}"
  using enough_weight by fastforce

end

definition bits_of :: "bit_set \<Rightarrow> nat set" where
  "bits_of bs = set (true_index_iter bs)"

lemma bits_of_iff: "i \<in> bits_of bs \<longleftrightarrow> i < 800 \<and> bit_at bs i"
  by (auto simp: bits_of_def true_index_iter_eq MAX_VALIDATOR_SIZE_def)

lemma bits_of_card: "bs_ok bs \<Longrightarrow> card (bits_of bs) = bs_count bs"
proof -
  assume "bs_ok bs"
  then have "length (true_index_iter bs) = bs_count bs"
    using count_blocks [of bs] by (simp add: true_index_iter_eq bs_ok_def MAX_VALIDATOR_SIZE_def BITSET_SIZE_def)
  moreover have "distinct (true_index_iter bs)" by (simp add: true_index_iter_eq)
  ultimately show ?thesis by (simp add: bits_of_def distinct_card)
qed

text \<open>The fixed list: every validator weighs the same. The check itself does not look whether the bits name
  validators, so that this is a condition here.\<close>

definition rr_enough :: "round_robin \<Rightarrow> nat set \<Rightarrow> bool" where
  "rr_enough rr S \<longleftrightarrow> S \<subseteq> {..<rr_count rr} \<and>
     (\<exists>votes. bs_ok votes \<and> S = bits_of votes \<and> rr_check_enough_votes rr votes = Ok ())"

interpretation rr: quorum_system "{..<rr_count rr}" "\<lambda>_. 1" "rr_enough rr" for rr
proof
  fix S assume "rr_enough rr S"
  then show "2 * sum (\<lambda>_. 1 :: nat) {..<rr_count rr} < 3 * sum (\<lambda>_. 1) S"
    by (auto simp: rr_enough_def rr_check_enough_votes_def Let_def bits_of_card split: if_splits)
qed (auto simp: rr_enough_def)

text \<open>The elected validators: each weighs its delegation, and the check asserts that the bits name validators.\<close>

definition delegation_at :: "validator list \<Rightarrow> nat \<Rightarrow> nat" where
  "delegation_at vs i = unat (v_delegation (vs ! i))"

definition delegated :: "validator list \<Rightarrow> nat" where
  "delegated vs = (\<Sum>v\<leftarrow>vs. unat (v_delegation v))"

lemma delegated_sum: "delegated vs = sum (delegation_at vs) {..<length vs}"
  by (simp add: delegated_def delegation_at_def sum_list_sum_nth atLeast0LessThan)

lemma voted_delegation_run:
  assumes "voted_delegation vs is acc = Ok r" "distinct is" "unat acc + delegated vs < 2 ^ 64"
  shows "set is \<subseteq> {..<length vs} \<and> unat r = unat acc + sum (delegation_at vs) (set is)"
proof -
  have "set is \<subseteq> {..<length vs} \<and> r = acc + of_nat (sum_list (map (delegation_at vs) is))"
    using assms(1)
  proof (induction vs "is" acc rule: voted_delegation.induct)
    case (2 vs index rest acc)
    from "2.prems" have "index < length vs" "voted_delegation vs rest (acc + v_delegation (vs ! index)) = Ok r"
      by (auto simp: rbind_eq_Ok_iff)
    with "2.IH" show ?case by (auto simp: delegation_at_def add.assoc)
  qed simp
  moreover from this have "sum (delegation_at vs) (set is) \<le> delegated vs"
    unfolding delegated_sum by (intro sum_mono2) auto
  moreover have "sum_list (map (delegation_at vs) is) = sum (delegation_at vs) (set is)"
    using assms(2) by (simp add: sum_list_distinct_conv_sum_set)
  ultimately show ?thesis
    using assms(3) by (auto simp: unat_word_ariths unat_of_nat simp del: of_nat_sum)
qed

definition dv_enough :: "validator list \<Rightarrow> nat set \<Rightarrow> bool" where
  "dv_enough vs S \<longleftrightarrow> 3 * delegated vs < 2 ^ 64 \<and>
     (\<exists>dv parent votes. dv_validators dv parent = (Ok (Some vs) :: (engine_error, _) result) \<and>
        S = bits_of votes \<and> dv_check_enough_votes dv parent votes = Ok ())"

lemma delegated_word: "delegated vs < 2 ^ 64 \<Longrightarrow> unat (sum_list (map v_delegation vs)) = delegated vs"
  using unat_sum_list_le [of "map v_delegation vs"] by (simp add: delegated_def comp_def)

interpretation dv: quorum_system "{..<length vs}" "delegation_at vs" "dv_enough vs" for vs
proof
  fix S assume "dv_enough vs S"
  then obtain dv parent votes where small: "3 * delegated vs < 2 ^ 64"
    and vs: "dv_validators dv parent = (Ok (Some vs) :: (engine_error, _) result)"
    and S: "S = bits_of votes" and ok: "dv_check_enough_votes dv parent votes = Ok ()"
    by (auto simp: dv_enough_def)
  from ok vs obtain r where r: "voted_delegation vs (true_index_iter votes) 0 = Ok r"
    and more: "sum_list (map v_delegation vs) * 2 < r * 3"
    by (auto simp: dv_check_enough_votes_def rbind_eq_Ok_iff Let_def split: if_splits)
  have "distinct (true_index_iter votes)" by (simp add: true_index_iter_eq)
  with voted_delegation_run [OF r] small S have run: "S \<subseteq> {..<length vs}" "unat r = sum (delegation_at vs) S"
    by (auto simp: bits_of_def)
  then have "sum (delegation_at vs) S \<le> delegated vs" unfolding delegated_sum by (intro sum_mono2) auto
  with more small run(2) delegated_word [of vs] show "2 * sum (delegation_at vs) {..<length vs} < 3 * sum (delegation_at vs) S"
    by (simp add: word_less_nat_alt unat_word_ariths delegated_sum)
  show "S \<subseteq> {..<length vs}" by (rule run)
qed simp

end
