(* ===== verification/Core_Error.thy ===== *)
theory Core_Error
  imports Validator_Set Tx_Syntax
begin

text \<open>
  The errors of block processing (\<open>core/src/error.rs\<close>). A \<open>Mismatch\<close> is given by the expected and the found value, an
  \<open>OutOfBounds\<close> by the smallest, the largest and the found value (\<open>types/src/util/unexpected.rs\<close>). Of the general
  error the variants are kept that the modelled code raises.
\<close>

type_synonym u256 = "256 word"

datatype import_error = AlreadyInChain | AlreadyQueued | KnownBad

datatype block_error =
    ExtraDataOutOfBounds "nat option" "nat option" nat
  | InvalidSealArity nat nat
  | InvalidStateRoot h256 h256
  | InvalidTransactionsRoot h256 h256
  | ScoreOutOfBounds "u256 option" "u256 option" u256
  | InvalidScore u256 u256
  | InvalidProofOfWork
  | PowOutOfBounds "u256 option" "u256 option" u256
  | InvalidSeal
  | InvalidTimestamp "u64 option" "u64 option" u64
  | TemporarilyInvalid "u64 option" "u64 option" u64
  | InvalidParentHash h256 h256
  | InvalidNumber u64 u64
  | RidiculousNumber "u64 option" "u64 option" u64
  | TooManyTransactions address
  | UnknownParent h256
  | BodySizeIsTooBig

datatype core_error =
    UtilErr rlp_error
  | BlockErr block_error
  | ImportErr import_error
  | EngineErr engine_error
  | KeyErr
  | SyntaxErr syntax_error
  | StateErr state_error

end
