(* ===== verification/Tendermint_Seal.thy ===== *)
theory Tendermint_Seal
  imports Core_Error Vote_Collector
begin

text \<open>
  The verification of sealed headers (\<open>core/src/consensus/tendermint/worker.rs\<close>: \<open>verify_header_basic\<close>,
  \<open>verify_block_external\<close>; \<open>types.rs\<close>: \<open>TendermintSealView\<close>): the seal of a block carries the precommits of its
  parent, as a bit set of validator indices and one signature per bit. Signature verification and hashing are
  parameters.
\<close>

section \<open>The fields of a seal\<close>

definition SEAL_FIELDS :: nat where
  "SEAL_FIELDS = 4"

definition seal_field :: "nat \<Rightarrow> bytes list \<Rightarrow> ('e, bytes) result" where
  "seal_field i sl = expect ''block went through verify_block_basic; block has .seal_fields() fields; qed''
     (if i < length sl then Some (sl ! i) else None)"

definition previous_block_view :: "bytes list \<Rightarrow> (rlp_error, u64) result" where
  "previous_block_view sl = rbind (seal_field 0 sl) uint_decode"

definition consensus_view :: "bytes list \<Rightarrow> (rlp_error, u64) result" where
  "consensus_view sl = rbind (seal_field 1 sl) uint_decode"

definition seal_bitset :: "bytes list \<Rightarrow> (rlp_error, bit_set) result" where
  "seal_bitset sl = rbind (seal_field 3 sl) bitset_decode"

definition precommits :: "bytes list \<Rightarrow> (rlp_error, bytes) result" where
  "precommits sl = seal_field 2 sl"

fun zip_signatures :: "nat list \<Rightarrow> bytes list \<Rightarrow> (rlp_error, (nat \<times> schnorr_signature) list) result" where
  "zip_signatures (i # is) (b # bs) =
     rbind (hash_decode b) (\<lambda>sig. rbind (zip_signatures is bs) (\<lambda>rest. Ok ((i, sig) # rest)))"
| "zip_signatures is bs = Ok []"

definition seal_signatures :: "bytes list \<Rightarrow> (rlp_error, (nat \<times> schnorr_signature) list) result" where
  "seal_signatures sl =
     rbind (precommits sl) (\<lambda>pc. rbind (seal_bitset sl) (\<lambda>bitset.
     zip_signatures (true_index_iter bitset) (rlp_iter pc)))"

text \<open>\<open>Seal::seal_fields\<close>: what an engine puts into a header.\<close>

datatype engine_seal =
    SoloSeal
  | SimplePoASeal schnorr_signature
  | TendermintSeal (prev_view: u64) (cur_view: u64) (seal_precommits: "schnorr_signature list") (precommit_bitset: bit_set)
  | NoSeal

fun seal_fields :: "engine_seal \<Rightarrow> bytes list option" where
  "seal_fields NoSeal = None"
| "seal_fields SoloSeal = Some []"
| "seal_fields (SimplePoASeal sig) = Some [rlp_bytes (hash_item sig)]"
| "seal_fields (TendermintSeal pv cv sigs bits) =
     Some [rlp_bytes (uint_item pv), rlp_bytes (uint_item cv), rlp_bytes (RList (map hash_item sigs)), rlp_bytes (bitset_item bits)]"

section \<open>Verifying a header\<close>

record worker_env =
  w_validators :: dynamic_validator
  w_client :: consensus_client

record schnorr_lib =
  pub_address :: "public \<Rightarrow> address"
  verify_schnorr :: "public \<Rightarrow> schnorr_signature \<Rightarrow> h256 \<Rightarrow> bool option"
  blake256 :: "bytes \<Rightarrow> h256"

text \<open>\<open>u256_from_u128(MAX) * height - view\<close>: the subtraction of the library panics below zero.\<close>

definition calculate_score :: "u64 \<Rightarrow> u64 \<Rightarrow> ('e, 256 word) result" where
  "calculate_score height view =
     (let m = of_nat (2 ^ 128 - 1) * ucast height :: 256 word in
      rbind (rassert ''arithmetic operation overflow'' (ucast view \<le> m)) (\<lambda>_. Ok (m - ucast view)))"

definition verify_header_basic :: "header \<Rightarrow> (core_error, unit) result" where
  "verify_header_basic h =
     (if length (seal h) \<noteq> SEAL_FIELDS then Error (BlockErr (InvalidSealArity SEAL_FIELDS (length (seal h))))
      else
        rbind (case consensus_view (seal h) of Inr v \<Rightarrow> Ok v | Inl _ \<Rightarrow> Panics ''called Result::unwrap() on an Err value'') (\<lambda>view.
        rbind (calculate_score (h_number h) view) (\<lambda>sc.
        if score h \<noteq> sc then Error (BlockErr (InvalidScore sc (score h))) else Ok ())))"

definition is_authority :: "schnorr_lib \<Rightarrow> worker_env \<Rightarrow> h256 \<Rightarrow> address \<Rightarrow> ('e, bool) result" where
  "is_authority lib w prev_hash a = dv_contains_address (pub_address lib) (w_validators w) prev_hash a"

definition view_proposer :: "schnorr_lib \<Rightarrow> worker_env \<Rightarrow> h256 \<Rightarrow> u64 \<Rightarrow> ('e, address option) result" where
  "view_proposer lib w prev_block_hash view = dv_next_block_proposer (pub_address lib) (w_validators w) prev_block_hash view"

definition check_view_proposer :: "schnorr_lib \<Rightarrow> worker_env \<Rightarrow> h256 \<Rightarrow> u64 \<Rightarrow> u64 \<Rightarrow> address \<Rightarrow> (engine_error, unit) result" where
  "check_view_proposer lib w parent height view a =
     rbind (view_proposer lib w parent view) (\<lambda>p.
     rbind (ok_or (PrevBlockNotExist height) p) (\<lambda>proposer.
     if proposer = a then Ok () else Error (NotProposer proposer a)))"

fun verify_votes :: "schnorr_lib \<Rightarrow> worker_env \<Rightarrow> h256 \<Rightarrow> h256 \<Rightarrow> (nat \<times> schnorr_signature) list \<Rightarrow> bit_set \<Rightarrow> (core_error, bit_set) result" where
  "verify_votes lib w grand_parent_hash precommit_hash [] voted_validators = Ok voted_validators"
| "verify_votes lib w grand_parent_hash precommit_hash ((bitset_index, sig) # rest) voted_validators =
     rbind (dv_get (w_validators w) grand_parent_hash bitset_index) (\<lambda>public.
     rbind (ok_or KeyErr (verify_schnorr lib public sig precommit_hash)) (\<lambda>valid.
     if \<not> valid then Error (EngineErr (BlockNotAuthorized (pub_address lib public)))
     else rbind (is_set bitset_index voted_validators) (\<lambda>b.
       rbind (rassert ''Double vote'' (\<not> b)) (\<lambda>_.
       rbind (bs_set bitset_index voted_validators) (verify_votes lib w grand_parent_hash precommit_hash rest)))))"

definition verify_block_external :: "schnorr_lib \<Rightarrow> worker_env \<Rightarrow> header \<Rightarrow> (core_error, unit) result" where
  "verify_block_external lib w h =
     rbind (map_err UtilErr (consensus_view (seal h))) (\<lambda>view.
     rbind (is_authority lib w (parent_hash h) (author h)) (\<lambda>auth.
     if \<not> auth then Error (EngineErr (BlockNotAuthorized (author h)))
     else
       rbind (map_err EngineErr (check_view_proposer lib w (parent_hash h) (h_number h) view (author h))) (\<lambda>_.
       rbind (map_err UtilErr (seal_bitset (seal h))) (\<lambda>bitset.
       rbind (map_err UtilErr (rbind (precommits (seal h)) item_count)) (\<lambda>precommits_count.
       if bs_count bitset < precommits_count then Error (BlockErr InvalidSeal)
       else if precommits_count < bs_count bitset then Error (BlockErr InvalidSeal)
       else
         rbind (map_err UtilErr (previous_block_view (seal h))) (\<lambda>pview.
         let step = VoteStep (h_number h - 1) pview Precommit;
             precommit_hash = message_hash (blake256 lib) step (parent_hash h) in
         rbind (expect ''The parent block must exist'' (block_header (w_client w) (parent_hash h))) (\<lambda>parent.
         rbind (map_err UtilErr (seal_signatures (seal h))) (\<lambda>sigs.
         rbind (verify_votes lib w (parent_hash parent) precommit_hash sigs bs_new) (\<lambda>voted_validators.
         if h_number h = 1 then Ok ()
         else map_err EngineErr (dv_check_enough_votes (w_validators w) (parent_hash parent) voted_validators))))))))))"

section \<open>Seals survive the header\<close>

lemma signature_list_length: "length sigs \<le> 800 \<Longrightarrow> length (rlp_bytes (RList (map hash_item (sigs :: schnorr_signature list)))) < 2 ^ 32"
proof -
  assume few: "length sigs \<le> 800"
  have "(\<Sum>t\<leftarrow>map hash_item sigs. length (rlp_bytes t)) \<le> (\<Sum>t\<leftarrow>map hash_item sigs. 69)"
    using hash_item_length [where 'a = 512] by (intro sum_list_mono) (auto simp del: rlp_bytes.simps)
  also have "\<dots> \<le> 69 * 800" using few by (simp add: sum_list_triv comp_def)
  finally have "length (rlp_bytes (RList (map hash_item sigs))) \<le> 5 + 69 * 800" using list_item_length [of "map hash_item sigs"] by linarith
  then show ?thesis by simp
qed

lemma zip_signatures_items:
  assumes "\<forall>sig \<in> set sigs. length (rlp_bytes (hash_item sig)) < 2 ^ 32"
  shows "zip_signatures is (map rlp_bytes (map hash_item sigs)) = Ok (zip is sigs)"
  using assms
proof (induction "is" sigs rule: list_induct2')
  case (4 i "is" sig sigs)
  then show ?case by (simp add: hash_rlp.decode_item [of sig] del: rlp_bytes.simps)
qed (simp_all del: rlp_bytes.simps)

lemma seal_fields_read:
  assumes "seal_fields (TendermintSeal pv cv sigs bits) = Some sl" "bs_ok bits" "length sigs \<le> 800"
  shows "previous_block_view sl = Ok pv" "consensus_view sl = Ok cv" "seal_bitset sl = Ok bits"
    "rbind (precommits sl) item_count = Ok (length sigs)"
    "seal_signatures sl = Ok (zip (true_index_iter bits) sigs)" "length sl = SEAL_FIELDS"
proof -
  have sl: "sl = [rlp_bytes (uint_item pv), rlp_bytes (uint_item cv), rlp_bytes (RList (map hash_item sigs)), rlp_bytes (bitset_item bits)]"
    using assms(1) by simp
  have short: "length (rlp_bytes (uint_item v)) < 2 ^ 32" for v :: u64
    using uint_item_length [of v] by simp
  show "previous_block_view sl = Ok pv" "consensus_view sl = Ok cv"
    by (simp_all add: previous_block_view_def consensus_view_def seal_field_def sl uint_rlp.decode_item [OF _ short] del: rlp_bytes.simps)
  have "length (rlp_bytes (bitset_item bits)) < 2 ^ 32"
    using data_item_length [of bits] assms(2) by (simp add: bitset_item_def bs_ok_def BITSET_SIZE_def MAX_VALIDATOR_SIZE_def del: rlp_bytes.simps)
  from bitset_rlp.decode_item [OF assms(2) this] show bits: "seal_bitset sl = Ok bits"
    by (simp add: seal_bitset_def seal_field_def sl numeral_eq_Suc del: rlp_bytes.simps)
  have pc: "precommits sl = (Ok (rlp_bytes (RList (map hash_item sigs))) :: (rlp_error, _) result)"
    by (simp add: precommits_def seal_field_def sl numeral_eq_Suc del: rlp_bytes.simps)
  note items = rlp_iter_items [OF signature_list_length [OF assms(3)]]
  show "rbind (precommits sl) item_count = Ok (length sigs)" by (simp add: pc items del: rlp_bytes.simps)
  have "length (rlp_bytes (hash_item sig)) < 2 ^ 32" for sig :: schnorr_signature using hash_item_length [of sig] by simp
  then show "seal_signatures sl = Ok (zip (true_index_iter bits) sigs)"
    using zip_signatures_items [of sigs "true_index_iter bits"] by (simp add: seal_signatures_def pc bits items del: rlp_bytes.simps)
  show "length sl = SEAL_FIELDS" by (simp add: sl SEAL_FIELDS_def)
qed

section \<open>The votes of a seal\<close>

definition valid_vote :: "schnorr_lib \<Rightarrow> worker_env \<Rightarrow> h256 \<Rightarrow> h256 \<Rightarrow> nat \<times> schnorr_signature \<Rightarrow> bool" where
  "valid_vote lib w g hash = (\<lambda>(i, sig). \<exists>p. dv_get (w_validators w) g i = (Ok p :: (core_error, _) result) \<and> verify_schnorr lib p sig hash = Some True)"

lemma verify_votes_iff:
  assumes "bs_ok bs" "distinct (map fst sigs)" "\<forall>i \<in> fst ` set sigs. i < 800 \<and> \<not> bit_at bs i"
  shows "(\<exists>r. verify_votes lib w g hash sigs bs = Ok r) \<longleftrightarrow> (\<forall>v \<in> set sigs. valid_vote lib w g hash v)"
    and "verify_votes lib w g hash sigs bs = Ok r \<Longrightarrow> bs_ok r \<and> bits_of r = bits_of bs \<union> fst ` set sigs"
proof -
  have "(\<exists>r. verify_votes lib w g hash sigs bs = Ok r) = (\<forall>v \<in> set sigs. valid_vote lib w g hash v) \<and>
      (\<forall>r. verify_votes lib w g hash sigs bs = Ok r \<longrightarrow> bs_ok r \<and> bits_of r = bits_of bs \<union> fst ` set sigs)"
    using assms
  proof (induction sigs arbitrary: bs)
    case (Cons v sigs)
    obtain i sig where v: "v = (i, sig)" by (cases v)
    with Cons.prems have "bs_ok bs" "i < 800" "\<not> bit_at bs i" by simp_all
    obtain bs1 where bs1: "bs_set i bs = (Ok bs1 :: (core_error, _) result)" "bs_ok bs1" "\<forall>j<800. bit_at bs1 j \<longleftrightarrow> j = i \<or> bit_at bs j"
      using \<open>bs_ok bs\<close> \<open>i < 800\<close> by (rule bs_set_Ok)
    then have bits: "bits_of bs1 = insert i (bits_of bs)" using \<open>i < 800\<close> by (auto simp: bits_of_iff)
    have "\<forall>j \<in> fst ` set sigs. j < 800 \<and> \<not> bit_at bs1 j" using Cons.prems bs1(3) v by force
    note IH = Cons.IH [OF bs1(2) _ this]
    have step: "verify_votes lib w g hash (v # sigs) bs = Ok r \<longleftrightarrow>
        valid_vote lib w g hash v \<and> verify_votes lib w g hash sigs bs1 = Ok r" for r
      using bs1(1) \<open>bs_ok bs\<close> \<open>i < 800\<close> \<open>\<not> bit_at bs i\<close>
      by (cases "dv_get (w_validators w) g i :: (core_error, _) result")
        (auto simp: v valid_vote_def is_set_run ok_or_def split: option.splits)
    show ?case unfolding step using IH Cons.prems(2) bits by (auto simp: v)
  qed simp
  then show "(\<exists>r. verify_votes lib w g hash sigs bs = Ok r) \<longleftrightarrow> (\<forall>v \<in> set sigs. valid_vote lib w g hash v)"
    and "verify_votes lib w g hash sigs bs = Ok r \<Longrightarrow> bs_ok r \<and> bits_of r = bits_of bs \<union> fst ` set sigs"
    by blast+
qed

lemma zip_signatures_fst: "zip_signatures is bs = Ok sigs \<Longrightarrow> map fst sigs = take (length bs) is"
  by (induction "is" bs arbitrary: sigs rule: zip_signatures.induct) (auto simp: rbind_eq_Ok_iff)

lemma same_bits_iter: "bits_of a = bits_of b \<Longrightarrow> true_index_iter a = true_index_iter b"
proof -
  assume "bits_of a = bits_of b"
  then have "filter (bit_at a) [0..<800] = filter (bit_at b) [0..<800]"
    by (intro filter_cong) (auto simp: set_eq_iff bits_of_iff)
  then show ?thesis by (simp add: true_index_iter_eq MAX_VALIDATOR_SIZE_def)
qed

lemma check_enough_cong:
  assumes "bs_ok a" "bs_ok b" "bits_of a = bits_of b"
  shows "dv_check_enough_votes dv g a = dv_check_enough_votes dv g b"
  using same_bits_iter [OF assms(3)] bits_of_card [OF assms(1)] bits_of_card [OF assms(2)] assms(3)
  by (auto simp: dv_check_enough_votes_def rr_check_enough_votes_def cong: option.case_cong)

definition precommit_hash :: "schnorr_lib \<Rightarrow> header \<Rightarrow> u64 \<Rightarrow> h256" where
  "precommit_hash lib h pview = message_hash (blake256 lib) (VoteStep (h_number h - 1) pview Precommit) (parent_hash h)"

lemma seal_votes:
  assumes "seal_bitset (seal h) = Ok bitset" "rbind (precommits (seal h)) item_count = Ok (bs_count bitset)"
    and "seal_signatures (seal h) = Ok sigs"
  shows "map fst sigs = true_index_iter bitset"
proof -
  from assms obtain pc where pc: "precommits (seal h) = Ok pc" "item_count pc = Ok (bs_count bitset)"
    and sigs: "zip_signatures (true_index_iter bitset) (rlp_iter pc) = Ok sigs"
    by (auto simp: seal_signatures_def rbind_eq_Ok_iff)
  have "length (rlp_iter pc) = bs_count bitset" using pc(2) by (auto simp: item_count_def split: if_splits)
  moreover have "length (true_index_iter bitset) = bs_count bitset"
    using bits_of_card [OF bitset_decode_ok] assms(1) distinct_card [of "true_index_iter bitset"]
    by (fastforce simp: seal_bitset_def rbind_eq_Ok_iff bits_of_def true_index_iter_eq)
  ultimately show ?thesis using zip_signatures_fst [OF sigs] by simp
qed

lemma votes_distinct:
  assumes "map fst sigs = true_index_iter bitset"
  shows "distinct (map fst sigs)" "\<forall>i \<in> fst ` set sigs. i < 800 \<and> \<not> bit_at bs_new i" "fst ` set sigs = bits_of bitset"
proof -
  show bits: "fst ` set sigs = bits_of bitset" using assms by (simp add: bits_of_def flip: set_map)
  show "distinct (map fst sigs)" unfolding assms by (simp add: true_index_iter_eq)
  show "\<forall>i \<in> fst ` set sigs. i < 800 \<and> \<not> bit_at bs_new i" unfolding bits by (auto simp: bits_of_iff)
qed

lemma bits_of_new [simp]: "bits_of bs_new = {}"
  by (auto simp: bits_of_iff)

text \<open>What an accepted header has.\<close>

lemma verify_block_external_OkE:
  assumes "verify_block_external lib w h = Ok ()" "h_number h \<noteq> 1"
  obtains pview parent bitset sigs where "previous_block_view (seal h) = Ok pview"
    "block_header (w_client w) (parent_hash h) = Some parent"
    "bs_ok bitset" "map fst sigs = true_index_iter bitset"
    "\<forall>v \<in> set sigs. valid_vote lib w (parent_hash parent) (precommit_hash lib h pview) v"
    "dv_check_enough_votes (w_validators w) (parent_hash parent) bitset = Ok ()"
proof -
  from assms obtain pview parent bitset sigs voted where
    seal: "previous_block_view (seal h) = Ok pview" "block_header (w_client w) (parent_hash h) = Some parent"
    "seal_bitset (seal h) = Ok bitset" "rbind (precommits (seal h)) item_count = Ok (bs_count bitset)"
    "seal_signatures (seal h) = Ok sigs"
    and voted: "verify_votes lib w (parent_hash parent) (precommit_hash lib h pview) sigs bs_new = Ok voted"
    and enough: "dv_check_enough_votes (w_validators w) (parent_hash parent) voted = Ok ()"
    by (auto simp: verify_block_external_def precommit_hash_def rbind_eq_Ok_iff Let_def split: if_splits)
  have ok: "bs_ok bitset" using seal(3) by (auto simp: seal_bitset_def rbind_eq_Ok_iff intro: bitset_decode_ok)
  note idx = seal_votes [OF seal(3-5)]
  note votes = verify_votes_iff [OF bs_new_ok(1) votes_distinct(1,2) [OF idx]]
  have "bs_ok voted \<and> bits_of voted = bits_of bitset"
    using votes(2) [OF voted] votes_distinct(3) [OF idx] by simp
  with enough check_enough_cong [of voted bitset] ok have "dv_check_enough_votes (w_validators w) (parent_hash parent) bitset = Ok ()" by simp
  then show ?thesis
    using that [OF seal(1,2) ok idx] votes(1) voted by blast
qed

section \<open>Conflicting seals\<close>

lemma dv_validators_error: "dv_validators dv g = (Ok vs :: ('e, _) result) \<Longrightarrow> dv_validators dv g = (Ok vs :: ('f, _) result)"
  by (auto simp: dv_validators_def rbind_eq_Ok_iff Let_def split: if_splits option.splits)

lemma dv_validators_nonempty: "dv_validators dv g = (Ok (Some vs) :: ('e, _) result) \<Longrightarrow> vs \<noteq> []"
  by (auto simp: dv_validators_def rbind_eq_Ok_iff Let_def split: if_splits option.splits)

lemma dv_get_elected:
  assumes "dv_validators dv g = (Ok (Some vs) :: ('e, _) result)"
  shows "dv_get dv g i = (Ok (v_pubkey (vs ! (i mod length vs))) :: ('f, _) result)"
  using dv_validators_error [OF assms, where 'f = 'f] dv_validators_nonempty [OF assms]
  by (simp add: dv_get_def dv_validators_pubkey_def)

definition has_signed :: "schnorr_lib \<Rightarrow> public \<Rightarrow> vote_step \<Rightarrow> h256 \<Rightarrow> bool" where
  "has_signed lib p step block \<longleftrightarrow> (\<exists>sig. verify_schnorr lib p sig (message_hash (blake256 lib) step block) = Some True)"

lemma accepted_quorum:
  assumes "verify_block_external lib w h = Ok ()" "h_number h \<noteq> 1"
    and "previous_block_view (seal h) = Ok pview" "block_header (w_client w) (parent_hash h) = Some parent"
    and vs: "dv_validators (w_validators w) (parent_hash parent) = (Ok (Some vs) :: (engine_error, _) result)"
    and small: "3 * delegated vs < 2 ^ 64"
  obtains S where "dv_enough vs S"
    "\<forall>i \<in> S. has_signed lib (v_pubkey (vs ! i)) (VoteStep (h_number h - 1) pview Precommit) (parent_hash h)"
proof -
  from assms(1,2) obtain pview' parent' bitset sigs where seal: "previous_block_view (seal h) = Ok pview'"
    "block_header (w_client w) (parent_hash h) = Some parent'" "map fst sigs = true_index_iter bitset"
    "\<forall>v \<in> set sigs. valid_vote lib w (parent_hash parent') (precommit_hash lib h pview') v"
    "dv_check_enough_votes (w_validators w) (parent_hash parent') bitset = Ok ()"
    by (rule verify_block_external_OkE)
  then have same: "pview' = pview" "parent' = parent" using assms(3,4) by simp_all
  have enough: "dv_enough vs (bits_of bitset)" using seal(5) vs small unfolding same dv_enough_def by blast
  moreover have "has_signed lib (v_pubkey (vs ! i)) (VoteStep (h_number h - 1) pview Precommit) (parent_hash h)" if "i \<in> bits_of bitset" for i
  proof -
    have "i < length vs" using dv.enough_members [OF enough] that by auto
    moreover from that seal(3) obtain sig where "(i, sig) \<in> set sigs"
      using votes_distinct(3) [OF seal(3)] by force
    ultimately show ?thesis
      using seal(4) dv_get_elected [OF vs, of i, where 'f = core_error]
      by (fastforce simp: same valid_vote_def has_signed_def precommit_hash_def)
  qed
  ultimately show ?thesis using that by blast
qed

text \<open>
  C36: two conflicting blocks cannot both be finalised without exposing more than a third of the stake. If
  a node accepts the seals of two headers of the same height that prove precommits of the same view for different
  parents, by the same elected validators, then validators with more than a third of all delegation have signed
  precommits for both parents, and the two votes they signed are different messages.
\<close>

theorem conflicting_seals_expose_a_third:
  assumes "verify_block_external lib w h1 = Ok ()" "verify_block_external lib w h2 = Ok ()"
    and "h_number h1 = h_number h2" "h_number h1 \<noteq> 1" "parent_hash h1 \<noteq> parent_hash h2"
    and "previous_block_view (seal h1) = Ok pview" "previous_block_view (seal h2) = Ok pview"
    and "block_header (w_client w) (parent_hash h1) = Some p1" "block_header (w_client w) (parent_hash h2) = Some p2"
    and "parent_hash p1 = g" "parent_hash p2 = g"
    and "dv_validators (w_validators w) g = (Ok (Some vs) :: (engine_error, _) result)" "3 * delegated vs < 2 ^ 64"
  defines "step \<equiv> VoteStep (h_number h1 - 1) pview Precommit"
  shows "message_info_rlp step (Some (parent_hash h1)) \<noteq> message_info_rlp step (Some (parent_hash h2)) \<and>
    (\<exists>D \<subseteq> {..<length vs}. delegated vs < 3 * (\<Sum>i\<in>D. delegation_at vs i) \<and>
      (\<forall>i \<in> D. has_signed lib (v_pubkey (vs ! i)) step (parent_hash h1) \<and> has_signed lib (v_pubkey (vs ! i)) step (parent_hash h2)))"
proof -
  have h2: "h_number h2 \<noteq> 1" using assms(3,4) by simp
  have vs1: "dv_validators (w_validators w) (parent_hash p1) = (Ok (Some vs) :: (engine_error, _) result)"
    and vs2: "dv_validators (w_validators w) (parent_hash p2) = (Ok (Some vs) :: (engine_error, _) result)"
    using assms(10-12) by simp_all
  obtain S1 where S1: "dv_enough vs S1" "\<forall>i \<in> S1. has_signed lib (v_pubkey (vs ! i)) step (parent_hash h1)"
    using accepted_quorum [OF assms(1,4,6,8) vs1 assms(13)] unfolding step_def by metis
  obtain S2 where S2: "dv_enough vs S2" "\<forall>i \<in> S2. has_signed lib (v_pubkey (vs ! i)) step (parent_hash h2)"
    using accepted_quorum [OF assms(2) h2 assms(7,9) vs2 assms(13)] unfolding step_def assms(3) by metis
  have "S1 \<inter> S2 \<subseteq> {..<length vs}" using dv.enough_members [OF S1(1)] by auto
  moreover have "delegated vs < 3 * (\<Sum>i\<in>S1 \<inter> S2. delegation_at vs i)"
    using dv.quorums_overlap [OF S1(1) S2(1)] by (simp add: delegated_sum)
  moreover have "message_info_rlp step (Some (parent_hash h1)) \<noteq> message_info_rlp step (Some (parent_hash h2))"
    using assms(5) by (simp add: message_info_inj)
  ultimately show ?thesis using S1(2) S2(2) by (intro conjI exI [of _ "S1 \<inter> S2"]) auto
qed

section \<open>Complete seals\<close>

text \<open>A header with a seal that an engine made, by the proposer of its view, is judged by its votes.\<close>

lemma verify_sealed:
  assumes "seal_fields (TendermintSeal pv cv sigs bits) = Some (seal h)" "bs_ok bits" "length sigs = bs_count bits"
    and "is_authority lib w (parent_hash h) (author h) = (Ok True :: (core_error, _) result)"
    and "check_view_proposer lib w (parent_hash h) (h_number h) cv (author h) = Ok ()"
    and "block_header (w_client w) (parent_hash h) = Some parent"
    and "\<forall>v \<in> set (zip (true_index_iter bits) sigs). valid_vote lib w (parent_hash parent) (precommit_hash lib h pv) v"
  shows "verify_block_external lib w h =
    (if h_number h = 1 then Ok () else map_err EngineErr (dv_check_enough_votes (w_validators w) (parent_hash parent) bits))"
proof -
  have count: "length (true_index_iter bits) = bs_count bits"
    using bits_of_card [OF assms(2)] distinct_card [of "true_index_iter bits"] by (simp add: bits_of_def true_index_iter_eq)
  have "bits_of bits \<subseteq> {..<800}" by (auto simp: bits_of_iff)
  then have "card (bits_of bits) \<le> 800" using card_mono [of "{..<800}"] by fastforce
  then have few: "length sigs \<le> 800" using bits_of_card [OF assms(2)] assms(3) by simp
  note read = seal_fields_read [OF assms(1,2) few]
  have idx: "map fst (zip (true_index_iter bits) sigs) = true_index_iter bits" using count assms(3) by simp
  note votes = verify_votes_iff [OF bs_new_ok(1) votes_distinct(1,2) [OF idx], of lib w "parent_hash parent" "precommit_hash lib h pv"]
  from votes(1) assms(7) obtain voted where voted:
    "verify_votes lib w (parent_hash parent) (precommit_hash lib h pv) (zip (true_index_iter bits) sigs) bs_new = Ok voted" by blast
  have "bs_ok voted \<and> bits_of voted = bits_of bits" using votes(2) [OF voted] votes_distinct(3) [OF idx] by simp
  then have "dv_check_enough_votes (w_validators w) (parent_hash parent) voted = dv_check_enough_votes (w_validators w) (parent_hash parent) bits"
    by (intro check_enough_cong) (simp_all add: assms(2))
  then show ?thesis
    using assms(3-6) read voted by (simp add: verify_block_external_def precommit_hash_def Let_def)
qed

lemma voted_delegation_panics:
  "\<exists>i \<in> set is. length vs \<le> i \<Longrightarrow> voted_delegation vs is acc = Panics ''index < n_validators''"
proof (induction vs "is" acc rule: voted_delegation.induct)
  case (2 vs index rest acc)
  then show ?case by (cases "index < length vs") (fastforce simp: rassert_def)+
qed simp

lemma dv_get_mod:
  assumes "dv_count dv g = (Ok n :: ('e, _) result)"
  shows "dv_get dv g (i mod n) = (dv_get dv g i :: ('e, _) result)"
proof (cases "dv_validators dv g :: ('e, _) result")
  case (Inr vs)
  then show ?thesis
    using assms by (cases vs) (auto simp: dv_count_def dv_get_def dv_validators_pubkey_def rr_get_def rr_count_def)
qed (use assms in \<open>simp add: dv_count_def\<close>)

text \<open>
  C37: the indices of a seal are not compared with the number of validators. A validator is looked up by its index
  modulo their number, while the bits are counted as they are. So a seal with bits that all fall on one validator and
  that carries this validator's signature for each of them passes as a quorum while the fixed list is in force; and under
  elected validators one bit beyond their number makes the node panic.
\<close>

theorem seal_indices_unchecked:
  assumes "seal_fields (TendermintSeal pv cv sigs bits) = Some (seal h)" "bs_ok bits" "length sigs = bs_count bits"
    and "is_authority lib w (parent_hash h) (author h) = (Ok True :: (core_error, _) result)"
    and "check_view_proposer lib w (parent_hash h) (h_number h) cv (author h) = Ok ()"
    and "block_header (w_client w) (parent_hash h) = Some parent" "h_number h \<noteq> 1"
    and "dv_count (w_validators w) (parent_hash parent) = (Ok n :: (core_error, _) result)"
    and "dv_get (w_validators w) (parent_hash parent) j = (Ok key :: (core_error, _) result)" "\<forall>i \<in> bits_of bits. i mod n = j"
    and "\<forall>sig \<in> set sigs. verify_schnorr lib key sig (precommit_hash lib h pv) = Some True"
  shows "(dv_validators (w_validators w) (parent_hash parent) = (Ok None :: (core_error, _) result) \<and> 2 * n < 3 * bs_count bits \<longrightarrow>
      verify_block_external lib w h = Ok ()) \<and>
    (dv_validators (w_validators w) (parent_hash parent) \<noteq> (Ok None :: (core_error, _) result) \<and> (\<exists>i \<in> bits_of bits. n \<le> i) \<longrightarrow>
      verify_block_external lib w h = Panics ''index < n_validators'')"
proof -
  let ?dv = "w_validators w" and ?g = "parent_hash parent"
  have valid: "\<forall>v \<in> set (zip (true_index_iter bits) sigs). valid_vote lib w ?g (precommit_hash lib h pv) v"
  proof
    fix v assume v: "v \<in> set (zip (true_index_iter bits) sigs)"
    obtain i sig where i: "v = (i, sig)" by (cases v)
    with v have "i \<in> bits_of bits" "sig \<in> set sigs" by (auto simp: bits_of_def dest: set_zip_leftD set_zip_rightD)
    moreover from this have "dv_get ?dv ?g i = (Ok key :: (core_error, _) result)"
      using assms(9,10) dv_get_mod [OF assms(8), of i] by simp
    ultimately show "valid_vote lib w ?g (precommit_hash lib h pv) v" using assms(11) by (simp add: i valid_vote_def)
  qed
  have judged: "verify_block_external lib w h = map_err EngineErr (dv_check_enough_votes ?dv ?g bits)"
    using verify_sealed [OF assms(1-6) valid] assms(7) by simp
  show ?thesis
  proof (intro conjI impI)
    assume fixed: "dv_validators ?dv ?g = (Ok None :: (core_error, _) result) \<and> 2 * n < 3 * bs_count bits"
    then have "n = rr_count (initial_list ?dv)" using assms(8) by (simp add: dv_count_def)
    with fixed dv_validators_error [of ?dv ?g None, where 'e = core_error and 'f = engine_error]
    show "verify_block_external lib w h = Ok ()"
      by (simp add: judged dv_check_enough_votes_def rr_check_enough_votes_def)
  next
    assume beyond: "dv_validators ?dv ?g \<noteq> (Ok None :: (core_error, _) result) \<and> (\<exists>i \<in> bits_of bits. n \<le> i)"
    with assms(8) obtain vs where "dv_validators ?dv ?g = (Ok (Some vs) :: (core_error, _) result)" "n = length vs"
      by (cases "dv_validators ?dv ?g :: (core_error, _) result") (auto simp: dv_count_def split: option.splits)
    with beyond dv_validators_error [of ?dv ?g "Some vs", where 'e = core_error and 'f = engine_error]
    show "verify_block_external lib w h = Panics ''index < n_validators''"
      using voted_delegation_panics [of "true_index_iter bits" vs 0] by (simp add: judged dv_check_enough_votes_def bits_of_def)
  qed
qed

section \<open>A small chain\<close>

text \<open>A signature of these witnesses is valid when it is the public key itself. Block 7 has the parent 5 and the author
  with key 10; block 8 is another child of 5. Terms are counted by the argument.\<close>

definition sample_schnorr :: schnorr_lib where
  "sample_schnorr = \<lparr>pub_address = ucast, verify_schnorr = (\<lambda>p sig _. Some (sig = p)), blake256 = (\<lambda>_. 0)\<rparr>"

definition sample_parent :: header where
  "sample_parent = (header_default 0)\<lparr>parent_hash := 5, h_number := 1, author := 10\<rparr>"

definition sample_client :: "u64 \<Rightarrow> consensus_client" where
  "sample_client t = \<lparr>block_header = [7 \<mapsto> sample_parent, 8 \<mapsto> sample_parent], current_term_id = (\<lambda>_. Some t),
     state_at = (\<lambda>_. Some \<lparr>accounts = Map.empty, regular_accounts = Map.empty, md = None, shards = Map.empty, texts = Map.empty,
       action_data = \<lparr>ccs = (\<lambda>_. 0), stakeholders = [], delegations = (\<lambda>_. []),
         validators = [\<lparr>v_weight = 5, v_delegation = 5, v_deposit = 1, v_pubkey = 20\<rparr>], candidates = [], jailed = [], banned = [],
         rewards_previous = [], rewards_current = []\<rparr>\<rparr>)\<rparr>"

definition sample_worker :: "u64 \<Rightarrow> worker_env" where
  "sample_worker t = \<lparr>w_validators = \<lparr>initial_list = \<lparr>rr_validators = [10, 20, 30, 40], rr_client = Some (sample_client t)\<rparr>,
     dv_client = Some (sample_client t)\<rparr>, w_client = sample_client t\<rparr>"

definition sample_header :: "h256 \<Rightarrow> schnorr_signature list \<Rightarrow> bit_set \<Rightarrow> header" where
  "sample_header parent sigs bits = (header_default 0)\<lparr>parent_hash := parent, h_number := 2, author := 20,
     seal := the (seal_fields (TendermintSeal 0 0 sigs bits))\<rparr>"

lemmas sample_seal_defs = sample_schnorr_def sample_parent_def sample_client_def sample_worker_def sample_header_def header_default_def

definition bits_at :: "nat list \<Rightarrow> bit_set" where
  "bits_at is = (case new_with_indices is :: (unit, bit_set) result of Inr bs \<Rightarrow> bs | Inl _ \<Rightarrow> bs_new)"

lemma bits_at_props:
  assumes "\<forall>i \<in> set is. i < 800" "sorted_wrt (<) is"
  shows "bs_ok (bits_at is)" "bits_of (bits_at is) = set is" "true_index_iter (bits_at is) = is" "bs_count (bits_at is) = length is"
proof -
  from set_all_bits [OF bs_new_ok(1) assms(1), where 'e = unit]
  show ok: "bs_ok (bits_at is)" and bits: "bits_of (bits_at is) = set is"
    using assms(1) by (auto simp: bits_at_def new_with_indices_def bits_of_iff)
  have "distinct is" "sorted is" using assms(2) by (simp_all add: strict_sorted_iff)
  moreover have "distinct (true_index_iter (bits_at is))" "sorted (true_index_iter (bits_at is))"
    by (simp_all add: true_index_iter_eq sorted_wrt_filter)
  ultimately show "true_index_iter (bits_at is) = is"
    using bits by (intro sorted_distinct_set_unique) (simp_all add: bits_of_def)
  show "bs_count (bits_at is) = length is"
    using bits_of_card [OF ok] bits distinct_card [OF \<open>distinct is\<close>] by simp
qed

theorem seal_indices_unchecked_witness:
  "verify_block_external sample_schnorr (sample_worker 0) (sample_header 7 [10, 10, 10] (bits_at [0, 4, 8])) = Ok ()"
proof -
  let ?h = "sample_header 7 [10, 10, 10] (bits_at [0, 4, 8])" and ?w = "sample_worker 0"
  have elected: "dv_validators (w_validators ?w) x = (Ok None :: ('e, _) result)" for x
    by (simp add: dv_validators_def sample_worker_def sample_client_def)
  have bits: "bs_ok (bits_at [0, 4, 8])" "bits_of (bits_at [0, 4, 8]) = {0, 4, 8}" "bs_count (bits_at [0, 4, 8]) = 3"
    using bits_at_props [of "[0, 4, 8]"] by simp_all
  have "seal_fields (TendermintSeal 0 0 [10, 10, 10] (bits_at [0, 4, 8])) = Some (seal ?h)"
    "is_authority sample_schnorr ?w (parent_hash ?h) (author ?h) = (Ok True :: (core_error, _) result)"
    "check_view_proposer sample_schnorr ?w (parent_hash ?h) (h_number ?h) 0 (author ?h) = Ok ()"
    "block_header (w_client ?w) (parent_hash ?h) = Some sample_parent"
    "dv_count (w_validators ?w) (parent_hash sample_parent) = (Ok 4 :: (core_error, _) result)"
    "dv_get (w_validators ?w) (parent_hash sample_parent) 0 = (Ok 10 :: (core_error, _) result)"
    by (simp_all add: is_authority_def check_view_proposer_def view_proposer_def dv_contains_address_def dv_next_block_proposer_def
        dv_count_def dv_get_def dv_validators_pubkey_def dv_validators_def rr_contains_address_def rr_next_block_proposer_def
        rr_get_index_by_address_def rr_get_def rr_count_def sample_seal_defs del: rlp_bytes.simps)
  note laws = seal_indices_unchecked [OF this(1) bits(1) _ this(2-4) _ this(5,6)]
  show ?thesis
    by (rule laws [THEN conjunct1, THEN mp]) (simp_all add: bits elected, simp_all add: sample_seal_defs)
qed

theorem conflicting_seals_expose_a_third_witness:
  "\<exists>D \<subseteq> {..<1}. 5 < 3 * (\<Sum>i\<in>D. delegation_at [\<lparr>v_weight = 5, v_delegation = 5, v_deposit = 1, v_pubkey = 20\<rparr>] i) \<and>
     (\<forall>i \<in> D. has_signed sample_schnorr 20 (VoteStep 1 0 Precommit) 7 \<and> has_signed sample_schnorr 20 (VoteStep 1 0 Precommit) 8)"
proof -
  let ?v = "\<lparr>v_weight = 5, v_delegation = 5, v_deposit = 1, v_pubkey = 20\<rparr> :: validator" and ?w = "sample_worker 1"
  have elected: "dv_validators (w_validators ?w) x = (Ok (Some [?v]) :: ('e, _) result)" for x
    by (simp add: dv_validators_def sample_worker_def sample_client_def)
  have bits: "bs_ok (bits_at [0])" "bits_of (bits_at [0]) = {0}" "bs_count (bits_at [0]) = 1" "true_index_iter (bits_at [0]) = [0]"
    using bits_at_props [of "[0]"] by simp_all
  have read: "previous_block_view (seal (sample_header p [20] (bits_at [0]))) = Ok 0" for p
    by (rule seal_fields_read(1) [of 0 0 "[20]" "bits_at [0]"]) (simp_all add: bits sample_header_def del: rlp_bytes.simps)
  have ok: "verify_block_external sample_schnorr ?w (sample_header p [20] (bits_at [0])) = Ok ()" if "p = 7 \<or> p = 8" for p
  proof -
    let ?h = "sample_header p [20] (bits_at [0])"
    have "verify_block_external sample_schnorr ?w ?h = (if h_number ?h = 1 then Ok ()
        else map_err EngineErr (dv_check_enough_votes (w_validators ?w) (parent_hash sample_parent) (bits_at [0])))"
      using that by (intro verify_sealed [of 0 0 "[20]"])
        (auto simp: bits is_authority_def check_view_proposer_def view_proposer_def dv_contains_address_def dv_next_block_proposer_def
          dv_get_def dv_validators_pubkey_def elected valid_vote_def simp del: rlp_bytes.simps, auto simp: sample_seal_defs simp del: rlp_bytes.simps)
    moreover have "dv_check_enough_votes (w_validators ?w) (parent_hash sample_parent) (bits_at [0]) = Ok ()"
      by (simp add: dv_check_enough_votes_def elected bits rassert_def)
    ultimately show ?thesis by simp
  qed
  have "message_info_rlp (VoteStep 1 0 Precommit) (Some 7) \<noteq> message_info_rlp (VoteStep 1 0 Precommit) (Some 8) \<and>
    (\<exists>D \<subseteq> {..<length [?v]}. delegated [?v] < 3 * (\<Sum>i\<in>D. delegation_at [?v] i) \<and>
      (\<forall>i \<in> D. has_signed sample_schnorr (v_pubkey ([?v] ! i)) (VoteStep 1 0 Precommit) 7 \<and>
        has_signed sample_schnorr (v_pubkey ([?v] ! i)) (VoteStep 1 0 Precommit) 8))"
    using conflicting_seals_expose_a_third [OF ok ok _ _ _ read read _ _ _ _ elected, of 7 8 sample_parent sample_parent]
    by (simp add: sample_header_def sample_worker_def sample_client_def delegated_def)
  then obtain D where D: "D \<subseteq> {..<1}" "delegated [?v] < 3 * (\<Sum>i\<in>D. delegation_at [?v] i)"
    "\<forall>i \<in> D. has_signed sample_schnorr (v_pubkey ([?v] ! i)) (VoteStep 1 0 Precommit) 7 \<and>
        has_signed sample_schnorr (v_pubkey ([?v] ! i)) (VoteStep 1 0 Precommit) 8" by auto
  moreover have "[?v] ! i = ?v" if "i \<in> D" for i using D(1) that by auto
  ultimately show ?thesis by (intro exI [of _ D]) (auto simp: delegated_def)
qed

end
