(* ===== verification/Block_Rewards.thy ===== *)
theory Block_Rewards
  imports Core_Error Tendermint_Seal Stake_Ledger Complex_Main
begin

text \<open>
  What a block pays: the distribution of fees to stakeholders (\<open>core/src/consensus/stake/distribute.rs\<close>) and the rewards
  of a term (\<open>core/src/consensus/tendermint/engine.rs\<close>), which depend on how many seals of the term a validator signed.
  Hash maps are kept in the order of their keys; no result depends on the order. A \<open>Ratio\<close> is a rational number.
\<close>

section \<open>Fees of a block\<close>

text \<open>\<open>u64::try_from\<close> of a 128 bit number, unwrapped.\<close>

definition u64_unwrap :: "int \<Rightarrow> ('e, u64) result" where
  "u64_unwrap x = expect ''called Result::unwrap() on an Err value'' (if 0 \<le> x \<and> x < 2 ^ 64 then Some (of_int x) else None)"

definition share :: "u64 \<Rightarrow> u64 \<Rightarrow> u64 \<Rightarrow> ('e, u64) result" where
  "share total_stakes stake total_min_fee =
     rbind (rassert ''total_stakes >= stake'' (stake \<le> total_stakes)) (\<lambda>_.
     rbind (rassert ''attempt to divide by zero'' (total_stakes \<noteq> 0)) (\<lambda>_.
     u64_unwrap (uint ((ucast total_min_fee :: 128 word) * ucast stake div ucast total_stakes))))"

record fee_iter =
  total_stakes :: u64
  total_min_fee :: u64
  remaining_fee :: u64
  stake_holdings :: "(address \<times> u64) list"

definition fee_distribute :: "u64 \<Rightarrow> (address, u64) btree_map \<Rightarrow> fee_iter" where
  "fee_distribute fee stakes =
     \<lparr>total_stakes = bmap_sum stakes, total_min_fee = fee, remaining_fee = fee, stake_holdings = stakes\<rparr>"

definition fee_next :: "fee_iter \<Rightarrow> ('e, (address \<times> u64) option \<times> fee_iter) result" where
  "fee_next it = (case stake_holdings it of
     [] \<Rightarrow> Ok (None, it)
   | (stakeholder, stake) # rest \<Rightarrow>
       rbind (share (total_stakes it) stake (total_min_fee it)) (\<lambda>sh.
       rbind (expect ''Remaining fee shouldn't be depleted'' (if sh \<le> remaining_fee it then Some (remaining_fee it - sh) else None)) (\<lambda>r.
       Ok (Some (stakeholder, sh), it\<lparr>remaining_fee := r, stake_holdings := rest\<rparr>))))"

section \<open>Rewards of a term\<close>

text \<open>\<open>floor(intermediate_rewards * (a * number_of_signatures / number_of_blocks_in_term + b) / 10)\<close>, in \<open>i128\<close>; the
  comparisons are in \<open>u64\<close>.\<close>

definition final_rewards :: "u64 \<Rightarrow> u64 \<Rightarrow> u64 \<Rightarrow> ('e, u64) result" where
  "final_rewards intermediate_reward number_of_signatures number_of_blocks =
     rbind (if number_of_signatures * 3 \<ge> number_of_blocks * 2 then Ok (3, 7)
            else if number_of_signatures * 2 \<ge> number_of_blocks then Ok (48, -23)
            else if number_of_signatures * 3 \<ge> number_of_blocks then Ok (6, -2)
            else rbind (rassert ''number_of_blocks_in_term > 3 * number_of_signatures'' (number_of_blocks > 3 * number_of_signatures)) (\<lambda>_.
              Ok (0, 0))) (\<lambda>(a, b).
     let numerator = (ucast intermediate_reward :: 128 word) * (a * ucast number_of_signatures + b * ucast number_of_blocks);
         denominator = (10 :: 128 word) * ucast number_of_blocks in
     rbind (rassert ''numerator >= 0'' (0 \<le> sint numerator)) (\<lambda>_.
     rbind (rassert ''attempt to divide by zero'' (denominator \<noteq> 0)) (\<lambda>_.
     u64_unwrap (sint numerator div sint denominator))))"

definition entry_add :: "'k::linorder \<Rightarrow> 'v::monoid_add \<Rightarrow> ('k, 'v) btree_map \<Rightarrow> ('k, 'v) btree_map" where
  "entry_add k q m = bmap_insert k ((case bmap_get m k of None \<Rightarrow> 0 | Some w \<Rightarrow> w) + q) m"

text \<open>The validators by their average of missed signatures: (proposed, missed) per address.\<close>

fun by_average :: "(address \<times> nat \<times> nat) list \<Rightarrow> (rat, address list) btree_map \<Rightarrow> (rat, address list) btree_map" where
  "by_average [] m = m"
| "by_average ((address, proposed, missed) # rest) m =
     (let average_missed = of_nat missed / of_nat proposed in
      by_average rest (bmap_insert average_missed ((case bmap_get m average_missed of None \<Rightarrow> [] | Some as \<Rightarrow> as) @ [address]) m))"

fun give_group :: "u64 \<Rightarrow> address list \<Rightarrow> u64 \<Rightarrow> (address, u64) btree_map \<Rightarrow> u64 \<times> (address, u64) btree_map" where
  "give_group reward [] reduced_rewards pending = (reduced_rewards, pending)"
| "give_group reward (v # vs) reduced_rewards pending =
     give_group reward vs (reduced_rewards - reward) (entry_add v reward pending)"

fun give_groups :: "address list list \<Rightarrow> u64 \<Rightarrow> (address, u64) btree_map \<Rightarrow> (address, u64) btree_map" where
  "give_groups [] reduced_rewards pending = pending"
| "give_groups (vs # groups) reduced_rewards pending =
     (let reward = reduced_rewards div (of_nat (length vs) + 1) in
      if reward = 0 then pending
      else let (reduced', pending') = give_group reward vs reduced_rewards pending in give_groups groups reduced' pending')"

definition give_additional_rewards :: "u64 \<Rightarrow> (address, nat \<times> nat) btree_map \<Rightarrow> (address, u64) btree_map \<Rightarrow> (address, u64) btree_map" where
  "give_additional_rewards reduced_rewards missed_signatures pending =
     give_groups (map snd (by_average missed_signatures [])) reduced_rewards pending"

fun count_signers :: "address list \<Rightarrow> nat list \<Rightarrow> (address, nat) btree_map \<Rightarrow> ('e, (address, nat) btree_map) result" where
  "count_signers parent_validators [] signed_blocks = Ok signed_blocks"
| "count_signers parent_validators (index # rest) signed_blocks =
     rbind (expect ''The seal must be the signature of the validator''
       (if index < length parent_validators then Some (parent_validators ! index) else None)) (\<lambda>signer.
     count_signers parent_validators rest (entry_add signer 1 signed_blocks))"

definition parent_header :: "consensus_client \<Rightarrow> header \<Rightarrow> ('e, header) result" where
  "parent_header chain h = expect ''called Option::unwrap() on a None value'' (block_header chain (parent_hash h))"

text \<open>The seal of a block signs its parent, whose validators are found by the hash of the grand parent.\<close>

definition parent_validators_of :: "consensus_client \<Rightarrow> (h256 \<Rightarrow> ('e, address list) result) \<Rightarrow> header \<Rightarrow> ('e, address list) result" where
  "parent_validators_of chain addresses h = rbind (parent_header chain h) (\<lambda>g. addresses (parent_hash g))"

definition note_missed :: "address \<Rightarrow> nat \<Rightarrow> (address, nat \<times> nat) btree_map \<Rightarrow> (address, nat \<times> nat) btree_map" where
  "note_missed proposer n m = (let (proposed, missed) = (case bmap_get m proposer of None \<Rightarrow> (0, 0) | Some e \<Rightarrow> e) in
     bmap_insert proposer (proposed + 1, (missed + n) mod 2 ^ 64) m)"

text \<open>The loop over the blocks of the previous term, newest first. The numbers of the blocks decrease on a chain, so that
  the number of the first block, taken as fuel, suffices.\<close>

fun reward_walk :: "nat \<Rightarrow> consensus_client \<Rightarrow> (h256 \<Rightarrow> (core_error, address list) result) \<Rightarrow> u64 \<Rightarrow> header \<Rightarrow> address list \<Rightarrow>
    (address, nat) btree_map \<Rightarrow> (address, nat \<times> nat) btree_map \<Rightarrow>
    (core_error, (address, nat) btree_map \<times> (address, nat \<times> nat) btree_map) result" where
  "reward_walk 0 chain addresses start h parent_validators signers missed = Panics ''out of fuel''"
| "reward_walk (Suc fuel) chain addresses start h parent_validators signers missed =
     (if start = h_number h then Ok (signers, missed)
      else
        rbind (map_err UtilErr (seal_bitset (seal h))) (\<lambda>bits.
        rbind (count_signers parent_validators (true_index_iter bits) signers) (\<lambda>signers'.
        rbind (parent_header chain h) (\<lambda>h'.
        rbind (parent_validators_of chain addresses h') (\<lambda>parent_validators'.
        rbind (map_err UtilErr (seal_bitset (seal h'))) (\<lambda>bits'.
        reward_walk fuel chain addresses start h' parent_validators' signers'
          (note_missed (author h') ((length parent_validators' + 2 ^ 64 - bs_count bits') mod 2 ^ 64) missed)))))))"

fun settle_rewards :: "address btree_set \<Rightarrow> (address, nat) btree_map \<Rightarrow> u64 \<Rightarrow> (address \<times> u64) list \<Rightarrow> u64 \<Rightarrow>
    (address, u64) btree_map \<Rightarrow> ('e, u64 \<times> (address, u64) btree_map) result" where
  "settle_rewards blacklist signers blocks [] reduced_rewards pending = Ok (reduced_rewards, pending)"
| "settle_rewards blacklist signers blocks ((address, intermediate_reward) # rest) reduced_rewards pending =
     (if is_banned address blacklist then settle_rewards blacklist signers blocks rest (reduced_rewards + intermediate_reward) pending
      else
        rbind (expect ''called Option::unwrap() on a None value'' (bmap_get signers address)) (\<lambda>n.
        rbind (final_rewards intermediate_reward (of_nat n) blocks) (\<lambda>final_block_rewards.
        settle_rewards blacklist signers blocks rest (reduced_rewards + (intermediate_reward - final_block_rewards))
          (bmap_insert address final_block_rewards pending))))"

definition calculate_pending_rewards :: "consensus_client \<Rightarrow> (h256 \<Rightarrow> (core_error, address list) result) \<Rightarrow> (address, u64) btree_map \<Rightarrow>
    u64 \<Rightarrow> header \<Rightarrow> u64 \<Rightarrow> address btree_set \<Rightarrow> (core_error, (address, u64) btree_map) result" where
  "calculate_pending_rewards chain addresses rewards start_of_current start_header start_of_previous blacklist =
     rbind (parent_validators_of chain addresses start_header) (\<lambda>parent_validators.
     rbind (reward_walk (unat (h_number start_header) + 1) chain addresses start_of_previous start_header parent_validators [] [])
       (\<lambda>(signers, missed).
     rbind (settle_rewards blacklist signers (start_of_current - start_of_previous) rewards 0 []) (\<lambda>(reduced, pending).
     Ok (give_additional_rewards reduced missed pending))))"

section \<open>What a validator keeps\<close>

definition reward_rate :: "int \<Rightarrow> int \<Rightarrow> int" where
  "reward_rate s b = (if 2 * b \<le> 3 * s then 3 * s + 7 * b else if b \<le> 2 * s then 48 * s - 23 * b
     else if b \<le> 3 * s then 6 * s - 2 * b else 0)"

lemma reward_rate_bounds: "0 \<le> s \<Longrightarrow> s \<le> b \<Longrightarrow> 0 \<le> reward_rate s b \<and> reward_rate s b \<le> 10 * b"
  by (auto simp: reward_rate_def)

lemma reward_rate_mono: "0 \<le> s \<Longrightarrow> s \<le> s' \<Longrightarrow> s' \<le> b \<Longrightarrow> reward_rate s b \<le> reward_rate s' b"
  by (auto simp: reward_rate_def)

lemma sint_small:
  assumes "0 \<le> k" "k < 2 ^ 127"
  shows "sint (of_int k :: 128 word) = k"
  using assms by (simp add: signed_of_int signed_take_bit_int_eq_self)

lemma small_products:
  assumes "uint (b :: u64) < 2 ^ 57" "uint s \<le> uint b"
  shows "b * 2 \<le> s * 3 \<longleftrightarrow> 2 * uint b \<le> 3 * uint s" "b \<le> s * 2 \<longleftrightarrow> uint b \<le> 2 * uint s"
    "b \<le> s * 3 \<longleftrightarrow> uint b \<le> 3 * uint s" "3 * s < b \<longleftrightarrow> 3 * uint s < uint b"
proof -
  have "uint (s * 3) = 3 * uint s" "uint (s * 2) = 2 * uint s" "uint (b * 2) = 2 * uint b" "uint (3 * s) = 3 * uint s"
    using assms by (simp_all add: uint_word_ariths)
  then show "b * 2 \<le> s * 3 \<longleftrightarrow> 2 * uint b \<le> 3 * uint s" "b \<le> s * 2 \<longleftrightarrow> uint b \<le> 2 * uint s"
    "b \<le> s * 3 \<longleftrightarrow> uint b \<le> 3 * uint s" "3 * s < b \<longleftrightarrow> 3 * uint s < uint b"
    unfolding word_le_def word_less_def by simp_all
qed

lemma ucast128: "(ucast (w :: u64) :: 128 word) = of_int (uint w)"
  by (rule ucast_eq)

lemma reward_word:
  "(ucast (ir :: u64) :: 128 word) * (of_int x * ucast (s :: u64) + of_int y * ucast (b :: u64)) = of_int (uint ir * (x * uint s + y * uint b))"
  unfolding ucast128 by (simp only: of_int_mult of_int_add)

lemma final_rewards_eq:
  assumes "0 < b" "s \<le> b" "unat b < 2 ^ 57"
  shows "(final_rewards ir s b :: ('e, _) result) = Ok (of_int (uint ir * reward_rate (uint s) (uint b) div (10 * uint b)))"
proof -
  have pos: "0 < uint b" using assms(1) word_less_def [of 0 b] by simp
  have sb: "uint s \<le> uint b" using assms(2) word_le_def [of s b] by blast
  have small: "uint b < 2 ^ 57" by (subst uint_nat) (use assms(3) in \<open>simp only: of_nat_less_numeral_power_cancel_iff\<close>)
  let ?r = "reward_rate (uint s) (uint b)"
  let ?n = "uint ir * ?r" and ?d = "10 * uint b"
  have ir: "0 \<le> uint ir" "uint ir < 2 ^ 64" using unsigned_less [where 'a = int and w = ir] by simp_all
  have r: "0 \<le> ?r" "?r \<le> ?d" using reward_rate_bounds [OF _ sb] by simp_all
  have n: "0 \<le> ?n" "?n \<le> uint ir * ?d" using r ir(1) by (simp_all add: mult_left_mono)
  have "uint ir * ?d < 2 ^ 64 * 2 ^ 61" using ir small pos by (intro mult_strict_mono) simp_all
  then have "uint ir * ?d < 2 ^ 127" by (rule order.strict_trans2) simp
  then have n128: "?n < 2 ^ 127" by (rule le_less_trans [OF n(2)])
  have q: "0 \<le> ?n div ?d" "?n div ?d < 2 ^ 64"
    using n pos zdiv_mono1 [OF n(2), of ?d] ir(2) by (simp_all add: pos_imp_zdiv_nonneg_iff)
  have d: "(10 :: 128 word) * ucast b = of_int ?d" by (simp only: ucast128 of_int_mult of_int_numeral)
  have sd: "sint (of_int ?d :: 128 word) = ?d" by (rule sint_small) (use pos small in simp_all)
  then have d0: "(of_int ?d :: 128 word) \<noteq> 0" using pos by force
  have num: "sint ((ucast ir :: 128 word) * (of_int x * ucast s + of_int y * ucast b)) = ?n" if "?r = x * uint s + y * uint b" for x y
    unfolding reward_word that [symmetric] by (rule sint_small [OF n(1) n128])
  have run: "rbind (Ok (of_int x, of_int y)) (\<lambda>(a, b').
     let numerator = (ucast ir :: 128 word) * (a * ucast s + b' * ucast b); denominator = (10 :: 128 word) * ucast b in
     rbind (rassert ''numerator >= 0'' (0 \<le> sint numerator)) (\<lambda>_.
     rbind (rassert ''attempt to divide by zero'' (denominator \<noteq> 0)) (\<lambda>_.
     u64_unwrap (sint numerator div sint denominator)))) = (Ok (of_int (?n div ?d)) :: ('e, _) result)"
    if "?r = x * uint s + y * uint b" for x y
    using n(1) q by (simp only: Let_def num [OF that] d sd d0 rbind_simps prod.case) (simp add: u64_unwrap_def)
  show ?thesis
    unfolding final_rewards_def small_products [OF small sb]
    using run [of 3 7] run [of 48 "-23"] run [of 6 "-2"] run [of 0 0] by (simp only: reward_rate_def) auto
qed

lemma unat_of_int_small: "0 \<le> k \<Longrightarrow> k < 2 ^ 64 \<Longrightarrow> unat (of_int k :: u64) = nat k"
  by (simp add: unsigned_of_int nat_take_bit_eq take_bit_int_eq_self flip: nat_uint_eq)

lemma final_rewards_unat:
  assumes "0 < b" "s \<le> b" "unat b < 2 ^ 57"
  obtains r where "(final_rewards ir s b :: ('e, _) result) = Ok r" "unat r = nat (uint ir * reward_rate (uint s) (uint b) div (10 * uint b))"
    "unat r \<le> unat ir"
proof -
  let ?n = "uint ir * reward_rate (uint s) (uint b)" and ?d = "10 * uint b"
  have pos: "0 < ?d" using assms(1) word_less_def [of 0 b] by simp
  have sb: "uint s \<le> uint b" using assms(2) word_le_def [of s b] by blast
  have n: "0 \<le> ?n" "?n \<le> uint ir * ?d" using reward_rate_bounds [OF _ sb] by (simp_all add: mult_left_mono)
  have q: "0 \<le> ?n div ?d" "?n div ?d \<le> uint ir"
    using n pos zdiv_mono1 [OF n(2) pos] by (simp_all add: pos_imp_zdiv_nonneg_iff)
  moreover have "uint ir < 2 ^ 64" using unsigned_less [where 'a = int and w = ir] by simp
  ultimately have "unat (of_int (?n div ?d) :: u64) = nat (?n div ?d)" by (intro unat_of_int_small) simp_all
  moreover have "nat (?n div ?d) \<le> unat ir" using q(2) nat_mono by fastforce
  ultimately show ?thesis using that [OF final_rewards_eq [OF assms]] by simp
qed

text \<open>
  C38: the reward a validator keeps is computed without overflow and within bounds. In a term of fewer than $2^{57}$ blocks,
  of which a validator signed at most all, the computation in \<open>i128\<close> returns a value between zero and the full reward, which never
  decreases with the number of signatures, is everything for all signatures and nothing for less than a third of them.
\<close>

theorem final_rewards_bounds:
  assumes "0 < b" "s \<le> s'" "s' \<le> b" "unat b < 2 ^ 57"
  shows "\<exists>r r'. final_rewards ir s b = (Ok r :: ('e, _) result) \<and> final_rewards ir s' b = (Ok r' :: ('e, _) result) \<and>
    r \<le> r' \<and> r' \<le> ir \<and> (s' = b \<longrightarrow> r' = ir) \<and> (3 * unat s < unat b \<longrightarrow> r = 0)"
proof -
  obtain r where r: "(final_rewards ir s b :: ('e, _) result) = Ok r" "unat r = nat (uint ir * reward_rate (uint s) (uint b) div (10 * uint b))"
    using final_rewards_unat [OF assms(1) order_trans [OF assms(2,3)] assms(4), of ir, where 'e = 'e] by metis
  obtain r' where r': "(final_rewards ir s' b :: ('e, _) result) = Ok r'"
    "unat r' = nat (uint ir * reward_rate (uint s') (uint b) div (10 * uint b))" "unat r' \<le> unat ir"
    using final_rewards_unat [OF assms(1,3,4), of ir, where 'e = 'e] by metis
  have pos: "0 < uint b" using assms(1) word_less_def [of 0 b] by simp
  have ord: "uint s \<le> uint s'" "uint s' \<le> uint b" using assms(2,3) word_le_def [of s s'] word_le_def [of s' b] by blast+
  have "uint ir * reward_rate (uint s) (uint b) \<le> uint ir * reward_rate (uint s') (uint b)"
    using reward_rate_mono [OF _ ord] by (simp add: mult_left_mono)
  then have "unat r \<le> unat r'" unfolding r(2) r'(2) using pos by (intro nat_mono zdiv_mono1) simp_all
  moreover have "r' = ir" if "s' = b"
  proof -
    have "unat r' = unat ir" using pos that unfolding r'(2) by (simp add: reward_rate_def)
    then show ?thesis by (simp only: word_unat_eq_iff)
  qed
  moreover have "unat r = 0" if "3 * unat s < unat b"
  proof -
    have "3 * uint s < uint b" using that by (simp only: uint_nat)
    then have "reward_rate (uint s) (uint b) = 0" using pos by (simp add: reward_rate_def)
    then show ?thesis unfolding r(2) by simp
  qed
  ultimately show ?thesis using r(1) r'(1,3) by (auto simp: word_le_nat_alt unat_eq_zero)
qed

theorem final_rewards_bounds_witness:
  "\<exists>r r'. final_rewards 1000 90 300 = (Ok r :: (unit, _) result) \<and> final_rewards 1000 300 300 = (Ok r' :: (unit, _) result) \<and>
     r \<le> r' \<and> r' \<le> 1000 \<and> r' = 1000 \<and> r = 0"
  using final_rewards_bounds [of 300 90 300 1000, where 'e = unit] by simp

section \<open>Shares of the stakeholders\<close>

function pay_shares :: "fee_iter \<Rightarrow> ('x, fee_iter) stake_op" where
  "pay_shares it = (case fee_next it of
     Inl f \<Rightarrow> slift (Inl f)
   | Inr (None, it') \<Rightarrow> sreturn it'
   | Inr (Some (address, sh), it') \<Rightarrow> sbind (add_balance address sh) (\<lambda>_. pay_shares it'))"
  by pat_completeness auto
termination
  by (relation "measure (\<lambda>it. length (stake_holdings it))")
    (auto simp: fee_next_def rbind_eq_Ok_iff split: list.splits)

declare pay_shares.simps [simp del]

definition share_of :: "nat \<Rightarrow> nat \<Rightarrow> u64 \<Rightarrow> nat" where
  "share_of T fee stake = fee * unat stake div T"

lemma unat_ucast128: "unat (ucast (w :: u64) :: 128 word) = unat w"
proof -
  have "unat w < 2 ^ 64" using unsigned_less [where 'a = nat and w = w] by simp
  then have "unat w < 2 ^ 128" by simp
  then show ?thesis by (simp only: unsigned_ucast_eq) (simp add: take_bit_nat_eq_self)
qed

lemma share_eq:
  assumes "stake \<le> T" "T \<noteq> 0"
  shows "share T stake fee = Ok (of_nat (share_of (unat T) (unat fee) stake))" "share_of (unat T) (unat fee) stake \<le> unat fee"
proof -
  let ?q = "unat fee * unat stake div unat T"
  have T: "0 < unat T" using assms(2) by (simp add: unat_gt_0)
  have "unat fee * unat stake \<le> unat fee * unat T" using assms(1) by (simp add: word_le_nat_alt)
  then have q: "?q \<le> unat fee" using T by (metis div_le_mono nonzero_mult_div_cancel_right less_numeral_extra(3))
  then show "share_of (unat T) (unat fee) stake \<le> unat fee" by (simp add: share_of_def)
  have "unat fee < 2 ^ 64" "unat stake < 2 ^ 64" using unsigned_less [where 'a = nat and w = fee] unsigned_less [where 'a = nat and w = stake] by simp_all
  then have "unat fee * unat stake < 2 ^ 64 * 2 ^ 64" by (intro mult_strict_mono) simp_all
  then have "unat ((ucast fee :: 128 word) * ucast stake div ucast T) = ?q"
    by (simp add: unat_div unat_word_ariths unat_ucast128)
  then have "uint ((ucast fee :: 128 word) * ucast stake div ucast T) = int ?q" by (simp only: uint_nat)
  moreover have "int ?q < 2 ^ 64" using le_less_trans [OF q \<open>unat fee < 2 ^ 64\<close>] by (simp only: of_nat_less_numeral_power_cancel_iff)
  ultimately show "share T stake fee = Ok (of_nat (share_of (unat T) (unat fee) stake))"
    using assms by (simp add: share_def u64_unwrap_def share_of_def)
qed

lemma shares_le:
  assumes "sum_list (map unat stakes) \<le> T" "0 < T"
  shows "(\<Sum>x\<leftarrow>stakes. share_of T F x) \<le> F"
proof -
  have "(\<Sum>x\<leftarrow>stakes. share_of T F x) * T \<le> F * sum_list (map unat stakes)"
    by (induction stakes) (simp_all add: share_of_def algebra_simps add_mono div_times_less_eq_dividend)
  also have "\<dots> \<le> F * T" using assms(1) by simp
  finally show ?thesis using assms(2) by simp
qed

lemma fee_next_Cons:
  assumes "stake_holdings it = (a, x) # rest" "x \<le> total_stakes it" "total_stakes it \<noteq> 0"
    and "q = share_of (unat (total_stakes it)) (unat (total_min_fee it)) x" "q \<le> unat (remaining_fee it)"
  shows "fee_next it = Ok (Some (a, of_nat q), it\<lparr>remaining_fee := remaining_fee it - of_nat q, stake_holdings := rest\<rparr>)"
    "unat (of_nat q :: u64) = q" "unat (remaining_fee it - of_nat q) = unat (remaining_fee it) - q"
proof -
  have "unat (remaining_fee it) < 2 ^ 64" using unsigned_less [where 'a = nat and w = "remaining_fee it"] by simp
  with assms(5) have "q < 2 ^ 64" by simp
  then show q: "unat (of_nat q :: u64) = q" by (simp add: unsigned_of_nat take_bit_nat_eq_self)
  then have "(of_nat q :: u64) \<le> remaining_fee it" using assms(5) by (simp add: word_le_nat_alt)
  then show "fee_next it = Ok (Some (a, of_nat q), it\<lparr>remaining_fee := remaining_fee it - of_nat q, stake_holdings := rest\<rparr>)"
    and "unat (remaining_fee it - of_nat q) = unat (remaining_fee it) - q"
    using assms(1) by (simp_all add: fee_next_def share_eq(1) [OF assms(2,3)] unat_sub q flip: assms(4))
qed

lemma pay_shares_run:
  assumes "T = unat (total_stakes it)" "F = unat (total_min_fee it)" "0 < T"
    and "\<forall>x \<in> snd ` set (stake_holdings it). x \<le> total_stakes it"
    and "(\<Sum>x\<leftarrow>map snd (stake_holdings it). share_of T F x) \<le> unat (remaining_fee it)"
    and "total_ccc s + (\<Sum>x\<leftarrow>map snd (stake_holdings it). share_of T F x) < 2 ^ 64" "distinct (map fst (stake_holdings it))"
  shows "\<exists>it' t. pay_shares it s = (Ok it', t) \<and> only_accounts s t \<and>
    unat (remaining_fee it') = unat (remaining_fee it) - (\<Sum>x\<leftarrow>map snd (stake_holdings it). share_of T F x) \<and>
    total_ccc t = total_ccc s + (\<Sum>x\<leftarrow>map snd (stake_holdings it). share_of T F x) \<and>
    (\<forall>a. balance_of t a = balance_of s a + (case map_of (stake_holdings it) a of None \<Rightarrow> 0 | Some x \<Rightarrow> of_nat (share_of T F x)))"
  using assms
proof (induction "stake_holdings it" arbitrary: it s)
  case Nil
  then show ?case by (simp add: pay_shares.simps fee_next_def flip: Nil.hyps)
next
  case (Cons h rest)
  obtain a x where h: "h = (a, x)" by (cases h)
  let ?q = "share_of T F x" and ?r = "\<Sum>x\<leftarrow>map snd rest. share_of T F x"
  note hold = Cons.hyps(2) [symmetric, unfolded h]
  have x: "x \<le> total_stakes it" and nz: "total_stakes it \<noteq> 0" and q: "?q \<le> unat (remaining_fee it)"
    using Cons.prems by (auto simp: hold)
  note next_step = fee_next_Cons [OF hold x nz _ q, unfolded Cons.prems(1,2), OF refl, folded Cons.prems(1,2)]
  let ?it = "it\<lparr>remaining_fee := remaining_fee it - of_nat ?q, stake_holdings := rest\<rparr>"
  obtain s1 where s1: "add_balance a (of_nat ?q) s = (Ok (), s1)" "balance_of s1 = (balance_of s)(a := balance_of s a + of_nat ?q)"
    "only_accounts s s1" using add_balance_spec [of a "of_nat ?q" s] by blast
  have tot: "total_ccc s1 = total_ccc s + ?q"
    using Cons.prems(6) add_balance_total [of s "of_nat ?q" a] s1(1) next_step(2) by (auto simp: hold)
  have "\<exists>it' t. pay_shares ?it s1 = (Ok it', t) \<and> only_accounts s1 t \<and>
    unat (remaining_fee it') = unat (remaining_fee ?it) - (\<Sum>x\<leftarrow>map snd (stake_holdings ?it). share_of T F x) \<and>
    total_ccc t = total_ccc s1 + (\<Sum>x\<leftarrow>map snd (stake_holdings ?it). share_of T F x) \<and>
    (\<forall>a. balance_of t a = balance_of s1 a + (case map_of (stake_holdings ?it) a of None \<Rightarrow> 0 | Some x \<Rightarrow> of_nat (share_of T F x)))"
    using Cons.prems next_step(3) tot by (intro Cons.hyps(1)) (simp_all add: hold)
  then obtain it' t where t: "pay_shares ?it s1 = (Ok it', t)" "only_accounts s1 t"
    "unat (remaining_fee it') = unat (remaining_fee it) - ?q - ?r" "total_ccc t = total_ccc s + ?q + ?r"
    "\<forall>b. balance_of t b = balance_of s1 b + (case map_of rest b of None \<Rightarrow> 0 | Some x \<Rightarrow> of_nat (share_of T F x))"
    by (auto simp: next_step(3) tot)
  have "pay_shares it s = (Ok it', t)"
    by (subst pay_shares.simps) (simp add: next_step(1) sbind_apply s1(1) t(1))
  moreover have "map_of rest a = None" using Cons.prems(7) by (auto simp: hold map_of_eq_None_iff)
  ultimately show ?case
    using t s1(2) only_accounts_trans [OF s1(3) t(2)] by (auto simp: hold split: option.split)
qed

lemma pay_shares_all:
  assumes "bmap_inv stakes" "0 < bmap_total stakes" "bmap_total stakes < 2 ^ 64" "total_ccc s + unat fee < 2 ^ 64"
  obtains it t where "pay_shares (fee_distribute fee stakes) s = (Ok it, t)" "only_accounts s t"
    "total_ccc t + unat (remaining_fee it) = total_ccc s + unat fee" "unat (remaining_fee it) \<le> unat fee"
    "\<forall>a. balance_of t a = balance_of s a +
       (case bmap_get stakes a of None \<Rightarrow> 0 | Some x \<Rightarrow> of_nat (unat fee * unat x div bmap_total stakes))"
proof -
  let ?it = "fee_distribute fee stakes" and ?T = "bmap_total stakes"
  have T: "unat (bmap_sum stakes) = ?T" by (rule bmap_sum_unat [OF assms(3)])
  have le: "(\<Sum>x\<leftarrow>map snd stakes. share_of ?T (unat fee) x) \<le> unat fee"
    by (rule shares_le) (use assms(2) in \<open>simp_all add: bmap_total_def\<close>)
  have "x \<le> bmap_sum stakes" if "(a, x) \<in> set stakes" for a x
    using bmap.get_le_total [OF assms(1), of a x] bmap_get_in [OF assms(1)] that T by (simp add: word_le_nat_alt)
  moreover have "distinct (map fst stakes)" using assms(1) by (simp add: bmap_inv_def strict_sorted_iff)
  ultimately have "\<exists>it' t. pay_shares ?it s = (Ok it', t) \<and> only_accounts s t \<and>
    unat (remaining_fee it') = unat (remaining_fee ?it) - (\<Sum>x\<leftarrow>map snd (stake_holdings ?it). share_of ?T (unat fee) x) \<and>
    total_ccc t = total_ccc s + (\<Sum>x\<leftarrow>map snd (stake_holdings ?it). share_of ?T (unat fee) x) \<and>
    (\<forall>a. balance_of t a = balance_of s a + (case map_of (stake_holdings ?it) a of None \<Rightarrow> 0 | Some x \<Rightarrow> of_nat (share_of ?T (unat fee) x)))"
    using assms(2,4) le by (intro pay_shares_run) (auto simp: fee_distribute_def T)
  then show ?thesis using that le unfolding fee_distribute_def bmap_get_def share_of_def by auto
qed

section \<open>The rewards of a term are not exceeded\<close>

lemma give_group_total:
  assumes "bmap_inv p" "length vs * unat reward \<le> unat red" "bmap_total p + unat red < 2 ^ 64"
    and "give_group reward vs red p = (red', p')"
  shows "bmap_inv p' \<and> bmap_total p' + unat red' = bmap_total p + unat red"
  using assms
proof (induction vs arbitrary: red p)
  case (Cons v vs)
  have le: "unat reward \<le> unat red" using Cons.prems(2) by simp
  then have sub: "unat (red - reward) = unat red - unat reward" by (simp add: unat_sub word_le_nat_alt)
  have tot: "bmap_total (entry_add v reward p) = bmap_total p + unat reward" and inv: "bmap_inv (entry_add v reward p)"
    using bmap.total_add_entry [OF Cons.prems(1), of reward v] Cons.prems(1,3) le by (simp_all add: entry_add_def)
  have "bmap_inv p' \<and> bmap_total p' + unat red' = bmap_total (entry_add v reward p) + unat (red - reward)"
    using Cons.prems(2-4) le by (intro Cons.IH inv) (simp_all add: tot sub)
  then show ?case using le by (simp add: tot sub)
qed simp

lemma give_groups_total:
  assumes "bmap_inv p" "\<forall>g \<in> set groups. length g + 1 < 2 ^ 64" "bmap_total p + unat red < 2 ^ 64"
  shows "bmap_inv (give_groups groups red p) \<and> bmap_total (give_groups groups red p) \<le> bmap_total p + unat red"
  using assms
proof (induction groups arbitrary: red p)
  case (Cons vs groups)
  let ?reward = "red div (of_nat (length vs) + 1)"
  have n: "unat (of_nat (length vs) + 1 :: u64) = length vs + 1"
    using Cons.prems(2) by (simp add: unat_word_ariths unsigned_of_nat take_bit_nat_eq_self)
  have "length vs * unat ?reward \<le> (length vs + 1) * (unat red div (length vs + 1))" by (simp add: unat_div n)
  also have "\<dots> \<le> unat red" by (rule times_div_less_eq_dividend)
  finally have le: "length vs * unat ?reward \<le> unat red" .
  obtain red' p' where g: "give_group ?reward vs red p = (red', p')" by force
  note total = give_group_total [OF Cons.prems(1) le Cons.prems(3) g]
  then have "bmap_inv (give_groups groups red' p') \<and> bmap_total (give_groups groups red' p') \<le> bmap_total p' + unat red'"
    using Cons.prems(2,3) by (intro Cons.IH) simp_all
  then show ?case using Cons.prems(1) total g by (simp add: Let_def)
qed simp

lemma bmap_insert_values: "snd ` set (bmap_insert k v m) \<subseteq> insert v (snd ` set m)"
  by (induction k v m rule: bmap_insert.induct) auto

lemma by_average_length:
  assumes "\<forall>g \<in> snd ` set m. length g \<le> n"
  shows "\<forall>g \<in> snd ` set (by_average xs m). length g \<le> n + length xs"
  using assms
proof (induction xs m arbitrary: n rule: by_average.induct)
  case (2 a proposed missed rest m)
  let ?k = "of_nat missed / of_nat proposed :: rat"
  let ?g = "(case bmap_get m ?k of None \<Rightarrow> [] | Some as \<Rightarrow> as) @ [a]"
  have "length as \<le> n" if "bmap_get m ?k = Some as" for as
    using 2(2) that by (force simp: bmap_get_def dest: map_of_SomeD)
  then have "length ?g \<le> Suc n" by (simp split: option.split)
  then have "\<forall>g \<in> snd ` set (bmap_insert ?k ?g m). length g \<le> Suc n"
    using bmap_insert_values [of ?k ?g m] 2(2) by fastforce
  then show ?case using 2(1) [OF refl, of "Suc n"] by (simp add: Let_def)
qed simp

lemma additional_rewards_total:
  assumes "bmap_inv p" "length missed + 1 < 2 ^ 64" "bmap_total p + unat red < 2 ^ 64"
  shows "bmap_inv (give_additional_rewards red missed p)" "bmap_total (give_additional_rewards red missed p) \<le> bmap_total p + unat red"
proof -
  have "\<forall>g \<in> set (map snd (by_average missed [])). length g + 1 < 2 ^ 64"
    using by_average_length [of "[]" 0 missed] assms(2) by fastforce
  from give_groups_total [OF assms(1) this assms(3)]
  show "bmap_inv (give_additional_rewards red missed p)" "bmap_total (give_additional_rewards red missed p) \<le> bmap_total p + unat red"
    by (simp_all add: give_additional_rewards_def)
qed

text \<open>Blocks are linked when each has the number after its parent's.\<close>

definition linked_header :: "consensus_client \<Rightarrow> header \<Rightarrow> bool" where
  "linked_header chain h \<longleftrightarrow> (\<forall>h'. block_header chain (parent_hash h) = Some h' \<longrightarrow> unat (h_number h) = Suc (unat (h_number h')))"

definition linked_chain :: "consensus_client \<Rightarrow> bool" where
  "linked_chain chain \<longleftrightarrow> (\<forall>x h. block_header chain x = Some h \<longrightarrow> linked_header chain h)"

definition seals_of :: "(address, nat) btree_map \<Rightarrow> address \<Rightarrow> nat" where
  "seals_of m a = (case bmap_get m a of None \<Rightarrow> 0 | Some n \<Rightarrow> n)"

lemma seals_of_add: "bmap_inv m \<Longrightarrow> seals_of (entry_add k n m) a = seals_of m a + (if a = k then n else 0)"
  by (simp add: seals_of_def entry_add_def)

lemma count_signers_le:
  assumes "count_signers pv idx m = (Ok m' :: ('e, _) result)" "bmap_inv m" "distinct pv" "distinct idx"
  shows "bmap_inv m' \<and> (\<forall>i \<in> set idx. i < length pv) \<and>
    (\<forall>a. seals_of m' a \<le> seals_of m a + (if a \<in> (!) pv ` set idx then 1 else 0))"
  using assms
proof (induction idx arbitrary: m)
  case (Cons i idx)
  then have i: "i < length pv" and run: "count_signers pv idx (entry_add (pv ! i) 1 m) = (Ok m' :: ('e, _) result)"
    by (auto simp: rbind_eq_Ok_iff split: if_splits)
  have inv: "bmap_inv (entry_add (pv ! i) (1 :: nat) m)" using Cons.prems(2) by (simp add: entry_add_def)
  note IH = Cons.IH [OF run inv Cons.prems(3)]
  have "pv ! i \<notin> (!) pv ` set idx"
    using IH Cons.prems(3,4) i by (auto simp: nth_eq_iff_index_eq)
  then show ?case
    using IH Cons.prems(4) i by (auto simp: seals_of_add [OF Cons.prems(2)] split: if_splits) (metis Suc_eq_plus1 add.right_neutral le_SucI)+
qed simp

lemma note_missed_length: "length (note_missed p n m) \<le> Suc (length m)"
proof -
  have "length (bmap_insert k v m) \<le> Suc (length m)" for k v
    by (induction k v m rule: bmap_insert.induct) auto
  then show ?thesis by (simp add: note_missed_def split: option.split prod.split)
qed

lemma reward_walk_counts:
  assumes "reward_walk fuel chain addresses start h pv m ms = Ok (m', ms')" "linked_chain chain" "linked_header chain h"
    and "distinct pv" "\<forall>x as. addresses x = Ok as \<longrightarrow> distinct as"
    and "bmap_inv m" "\<forall>a. seals_of m a \<le> k" "length ms \<le> k"
  shows "unat start \<le> unat (h_number h) \<and> bmap_inv m' \<and> (\<forall>a. seals_of m' a \<le> k + (unat (h_number h) - unat start)) \<and>
    length ms' \<le> k + (unat (h_number h) - unat start)"
  using assms
proof (induction fuel arbitrary: h pv m ms k)
  case (Suc fuel)
  show ?case
  proof (cases "start = h_number h")
    case True
    with Suc.prems show ?thesis by simp
  next
    case False
    with Suc.prems(1) obtain bits m1 h' pv' n where run: "count_signers pv (true_index_iter bits) m = (Ok m1 :: (core_error, _) result)"
      "block_header chain (parent_hash h) = Some h'" "parent_validators_of chain addresses h' = Ok pv'"
      "reward_walk fuel chain addresses start h' pv' m1 (note_missed (author h') n ms) = Ok (m', ms')"
      by (auto simp: rbind_eq_Ok_iff parent_header_def)
    have num: "unat (h_number h) = Suc (unat (h_number h'))" using run(2) Suc.prems(3) by (simp add: linked_header_def)
    have "distinct (true_index_iter bits)" by (simp add: true_index_iter_eq)
    note signed_once = count_signers_le [OF run(1) Suc.prems(6,4) this]
    have "seals_of m1 a \<le> Suc k" for a
      using signed_once [THEN conjunct2, THEN conjunct2, rule_format, of a] Suc.prems(7) [rule_format, of a] by (simp split: if_splits)
    moreover have "linked_header chain h'" using run(2) Suc.prems(2) by (auto simp: linked_chain_def)
    moreover have "distinct pv'" using run(3) Suc.prems(5) by (auto simp: parent_validators_of_def rbind_eq_Ok_iff)
    moreover have "length (note_missed (author h') n ms) \<le> Suc k" using note_missed_length [of "author h'" n ms] Suc.prems(8) by simp
    ultimately have IH: "unat start \<le> unat (h_number h') \<and> bmap_inv m' \<and>
      (\<forall>a. seals_of m' a \<le> Suc k + (unat (h_number h') - unat start)) \<and> length ms' \<le> Suc k + (unat (h_number h') - unat start)"
      using signed_once Suc.prems(5) by (intro Suc.IH [OF run(4) Suc.prems(2)]) simp_all
    have "k + (unat (h_number h) - unat start) = Suc k + (unat (h_number h') - unat start)" using IH num by linarith
    moreover have "unat start \<le> unat (h_number h)" using IH num by simp
    ultimately show ?thesis using IH by metis
  qed
qed simp

lemma settle_total:
  assumes "settle_rewards bl m b rs red p = (Ok (red', p') :: ('e, _) result)" "0 < b" "unat b < 2 ^ 57" "\<forall>a. seals_of m a \<le> unat b"
    and "bmap_inv p" "distinct (map fst rs)" "\<forall>a \<in> fst ` set rs. bmap_get p a = None"
    and "bmap_total rs + bmap_total p + unat red < 2 ^ 64"
  shows "bmap_inv p' \<and> bmap_total p' + unat red' = bmap_total rs + bmap_total p + unat red"
  using assms
proof (induction rs arbitrary: red p)
  case (Cons r rs)
  obtain a ir where r: "r = (a, ir)" by (cases r)
  show ?case
  proof (cases "is_banned a bl")
    case True
    have add: "unat (red + ir) = unat red + unat ir" using Cons.prems(8) by (simp add: r unat_word_ariths)
    have "bmap_inv p' \<and> bmap_total p' + unat red' = bmap_total rs + bmap_total p + unat (red + ir)"
      using Cons.prems True by (intro Cons.IH) (simp_all add: r add)
    then show ?thesis by (simp add: r add)
  next
    case False
    then obtain n f where n: "bmap_get m a = Some n" "final_rewards ir (of_nat n) b = (Ok f :: ('e, _) result)"
      "settle_rewards bl m b rs (red + (ir - f)) (bmap_insert a f p) = (Ok (red', p') :: ('e, _) result)"
      using Cons.prems(1) by (auto simp: r rbind_eq_Ok_iff)
    have "n \<le> unat b" using Cons.prems(4) [rule_format, of a] n(1) by (simp add: seals_of_def)
    then have "(of_nat n :: u64) \<le> b" using Cons.prems(3) by (simp add: word_le_nat_alt unsigned_of_nat take_bit_nat_eq_self)
    from final_rewards_unat [OF Cons.prems(2) this Cons.prems(3), where 'e = 'e and ir = ir]
    obtain f' where "final_rewards ir (of_nat n) b = (Ok f' :: ('e, _) result)" "unat f' \<le> unat ir" by metis
    with n(2) have f: "unat f \<le> unat ir" by simp
    then have "unat (ir - f) = unat ir - unat f" by (simp add: unat_sub word_le_nat_alt)
    then have add: "unat (red + (ir - f)) = unat red + (unat ir - unat f)"
      using Cons.prems(8) by (simp add: r unat_word_ariths)
    have fresh: "bmap_get p a = None" using Cons.prems(7) by (simp add: r)
    have ins: "bmap_total (bmap_insert a f p) = bmap_total p + unat f" using bmap_total_insert [OF Cons.prems(5), of a f] fresh by simp
    have "bmap_inv p' \<and> bmap_total p' + unat red' = bmap_total rs + bmap_total (bmap_insert a f p) + unat (red + (ir - f))"
      using Cons.prems f by (intro Cons.IH n(3)) (auto simp: r add ins)
    then show ?thesis using f by (simp add: r add ins)
  qed
qed simp

lemma pending_rewards_total:
  assumes "calculate_pending_rewards chain addresses rewards start h prev bl = Ok pending"
    and "linked_chain chain" "linked_header chain h" "\<forall>x as. addresses x = Ok as \<longrightarrow> distinct as"
    and "start = h_number h" "prev < start" "unat start < 2 ^ 57" "bmap_inv rewards" "bmap_total rewards < 2 ^ 64"
  shows "bmap_inv pending" "bmap_total pending \<le> bmap_total rewards"
proof -
  from assms(1) obtain pv m ms red p where run: "parent_validators_of chain addresses h = Ok pv"
    "reward_walk (unat (h_number h) + 1) chain addresses prev h pv [] [] = Ok (m, ms)"
    "settle_rewards bl m (start - prev) rewards 0 [] = (Ok (red, p) :: (core_error, _) result)"
    "pending = give_additional_rewards red ms p"
    by (auto simp: calculate_pending_rewards_def rbind_eq_Ok_iff)
  have "distinct pv" using run(1) assms(4) by (auto simp: parent_validators_of_def rbind_eq_Ok_iff)
  moreover have "\<forall>a. seals_of [] a \<le> 0" by (simp add: seals_of_def)
  ultimately have walk: "unat prev \<le> unat start \<and> bmap_inv m \<and> (\<forall>a. seals_of m a \<le> 0 + (unat start - unat prev)) \<and>
      length ms \<le> 0 + (unat start - unat prev)"
    unfolding assms(5) using assms(2-4) by (intro reward_walk_counts [OF run(2)]) simp_all
  have b: "unat (start - prev) = unat start - unat prev" "0 < start - prev"
    using assms(6) by (simp_all add: unat_sub order_less_imp_le word_neq_0_conv [symmetric])
  have "bmap_inv p \<and> bmap_total p + unat red = bmap_total rewards + bmap_total ([] :: (address, u64) btree_map) + unat (0 :: u64)"
    using walk b assms(7-9) by (intro settle_total [OF run(3)]) (simp_all add: bmap_inv_def strict_sorted_iff)
  then have p: "bmap_inv p" "bmap_total p + unat red = bmap_total rewards" by simp_all
  have "length ms < 2 ^ 57" using walk assms(7) by linarith
  then have few: "length ms + 1 < 2 ^ 64" by simp
  show "bmap_inv pending" "bmap_total pending \<le> bmap_total rewards"
    using additional_rewards_total [OF p(1) few, of red] p(2) assms(9) by (simp_all add: run(4))
qed

section \<open>A reward without a signature\<close>

lemma final_rewards_no_error: "final_rewards ir s b \<noteq> (Error e :: ('e, _) result)"
  by (auto simp: final_rewards_def Let_def u64_unwrap_def rassert_def split: if_splits)

lemma settle_panics:
  assumes "(a, r) \<in> set rs" "\<not> is_banned a bl" "bmap_get m a = None"
  shows "\<exists>msg. settle_rewards bl m b rs red p = (Panics msg :: ('e, _) result)"
  using assms(1)
proof (induction rs arbitrary: red p)
  case (Cons x rs)
  obtain a' ir where x: "x = (a', ir)" by (cases x)
  show ?case
  proof (cases "is_banned a' bl \<or> bmap_get m a' = None")
    case True
    then show ?thesis using Cons assms(2,3) by (auto simp: x)
  next
    case False
    then obtain n where "bmap_get m a' = Some n" by auto
    moreover from this have "a' \<noteq> a" using assms(3) by auto
    ultimately show ?thesis
      using Cons False final_rewards_no_error [of ir "of_nat n" b, where 'e = 'e]
      by (cases "final_rewards ir (of_nat n) b :: ('e, _) result"; cases "projl (final_rewards ir (of_nat n) b :: ('e, _) result)") (auto simp: x)
  qed
qed simp


text \<open>Block 1 was proposed by address 10, and the seal of block 2 carries no precommit.\<close>

definition sample_block :: "u64 \<Rightarrow> h256 \<Rightarrow> header" where
  "sample_block n p = (header_default 0)\<lparr>parent_hash := p, h_number := n, author := 10, seal := the (seal_fields (TendermintSeal 0 0 [] (bits_at [])))\<rparr>"


end
