(* ===== verification/Spec2Isabelle.thy ===== *)
theory Spec2Isabelle
  imports CC_Prelude Tx_Types Script_Code Script_VM Script_Standard Write_Back BTree_Collections
    State_Items Top_State State_Hoare Stake_Data Stake_Ops Stake_Ledger Stake_Roster Stake_Term
    Stake_Election Tx_Syntax Tx_Verified Shard_State Shard_Ledger Shard_Supply Shard_Orders
    Top_Apply Top_Ledger Top_Revert Top_Conserve Top_Seq
    Rlp_Base Rlp_Stream Rlp_In Rlp_Codec Bit_Set Tendermint_Message
    Vote_Collector Block_Header Validator_Set Core_Error Tendermint_Seal Block_Rewards
begin

text \<open>
  A verification development for CodeChain, a node of a block chain for assets. A block holds transactions, which change a state of
  accounts and of assets in shards; assets are locked by scripts; blocks are proposed and finalised by validators, who are elected by
  the holders of stake and vote in the rounds of Tendermint. The theories follow this structure from the bottom up. All paths
  are relative to \<open>src/\<close>.

  \<^bold>\<open>Conventions.\<close> A fallible function returns \<open>('e, 'a) result\<close>: \<open>Ok\<close>, an error of the source's error type, or \<open>Panics\<close> with
  the message, for \<open>assert!\<close>, \<open>expect\<close>, \<open>unwrap\<close> and division by zero. A method that changes state is a function from the state to
  the result and the new state (\<open>sop\<close>), which is also given when the method fails. \<open>u64\<close> and wider integers are words and wrap, as the
  release build does; \<open>usize\<close> is \<open>nat\<close> where it counts objects in memory. A \<open>BTreeMap\<close> is a list sorted by keys; a \<open>HashMap\<close>
  is such a list or a function where its order is never observed. Cryptographic functions, the compression of messages and the chain
  that a validator set asks for headers are parameters.

  \<^bold>\<open>Foundations.\<close> \<open>CC_Prelude\<close> has the types, results, state operations and shared lemmas; \<open>BTree_Collections\<close> ordered maps and
  sets, with the locale \<open>ordered_map\<close> of maps whose values are summed; \<open>State_Hoare\<close> a Hoare logic for state operations and the locale
  \<open>state_preorder\<close> for frames, which the ledgers interpret for what an operation leaves alone.

  \<^bold>\<open>Scripts.\<close> \<open>Script_Code\<close> is \<open>vm/src/decoder.rs\<close>, \<open>instruction.rs\<close> and \<open>opcode.rs\<close>: decoding is exact and inverse to encoding.
  \<open>Script_VM\<close> is \<open>vm/src/executor.rs\<close>, every instruction and the loop of \<open>execute\<close>, with the memory account of the stack: memory is bounded,
  execution returns and does not panic, multiple signatures are checked as specified. \<open>Script_Standard\<close> derives what the standard
  script for a public key hash accepts, including an unintended way in.

  \<^bold>\<open>Transactions.\<close> \<open>Tx_Types\<close> has the data of \<open>types/src/transaction\<close> and the partial hashing for signatures, \<open>Tx_Syntax\<close> the
  verification that needs no state, \<open>Tx_Verified\<close> its meaning: exactly which transfers pass, and what an order protects.

  \<^bold>\<open>State.\<close> \<open>Write_Back\<close> is the cache of \<open>state/src/cache/write_back.rs\<close> with its checkpoints, refined to a stack of maps; the locale of
  its interface is interpreted on the cache. \<open>State_Items\<close> has the items of \<open>state/src/item\<close>. \<open>Shard_State\<close> is
  \<open>state/src/impls/shard_level.rs\<close>, all transactions on a shard; \<open>Shard_Ledger\<close> shows that a refused transaction leaves no trace and that
  spent assets were unlocked, \<open>Shard_Supply\<close> that the supply of every scheme is the sum of its assets and that verified transactions do
  not panic, \<open>Shard_Orders\<close> two flaws of orders. \<open>Top_State\<close> and \<open>Top_Apply\<close> are \<open>state/src/impls/top_level.rs\<close>: accounts, regular keys,
  fees, sequences, all actions and commit. \<open>Top_Ledger\<close>, \<open>Top_Revert\<close>, \<open>Top_Conserve\<close> and \<open>Top_Seq\<close> show that refused
  transactions are undone, with the exception of shards that were not cached, that CCC is conserved, that transactions are not
  replayed, and that a commit is durable.

  \<^bold>\<open>Stake.\<close> \<open>Stake_Data\<close> is \<open>core/src/consensus/stake/action_data.rs\<close>, \<open>Stake_Ops\<close> is \<open>mod.rs\<close> beside it. \<open>Stake_Ledger\<close> shows what
  transfers and delegations conserve (and that a transfer to oneself creates stake), \<open>Stake_Roster\<close> the invariants of candidates, jail
  and banned accounts, \<open>Stake_Term\<close> that closing a term succeeds or, for a validator whose nomination expires in the term, panics,
  \<open>Stake_Election\<close> who is elected, how weights progress, and which signatures change parameters.

  \<^bold>\<open>Encoding.\<close> \<open>Rlp_Base\<close> defines the encoding of items by recursion. \<open>Rlp_Stream\<close> is \<open>util/rlp/src/stream.rs\<close>, which inserts the
  headers of lists when they are complete, and is shown to write that encoding. \<open>Rlp_In\<close> is \<open>rlpin.rs\<close> and \<open>untrusted_rlp.rs\<close>;
  \<open>Rlp_Codec\<close> has the locale \<open>rlp_codec\<close> of a type with encoder and decoder, interpreted for each type, and the round trip for all items below
  $2^{32}$ bytes, the limit of the length field the decoder accepts.

  \<^bold>\<open>Consensus.\<close> \<open>Bit_Set\<close> is \<open>core/src/consensus/bit_set.rs\<close>; \<open>Tendermint_Message\<close> the messages of \<open>tendermint/message.rs\<close> with their
  codecs; \<open>Vote_Collector\<close> is \<open>vote_collector.rs\<close>, refined to the first vote of each validator; \<open>Block_Header\<close> is
  \<open>types/src/header.rs\<close>; \<open>Validator_Set\<close> the fixed and the elected validators, whose quorums interpret the locale
  \<open>quorum_system\<close>; \<open>Core_Error\<close> the errors; \<open>Tendermint_Seal\<close> the verification of sealed headers in \<open>tendermint/worker.rs\<close>,
  where two accepted blocks that conflict expose a third of the stake. \<open>Block_Rewards\<close> has the fees and rewards of
  \<open>stake/distribute.rs\<close> and \<open>tendermint/engine.rs\<close>.

  \<^bold>\<open>Bounds and fuel.\<close> The script loop runs with a measure on the program counter, since jumps go forward only. The iterator of a bit set
  ends at 800 bits. The walk over the blocks of a term takes the number of its first block as fuel, which is enough because numbers
  decrease along a chain (\<open>linked_chain\<close>); all other loops recurse on their data. Sums are assumed below $2^{64}$ where the code adds
  without a check, which holds for the supply of CCC and CCS.

  \<^bold>\<open>Not modelled.\<close> The event loop of the Tendermint worker beyond the verification of headers, and its network and backup: they act by
  messages between threads and timers. The memory pool, the miner and the client: they choose what a node proposes, not what it accepts.
  The trie and the databases below the state: the state is the map they represent. Engines for tests and proof of work, the network
  layers, RPC, JSON, the key store and the cryptography they call, logging and timers.
\<close>

end
